(* ===== verification/Prelude.thy ===== *)
theory Prelude
  imports Main "HOL-Library.Word" "HOL-Library.Char_ord" "HOL-Library.List_Lexorder"
    "HOL-Library.Multiset"
begin

section \<open>Shared vocabulary\<close>

text \<open>
  What the components share: the names of the machine types, \<open>Result\<close> values, the byte
  tests on Rust strings, saturating arithmetic, durations, and the slice operations of the
  standard library the sources call (\<open>dedup\<close>, \<open>binary_search_by_key\<close>), each with the
  facts that describe it.

  A Rust \<open>String\<close> or \<open>&str\<close> is its UTF-8 byte sequence, a \<^typ>\<open>string\<close>: \<open>len()\<close>
  counts bytes, and \<open>str\<close>'s order is the lexicographic order of the bytes.
\<close>

unbundle bit_operations_syntax

named_theorems model_defs \<open>definitions unfolded when an operation is evaluated or inverted\<close>

type_synonym u8 = "8 word"
type_synonym u16 = "16 word"
type_synonym u32 = "32 word"
type_synonym u64 = "64 word"
type_synonym bytes = string

subsection \<open>Results\<close>

text \<open>\<open>Result<A, E>\<close> is a sum with the error on the left.\<close>

type_synonym ('e, 'a) rresult = "'e + 'a"

abbreviation Err :: "'e \<Rightarrow> ('e, 'a) rresult" where
  "Err \<equiv> Inl"

abbreviation Ok :: "'a \<Rightarrow> ('e, 'a) rresult" where
  "Ok \<equiv> Inr"

definition is_ok :: "('e, 'a) rresult \<Rightarrow> bool" where
  "is_ok r = (case r of Inl _ \<Rightarrow> False | Inr _ \<Rightarrow> True)"

definition is_err :: "('e, 'a) rresult \<Rightarrow> bool" where
  "is_err r = (case r of Inl _ \<Rightarrow> True | Inr _ \<Rightarrow> False)"

definition and_then :: "('e, 'a) rresult \<Rightarrow> ('a \<Rightarrow> ('e, 'b) rresult) \<Rightarrow> ('e, 'b) rresult" where
  "and_then r f = (case r of Inl e \<Rightarrow> Inl e | Inr x \<Rightarrow> f x)"

definition map_err :: "('e \<Rightarrow> 'f) \<Rightarrow> ('e, 'a) rresult \<Rightarrow> ('f, 'a) rresult" where
  "map_err g r = (case r of Inl e \<Rightarrow> Inl (g e) | Inr x \<Rightarrow> Inr x)"

definition ok_or :: "'e \<Rightarrow> 'a option \<Rightarrow> ('e, 'a) rresult" where
  "ok_or e v = (case v of None \<Rightarrow> Inl e | Some x \<Rightarrow> Inr x)"

lemma is_ok_simps [simp]: "is_ok (Inr x)" "\<not> is_ok (Inl e)"
  by (simp_all add: is_ok_def)

lemma is_err_simps [simp]: "is_err (Inl e)" "\<not> is_err (Inr x)"
  by (simp_all add: is_err_def)

lemma is_ok_iff: "is_ok r \<longleftrightarrow> (\<exists>x. r = Inr x)"
  by (cases r) auto

lemma is_err_iff: "is_err r \<longleftrightarrow> (\<exists>e. r = Inl e)"
  by (cases r) auto

lemma is_err_not_ok: "is_err r \<longleftrightarrow> \<not> is_ok r"
  by (cases r) auto

text \<open>Inverting a chain of guards with early returns.\<close>

lemma guard_Ok [simp]: "(if c then Inl e else r) = Inr x \<longleftrightarrow> \<not> c \<and> r = Inr x"
  by simp

lemma guard_Err: "(if c then Inl e else r) = Inl d \<longleftrightarrow> (if c then e = d else r = Inl d)"
  by simp

lemma and_then_simps [simp]: "and_then (Inl e) f = Inl e" "and_then (Inr x) f = f x"
  by (simp_all add: and_then_def)

lemma and_then_Inr_iff: "and_then r f = Inr y \<longleftrightarrow> (\<exists>x. r = Inr x \<and> f x = Inr y)"
  by (cases r) auto

lemma map_err_simps [simp]: "map_err g (Inl e) = Inl (g e)" "map_err g (Inr x) = Inr x"
  by (simp_all add: map_err_def)

lemma ok_or_simps [simp]: "ok_or e None = Inl e" "ok_or e (Some x) = Inr x"
  by (simp_all add: ok_or_def)

text \<open>\<open>collect::<Result<Vec<_>, _>>\<close> over a mapped iterator: the first error wins.\<close>

fun collect_results :: "('a \<Rightarrow> ('e, 'b) rresult) \<Rightarrow> 'a list \<Rightarrow> ('e, 'b list) rresult" where
  "collect_results f [] = Inr []"
| "collect_results f (x # xs) =
     (case f x of Inl e \<Rightarrow> Inl e
      | Inr y \<Rightarrow> (case collect_results f xs of Inl e \<Rightarrow> Inl e | Inr ys \<Rightarrow> Inr (y # ys)))"

lemma collect_results_Inr:
  "collect_results f xs = Inr ys \<longleftrightarrow> list_all2 (\<lambda>x y. f x = Inr y) xs ys"
proof (induction xs arbitrary: ys)
  case (Cons x xs)
  show ?case
    by (cases "f x"; cases "collect_results f xs"; cases ys) (auto simp flip: Cons.IH)
qed auto

subsection \<open>Bytes of a string\<close>

definition is_ascii_digit :: "char \<Rightarrow> bool" where
  "is_ascii_digit c \<longleftrightarrow> 48 \<le> (of_char c :: nat) \<and> (of_char c :: nat) \<le> 57"

definition is_ascii_lowercase :: "char \<Rightarrow> bool" where
  "is_ascii_lowercase c \<longleftrightarrow> 97 \<le> (of_char c :: nat) \<and> (of_char c :: nat) \<le> 122"

definition is_ascii_uppercase :: "char \<Rightarrow> bool" where
  "is_ascii_uppercase c \<longleftrightarrow> 65 \<le> (of_char c :: nat) \<and> (of_char c :: nat) \<le> 90"

definition is_ascii_alphanumeric :: "char \<Rightarrow> bool" where
  "is_ascii_alphanumeric c \<longleftrightarrow> is_ascii_digit c \<or> is_ascii_lowercase c \<or> is_ascii_uppercase c"

definition is_ascii_control :: "char \<Rightarrow> bool" where
  "is_ascii_control c \<longleftrightarrow> (of_char c :: nat) < 32 \<or> (of_char c :: nat) = 127"

text \<open>The test \<open>byte.is_ascii_digit() || matches!(byte, b'a'..=b'f')\<close> of a lower-case hex digit.\<close>

definition is_hex_lower :: "char \<Rightarrow> bool" where
  "is_hex_lower c \<longleftrightarrow> is_ascii_digit c \<or> 97 \<le> (of_char c :: nat) \<and> (of_char c :: nat) \<le> 102"

lemmas byte_class_defs = is_ascii_digit_def is_ascii_lowercase_def is_ascii_uppercase_def
  is_ascii_alphanumeric_def is_ascii_control_def is_hex_lower_def

text \<open>
  \<open>s.chars().any(char::is_control)\<close>: the control characters are U+0000 to U+001F, U+007F and
  U+0080 to U+009F; the last range is encoded as the byte C2 followed by 80 to 9F, and in a
  valid UTF-8 text the byte C2 only starts such a pair.
\<close>

fun has_control :: "string \<Rightarrow> bool" where
  "has_control [] = False"
| "has_control [c] = is_ascii_control c"
| "has_control (c # d # s) =
     (is_ascii_control c
      \<or> ((of_char c :: nat) = 194 \<and> 128 \<le> (of_char d :: nat) \<and> (of_char d :: nat) \<le> 159)
      \<or> has_control (d # s))"

definition starts_with :: "string \<Rightarrow> string \<Rightarrow> bool" where
  "starts_with s p \<longleftrightarrow> take (length p) s = p"

definition strip_prefix :: "string \<Rightarrow> string \<Rightarrow> string option" where
  "strip_prefix s p = (if starts_with s p then Some (drop (length p) s) else None)"

lemma starts_with_iff: "starts_with s p \<longleftrightarrow> (\<exists>t. s = p @ t)"
  by (metis append_take_drop_id append_eq_conv_conj starts_with_def)

lemma starts_with_append [simp]: "starts_with (p @ t) p"
  by (simp add: starts_with_def)

subsection \<open>Saturating arithmetic\<close>

text \<open>Unsigned \<open>saturating_sub\<close>.\<close>

definition sat_sub :: "'a::len word \<Rightarrow> 'a word \<Rightarrow> 'a word" where
  "sat_sub a b = (if a < b then 0 else a - b)"

lemma unat_sat_sub: "unat (sat_sub a b) = unat a - unat b"
  by (simp add: sat_sub_def word_less_nat_alt unat_sub word_le_nat_alt not_less)

text \<open>An \<open>i64\<close> is an integer in range; its saturating operations clamp.\<close>

definition i64_min :: int where
  "i64_min = - (2 ^ 63)"

definition i64_max :: int where
  "i64_max = 2 ^ 63 - 1"

definition in_i64 :: "int \<Rightarrow> bool" where
  "in_i64 x \<longleftrightarrow> i64_min \<le> x \<and> x \<le> i64_max"

definition i64_clamp :: "int \<Rightarrow> int" where
  "i64_clamp x = max i64_min (min i64_max x)"

definition i64_sat_add :: "int \<Rightarrow> int \<Rightarrow> int" where
  "i64_sat_add a b = i64_clamp (a + b)"

definition i64_sat_sub :: "int \<Rightarrow> int \<Rightarrow> int" where
  "i64_sat_sub a b = i64_clamp (a - b)"

definition i64_sat_mul :: "int \<Rightarrow> int \<Rightarrow> int" where
  "i64_sat_mul a b = i64_clamp (a * b)"

lemmas i64_defs = i64_min_def i64_max_def in_i64_def i64_clamp_def i64_sat_add_def
  i64_sat_sub_def i64_sat_mul_def

lemma in_i64_clamp [simp]: "in_i64 (i64_clamp x)"
  by (simp add: i64_defs)

lemma i64_clamp_id: "in_i64 x \<Longrightarrow> i64_clamp x = x"
  by (simp add: i64_defs)

subsection \<open>Durations\<close>

text \<open>
  A \<open>std::time::Duration\<close> is a count of nanoseconds up to \<open>Duration::MAX\<close>, that is
  \<open>u64::MAX\<close> seconds and 999999999 nanoseconds; \<open>saturating_add\<close> stops there and
  \<open>saturating_sub\<close> stops at zero, as subtraction on \<^typ>\<open>nat\<close> does.
\<close>

type_synonym duration = nat

definition duration_max :: duration where
  "duration_max = (2 ^ 64 - 1) * 1000000000 + 999999999"

definition from_secs :: "nat \<Rightarrow> duration" where
  "from_secs s = s * 1000000000"

definition from_millis :: "nat \<Rightarrow> duration" where
  "from_millis ms = ms * 1000000"

definition as_millis :: "duration \<Rightarrow> nat" where
  "as_millis d = d div 1000000"

definition dur_sat_add :: "duration \<Rightarrow> duration \<Rightarrow> duration" where
  "dur_sat_add a b = min duration_max (a + b)"

definition dur_sat_sub :: "duration \<Rightarrow> duration \<Rightarrow> duration" where
  "dur_sat_sub a b = a - b"

lemmas duration_defs = duration_max_def from_secs_def from_millis_def as_millis_def
  dur_sat_add_def dur_sat_sub_def

end
