(* ===== verification/Machines.thy ===== *)
theory Machines
  imports Prelude
begin

section \<open>State machines and their invariants\<close>

text \<open>
  The state machines of the program are transition relations labelled by the event or the call
  that causes the step. This theory holds their reachable states and the contract an invariant
  has to meet, stated once as a locale that the components interpret on their own machines.
\<close>

inductive reach :: "('s \<Rightarrow> bool) \<Rightarrow> ('s \<Rightarrow> 'e \<Rightarrow> 's \<Rightarrow> bool) \<Rightarrow> 's \<Rightarrow> bool"
  for start :: "'s \<Rightarrow> bool" and tr :: "'s \<Rightarrow> 'e \<Rightarrow> 's \<Rightarrow> bool"
  where
    reach_start: "start s \<Longrightarrow> reach start tr s"
  | reach_step: "reach start tr s \<Longrightarrow> tr s e t \<Longrightarrow> reach start tr t"

text \<open>The states on the way from a given state, with the labels of the path.\<close>

inductive path :: "('s \<Rightarrow> 'e \<Rightarrow> 's \<Rightarrow> bool) \<Rightarrow> 's \<Rightarrow> 'e list \<Rightarrow> 's \<Rightarrow> bool"
  for tr :: "'s \<Rightarrow> 'e \<Rightarrow> 's \<Rightarrow> bool"
  where
    path_nil: "path tr s [] s"
  | path_cons: "tr s e t \<Longrightarrow> path tr t es u \<Longrightarrow> path tr s (e # es) u"

inductive_simps path_Nil_iff [simp]: "path tr s [] t"
inductive_simps path_Cons_iff: "path tr s (e # es) t"

lemma path_append: "path tr s es t \<Longrightarrow> path tr t fs u \<Longrightarrow> path tr s (es @ fs) u"
  by (induction rule: path.induct) (auto intro: path_cons)

lemma reach_path: "path tr s es t \<Longrightarrow> reach start tr s \<Longrightarrow> reach start tr t"
  by (induction rule: path.induct) (auto intro: reach_step)

text \<open>A predicate that the start states satisfy and every step keeps holds of every reachable
  state.\<close>

locale step_invariant =
  fixes start :: "'s \<Rightarrow> bool" and tr :: "'s \<Rightarrow> 'e \<Rightarrow> 's \<Rightarrow> bool" and inv :: "'s \<Rightarrow> bool"
  assumes inv_start: "start s \<Longrightarrow> inv s"
    and inv_step: "inv s \<Longrightarrow> tr s e t \<Longrightarrow> inv t"
begin

lemma inv_reach: "reach start tr s \<Longrightarrow> inv s"
  by (induction rule: reach.induct) (auto intro: inv_start inv_step)

lemma inv_path: "path tr s es t \<Longrightarrow> inv s \<Longrightarrow> inv t"
  by (induction rule: path.induct) (auto intro: inv_step)

end

text \<open>A measure that no step decreases: the value at the end of a path bounds the one at its
  start.\<close>

locale step_monotone =
  fixes tr :: "'s \<Rightarrow> 'e \<Rightarrow> 's \<Rightarrow> bool" and rank :: "'s \<Rightarrow> 'r::preorder"
  assumes rank_step: "tr s e t \<Longrightarrow> rank s \<le> rank t"
begin

lemma rank_path: "path tr s es t \<Longrightarrow> rank s \<le> rank t"
  by (induction rule: path.induct) (auto intro: rank_step order_trans)

end

end
