(* ===== verification/Lifecycle.thy ===== *)
theory Lifecycle
  imports Machines
begin

section \<open>The lifecycle reducer\<close>

text \<open>
  \<open>crates/nethop-core/src/lifecycle.rs\<close>: three coupled axes (the core process, the capture of
  traffic, the resource tier), the predicate that says which combinations are legal, and the
  reducer that moves between them. \<open>LifecycleReducer::apply\<close> first chooses the next axes by
  event and guard (\<open>next_axes\<close>) and then validates them; on an error the reducer keeps its
  axes. The lemmas show that the reducer never leaves the legal combinations, which
  combinations it can reach, and which events it can never accept.
\<close>

datatype CoreState = CS_Stopped | CS_Starting | CS_Ready | CS_Stopping | CS_Failed

datatype CaptureState = CP_Disabled | CP_Preparing | CP_Enabled | CP_Disabling | CP_Failed

datatype ResourceState = RS_Active | RS_Warm | RS_Idle | RS_Cold

datatype LifecycleEvent =
    CoreStartRequested
  | CoreReady
  | CoreStopRequested
  | CoreStopped
  | CoreFailed
  | CaptureEnableRequested
  | CaptureEnabled
  | CaptureDisableRequested
  | CaptureDisabled
  | CaptureFailed
  | IdleDeadlineReached
  | ResourcePressureEvent
  | UserDemand

record LifecycleAxes =
  core_state :: CoreState
  capture_state :: CaptureState
  resource_state :: ResourceState

datatype LifecycleError =
    InvalidAxes CoreState CaptureState ResourceState
  | InvalidEvent LifecycleAxes LifecycleEvent

abbreviation mk_axes :: "CoreState \<Rightarrow> CaptureState \<Rightarrow> ResourceState \<Rightarrow> LifecycleAxes" where
  "mk_axes c p r \<equiv> \<lparr>core_state = c, capture_state = p, resource_state = r\<rparr>"

definition axes_cold :: LifecycleAxes where
  [model_defs]: "axes_cold = mk_axes CS_Stopped CP_Disabled RS_Cold"

definition axes_warm :: LifecycleAxes where
  [model_defs]: "axes_warm = mk_axes CS_Ready CP_Disabled RS_Warm"

definition axes_active :: LifecycleAxes where
  [model_defs]: "axes_active = mk_axes CS_Ready CP_Enabled RS_Active"

definition is_valid :: "LifecycleAxes \<Rightarrow> bool" where
  "is_valid a =
     (let core_capture_valid =
            (case core_state a of
               CS_Stopped \<Rightarrow> capture_state a \<in> {CP_Disabled, CP_Failed}
             | CS_Starting \<Rightarrow> capture_state a \<in> {CP_Disabled, CP_Disabling}
             | CS_Stopping \<Rightarrow> capture_state a \<in> {CP_Disabled, CP_Disabling}
             | CS_Ready \<Rightarrow> True
             | CS_Failed \<Rightarrow> capture_state a \<in> {CP_Disabled, CP_Failed});
          resource_valid =
            (case resource_state a of
               RS_Active \<Rightarrow> core_state a = CS_Ready \<and> capture_state a \<in> {CP_Enabled, CP_Disabling}
             | RS_Warm \<Rightarrow> core_state a = CS_Ready
                  \<and> capture_state a \<in> {CP_Disabled, CP_Preparing, CP_Failed}
             | RS_Idle \<Rightarrow> core_state a \<in> {CS_Ready, CS_Stopping} \<and> capture_state a = CP_Disabled
             | RS_Cold \<Rightarrow> core_state a \<in> {CS_Stopped, CS_Starting, CS_Stopping}
                  \<and> capture_state a = CP_Disabled)
      in core_capture_valid \<and> resource_valid)"

definition invalid_axes :: "LifecycleAxes \<Rightarrow> LifecycleError" where
  "invalid_axes a = InvalidAxes (core_state a) (capture_state a) (resource_state a)"

definition validate_axes :: "LifecycleAxes \<Rightarrow> (LifecycleError, LifecycleAxes) rresult" where
  "validate_axes a = (if is_valid a then Ok a else Err (invalid_axes a))"

subsection \<open>The reducer\<close>

record LifecycleReducer =
  axes :: LifecycleAxes

definition reducer_new :: LifecycleReducer where
  "reducer_new = \<lparr>axes = axes_cold\<rparr>"

definition from_axes :: "LifecycleAxes \<Rightarrow> (LifecycleError, LifecycleReducer) rresult" where
  "from_axes a = (if is_valid a then Ok \<lparr>axes = a\<rparr> else Err (invalid_axes a))"

text \<open>The match of \<open>apply\<close>: the axes chosen for an event, None for its last arm.\<close>

fun next_axes :: "LifecycleAxes \<Rightarrow> LifecycleEvent \<Rightarrow> LifecycleAxes option" where
  "next_axes a CoreStartRequested =
     (if a = axes_cold then Some (mk_axes CS_Starting CP_Disabled RS_Cold) else None)"
| "next_axes a CoreReady =
     (if core_state a = CS_Starting \<and> capture_state a = CP_Disabled then Some axes_warm else None)"
| "next_axes a CaptureEnableRequested =
     (if core_state a = CS_Ready \<and> capture_state a = CP_Disabled
      then Some (mk_axes CS_Ready CP_Preparing RS_Warm) else None)"
| "next_axes a CaptureEnabled =
     (if core_state a = CS_Ready \<and> capture_state a = CP_Preparing then Some axes_active else None)"
| "next_axes a CaptureDisableRequested =
     (if core_state a = CS_Ready \<and> capture_state a = CP_Enabled
      then Some (mk_axes CS_Ready CP_Disabling RS_Active) else None)"
| "next_axes a CaptureDisabled =
     (if core_state a = CS_Ready \<and> capture_state a \<in> {CP_Disabling, CP_Enabled}
      then Some axes_warm else None)"
| "next_axes a IdleDeadlineReached =
     (if a = axes_warm then Some (mk_axes CS_Ready CP_Disabled RS_Idle) else None)"
| "next_axes a CoreStopRequested =
     (if resource_state a \<in> {RS_Warm, RS_Idle} \<and> core_state a = CS_Ready
         \<and> capture_state a = CP_Disabled
      then Some (mk_axes CS_Stopping CP_Disabled (resource_state a)) else None)"
| "next_axes a CoreStopped =
     (if core_state a = CS_Stopping \<and> capture_state a = CP_Disabled then Some axes_cold else None)"
| "next_axes a UserDemand = (if resource_state a = RS_Idle then Some axes_warm else None)"
| "next_axes a CoreFailed =
     (if capture_state a = CP_Disabled then Some (mk_axes CS_Failed CP_Disabled RS_Cold) else None)"
| "next_axes a CaptureFailed =
     (if core_state a = CS_Ready then Some (mk_axes CS_Ready CP_Failed RS_Warm) else None)"
| "next_axes a ResourcePressureEvent = None"

text \<open>\<open>apply\<close> returns its result and the reducer after the call; \<open>self.axes = next.validate()?\<close>
  assigns only when the validation succeeds.\<close>

definition apply_event ::
  "LifecycleReducer \<Rightarrow> LifecycleEvent \<Rightarrow> (LifecycleError, LifecycleAxes) rresult \<times> LifecycleReducer"
  where
  "apply_event r ev =
     (case next_axes (axes r) ev of
        None \<Rightarrow> (Err (InvalidEvent (axes r) ev), r)
      | Some nx \<Rightarrow>
          (case validate_axes nx of
             Inl e \<Rightarrow> (Err e, r)
           | Inr nx' \<Rightarrow> (Ok nx, r\<lparr>axes := nx'\<rparr>)))"

text \<open>An accepted event is a step of the machine.\<close>

definition lifecycle_step :: "LifecycleReducer \<Rightarrow> LifecycleEvent \<Rightarrow> LifecycleReducer \<Rightarrow> bool" where
  "lifecycle_step r ev r' \<longleftrightarrow> (\<exists>a. apply_event r ev = (Ok a, r'))"

definition lifecycle_start :: "LifecycleReducer \<Rightarrow> bool" where
  "lifecycle_start r \<longleftrightarrow> r = reducer_new"

subsection \<open>Facts about single events\<close>

lemma apply_event_Ok:
  "apply_event r ev = (Ok a, r') \<longleftrightarrow> next_axes (axes r) ev = Some a \<and> is_valid a \<and> r' = r\<lparr>axes := a\<rparr>"
  by (auto simp: apply_event_def validate_axes_def split: option.splits if_splits)

lemma apply_event_Err: "apply_event r ev = (Err e, r') \<Longrightarrow> r' = r"
  by (auto simp: apply_event_def validate_axes_def split: option.splits if_splits)

lemma lifecycle_step_iff:
  "lifecycle_step r ev r' \<longleftrightarrow>
     (\<exists>a. next_axes (axes r) ev = Some a \<and> is_valid a \<and> r' = r\<lparr>axes := a\<rparr>)"
  by (simp add: lifecycle_step_def apply_event_Ok)

lemma is_valid_mk_axes:
  "is_valid (mk_axes c p r) \<longleftrightarrow>
     (case r of
        RS_Active \<Rightarrow> c = CS_Ready \<and> p \<in> {CP_Enabled, CP_Disabling}
      | RS_Warm \<Rightarrow> c = CS_Ready \<and> p \<in> {CP_Disabled, CP_Preparing, CP_Failed}
      | RS_Idle \<Rightarrow> c \<in> {CS_Ready, CS_Stopping} \<and> p = CP_Disabled
      | RS_Cold \<Rightarrow> c \<in> {CS_Stopped, CS_Starting, CS_Stopping} \<and> p = CP_Disabled)"
  by (cases r; cases c) (auto simp: is_valid_def)

interpretation lifecycle: step_invariant lifecycle_start lifecycle_step "\<lambda>r. is_valid (axes r)"
proof unfold_locales
  fix r assume "lifecycle_start r"
  then show "is_valid (axes r)"
    unfolding lifecycle_start_def reducer_new_def axes_cold_def
    by (simp add: is_valid_mk_axes)
next
  fix r ev r' assume "lifecycle_step r ev r'"
  then show "is_valid (axes r')" by (auto simp: lifecycle_step_iff)
qed

subsection \<open>The reachable combinations\<close>

definition reachable_axes :: "LifecycleAxes list" where
  "reachable_axes =
     [axes_cold, mk_axes CS_Starting CP_Disabled RS_Cold, axes_warm,
      mk_axes CS_Ready CP_Preparing RS_Warm, axes_active,
      mk_axes CS_Ready CP_Disabling RS_Active, mk_axes CS_Ready CP_Failed RS_Warm,
      mk_axes CS_Ready CP_Disabled RS_Idle, mk_axes CS_Stopping CP_Disabled RS_Idle]"

definition all_events :: "LifecycleEvent list" where
  "all_events =
     [CoreStartRequested, CoreReady, CoreStopRequested, CoreStopped, CoreFailed,
      CaptureEnableRequested, CaptureEnabled, CaptureDisableRequested, CaptureDisabled,
      CaptureFailed, IdleDeadlineReached, ResourcePressureEvent, UserDemand]"

lemma in_all_events: "ev \<in> set all_events"
  by (cases ev) (simp_all add: all_events_def)

lemma reachable_axes_closed:
  "list_all (\<lambda>a. list_all (\<lambda>ev. case next_axes a ev of None \<Rightarrow> True
       | Some b \<Rightarrow> is_valid b \<longrightarrow> List.member reachable_axes b) all_events) reachable_axes"
  by code_simp

lemma next_axes_reachable:
  "a \<in> set reachable_axes \<Longrightarrow> next_axes a ev = Some b \<Longrightarrow> is_valid b \<Longrightarrow> b \<in> set reachable_axes"
  using reachable_axes_closed in_all_events [of ev] by (fastforce simp: list_all_iff)

interpretation lifecycle_closed:
  step_invariant lifecycle_start lifecycle_step "\<lambda>r. axes r \<in> set reachable_axes"
proof unfold_locales
  fix r assume "lifecycle_start r"
  then show "axes r \<in> set reachable_axes"
    by (simp add: lifecycle_start_def reducer_new_def reachable_axes_def)
next
  fix r ev r' assume "axes r \<in> set reachable_axes" "lifecycle_step r ev r'"
  then show "axes r' \<in> set reachable_axes"
    by (auto simp: lifecycle_step_iff dest: next_axes_reachable)
qed

lemma step_next:
  "next_axes a ev = Some b \<Longrightarrow> is_valid b \<Longrightarrow> lifecycle_step \<lparr>axes = a\<rparr> ev \<lparr>axes = b\<rparr>"
  by (simp add: lifecycle_step_iff)

lemma reach_next:
  "reach lifecycle_start lifecycle_step \<lparr>axes = a\<rparr> \<Longrightarrow> next_axes a ev = Some b \<Longrightarrow> is_valid b
   \<Longrightarrow> reach lifecycle_start lifecycle_step \<lparr>axes = b\<rparr>"
  using reach_step step_next by metis

lemma reachable_axes_reach:
  assumes "a \<in> set reachable_axes"
  shows "reach lifecycle_start lifecycle_step \<lparr>axes = a\<rparr>"
proof -
  let ?R = "\<lambda>a. reach lifecycle_start lifecycle_step \<lparr>axes = a\<rparr>"
  note run = model_defs is_valid_mk_axes
  have cold: "?R axes_cold"
    by (rule reach_start) (simp add: lifecycle_start_def reducer_new_def)
  have starting: "?R (mk_axes CS_Starting CP_Disabled RS_Cold)"
    by (rule reach_next [OF cold, of CoreStartRequested]) (simp_all add: run)
  have warm: "?R axes_warm"
    by (rule reach_next [OF starting, of CoreReady]) (simp_all add: run)
  have preparing: "?R (mk_axes CS_Ready CP_Preparing RS_Warm)"
    by (rule reach_next [OF warm, of CaptureEnableRequested]) (simp_all add: run)
  have active: "?R axes_active"
    by (rule reach_next [OF preparing, of CaptureEnabled]) (simp_all add: run)
  have disabling: "?R (mk_axes CS_Ready CP_Disabling RS_Active)"
    by (rule reach_next [OF active, of CaptureDisableRequested]) (simp_all add: run)
  have failed: "?R (mk_axes CS_Ready CP_Failed RS_Warm)"
    by (rule reach_next [OF warm, of CaptureFailed]) (simp_all add: run)
  have idle: "?R (mk_axes CS_Ready CP_Disabled RS_Idle)"
    by (rule reach_next [OF warm, of IdleDeadlineReached]) (simp_all add: run)
  have stopping: "?R (mk_axes CS_Stopping CP_Disabled RS_Idle)"
    by (rule reach_next [OF idle, of CoreStopRequested]) (simp_all add: run)
  have "list_all ?R reachable_axes"
    by (simp only: reachable_axes_def list.pred_inject cold starting warm preparing
        active disabling failed idle stopping simp_thms)
  with assms show ?thesis by (simp add: list_all_iff)
qed

subsection \<open>Properties\<close>

abbreviation capture_failed_axes :: LifecycleAxes where
  "capture_failed_axes \<equiv> mk_axes CS_Ready CP_Failed RS_Warm"

abbreviation idle_axes :: LifecycleAxes where
  "idle_axes \<equiv> mk_axes CS_Ready CP_Disabled RS_Idle"

lemma reach_iff_reachable_axes:
  "reach lifecycle_start lifecycle_step r \<longleftrightarrow> axes r \<in> set reachable_axes"
proof
  assume "axes r \<in> set reachable_axes"
  from reachable_axes_reach [OF this] show "reach lifecycle_start lifecycle_step r"
    by (cases r) simp
qed (rule lifecycle_closed.inv_reach)


text \<open>C12. Every state the reducer reaches is legal, and capture is being set up, active or being
  torn down only while the core is ready.\<close>

theorem lifecycle_capture_needs_ready_core:
  assumes "reach lifecycle_start lifecycle_step r"
  shows "is_valid (axes r)
    \<and> (capture_state (axes r) \<in> {CP_Preparing, CP_Enabled, CP_Disabling}
         \<longrightarrow> core_state (axes r) = CS_Ready)"
  using lifecycle.inv_reach [OF assms] lifecycle_closed.inv_reach [OF assms]
  by (simp add: reachable_axes_def model_defs, elim disjE; simp)

theorem lifecycle_capture_needs_ready_core_witness:
  "capture_state axes_active = CP_Enabled \<and> is_valid axes_active \<and> core_state axes_active = CS_Ready"
  using lifecycle_capture_needs_ready_core [OF reachable_axes_reach [of axes_active]]
  by (simp add: reachable_axes_def model_defs)

text \<open>C13. A failure of the core is never recorded: from whatever axes, the reducer answers the
  event with an error and keeps its state, because the axes it would move to are not legal;
  no legal combination has a failed core.\<close>

theorem core_failure_never_recorded:
  "apply_event r CoreFailed =
     (Err (if capture_state (axes r) = CP_Disabled
           then InvalidAxes CS_Failed CP_Disabled RS_Cold
           else InvalidEvent (axes r) CoreFailed), r)
   \<and> \<not> (is_valid a \<and> core_state a = CS_Failed)"
proof -
  have "\<not> is_valid (mk_axes CS_Failed CP_Disabled RS_Cold)" by (simp add: is_valid_mk_axes)
  moreover have "\<not> is_valid a" if "core_state a = CS_Failed"
    using that by (cases "resource_state a") (simp_all add: is_valid_def)
  ultimately show ?thesis
    by (auto simp: apply_event_def validate_axes_def invalid_axes_def)
qed

text \<open>C14. A request to stop the core is accepted in the idle tier only: the guard also admits
  the warm tier, but the axes chosen there are not legal.\<close>

theorem core_stop_only_from_idle:
  "lifecycle_step r CoreStopRequested r' \<longleftrightarrow>
     axes r = idle_axes \<and> r' = \<lparr>axes = mk_axes CS_Stopping CP_Disabled RS_Idle\<rparr>"
proof (cases r)
  case (fields a)
  have "is_valid (mk_axes CS_Stopping CP_Disabled t) \<longleftrightarrow> t = RS_Idle \<or> t = RS_Cold" for t
    by (cases t) (simp_all add: is_valid_mk_axes)
  with fields show ?thesis by (cases a) (auto simp: lifecycle_step_iff split: if_splits)
qed


text \<open>C16. From every other reachable state some sequence of events brings the reducer back to
  the cold state it started in.\<close>

theorem lifecycle_can_return_to_cold:
  assumes "reach lifecycle_start lifecycle_step r" "axes r \<noteq> capture_failed_axes"
  shows "\<exists>evs. path lifecycle_step r evs reducer_new"
proof -
  let ?P = "\<lambda>a. \<exists>evs. path lifecycle_step \<lparr>axes = a\<rparr> evs reducer_new"
  note run = model_defs is_valid_mk_axes
  have via: "?P a" if "?P b" "next_axes a ev = Some b" "is_valid b" for a b ev
    using that(1) step_next [OF that(2,3)] by (meson path_cons)
  have cold: "?P axes_cold" by (rule exI [of _ "[]"]) (simp add: reducer_new_def)
  have stopping: "?P (mk_axes CS_Stopping CP_Disabled RS_Idle)"
    by (rule via [OF cold, of _ CoreStopped]) (simp_all add: run)
  have idle: "?P idle_axes"
    by (rule via [OF stopping, of _ CoreStopRequested]) (simp_all add: run)
  have warm: "?P axes_warm" by (rule via [OF idle, of _ IdleDeadlineReached]) (simp_all add: run)
  have starting: "?P (mk_axes CS_Starting CP_Disabled RS_Cold)"
    by (rule via [OF warm, of _ CoreReady]) (simp_all add: run)
  have active: "?P axes_active" by (rule via [OF warm, of _ CaptureDisabled]) (simp_all add: run)
  have disabling: "?P (mk_axes CS_Ready CP_Disabling RS_Active)"
    by (rule via [OF warm, of _ CaptureDisabled]) (simp_all add: run)
  have preparing: "?P (mk_axes CS_Ready CP_Preparing RS_Warm)"
    by (rule via [OF active, of _ CaptureEnabled]) (simp_all add: run)
  have "list_all (\<lambda>a. a \<noteq> capture_failed_axes \<longrightarrow> ?P a) reachable_axes"
    by (simp only: reachable_axes_def list.pred_inject cold starting warm preparing
        active disabling idle stopping simp_thms)
  with assms show ?thesis
    using lifecycle_closed.inv_reach [OF assms(1)] by (cases r) (simp add: list_all_iff)
qed

theorem lifecycle_can_return_to_cold_witness:
  "axes_active \<noteq> capture_failed_axes \<and> (\<exists>evs. path lifecycle_step \<lparr>axes = axes_active\<rparr> evs reducer_new)"
  using lifecycle_can_return_to_cold [OF reachable_axes_reach [of axes_active]]
  by (simp add: reachable_axes_def model_defs)

end
