(* ===== verification/Runtime_State.thy ===== *)
theory Runtime_State
  imports Machines
begin

section \<open>The runtime state machine\<close>

text \<open>
  \<open>crates/nethop-core/src/state.rs\<close>: the states the worker reports and the table of the moves
  \<open>RuntimeState::transition\<close> accepts. The lemmas give the graph's shape: where it can start,
  where it ends, and which states every run to a capturing state goes through.
\<close>

datatype RuntimeState =
    Rt_Init
  | Rt_Probing
  | Rt_StartingCore
  | Rt_RunningTproxy
  | Rt_StartingTun
  | Rt_RunningTun
  | Rt_Degraded
  | Rt_Backoff
  | Rt_CircuitOpen
  | Rt_FailOpenDirect
  | Rt_Stopping

datatype StateTransitionError = InvalidTransition RuntimeState RuntimeState

definition transition_table :: "(RuntimeState \<times> RuntimeState) list" where
  "transition_table =
     [(Rt_Init, Rt_Probing),
      (Rt_Probing, Rt_StartingCore),
      (Rt_Probing, Rt_StartingTun),
      (Rt_Probing, Rt_FailOpenDirect),
      (Rt_StartingCore, Rt_RunningTproxy),
      (Rt_StartingCore, Rt_StartingTun),
      (Rt_StartingCore, Rt_FailOpenDirect),
      (Rt_StartingTun, Rt_RunningTun),
      (Rt_StartingTun, Rt_Backoff),
      (Rt_StartingTun, Rt_FailOpenDirect),
      (Rt_RunningTproxy, Rt_Degraded),
      (Rt_RunningTproxy, Rt_Stopping),
      (Rt_RunningTun, Rt_Degraded),
      (Rt_RunningTun, Rt_Stopping),
      (Rt_Degraded, Rt_Backoff),
      (Rt_Degraded, Rt_FailOpenDirect),
      (Rt_Degraded, Rt_Stopping),
      (Rt_Backoff, Rt_Probing),
      (Rt_Backoff, Rt_FailOpenDirect),
      (Rt_FailOpenDirect, Rt_Backoff),
      (Rt_FailOpenDirect, Rt_CircuitOpen),
      (Rt_FailOpenDirect, Rt_Probing),
      (Rt_FailOpenDirect, Rt_Stopping),
      (Rt_CircuitOpen, Rt_Stopping)]"

definition transition ::
  "RuntimeState \<Rightarrow> RuntimeState \<Rightarrow> (StateTransitionError, RuntimeState) rresult" where
  "transition s t =
     (if List.member transition_table (s, t) then Ok t else Err (InvalidTransition s t))"

text \<open>A step of the machine, labelled by the state it enters.\<close>

definition runtime_step :: "RuntimeState \<Rightarrow> RuntimeState \<Rightarrow> RuntimeState \<Rightarrow> bool" where
  "runtime_step s l t \<longleftrightarrow> l = t \<and> transition s t = Ok t"

lemma runtime_step_iff: "runtime_step s l t \<longleftrightarrow> l = t \<and> (s, t) \<in> set transition_table"
  by (auto simp: runtime_step_def transition_def)

lemma runtime_step_intro: "(s, t) \<in> set transition_table \<Longrightarrow> runtime_step s t t"
  by (simp add: runtime_step_iff)

text \<open>The states on a path, its start included.\<close>

definition visits :: "RuntimeState \<Rightarrow> RuntimeState list \<Rightarrow> RuntimeState set" where
  "visits s ls = insert s (set ls)"

text \<open>A run that ends where no edge leads without first entering \<open>m\<close> has entered \<open>m\<close>: stated
  for any set \<open>S\<close> of states that the machine only enters through \<open>m\<close>.\<close>

lemma path_enters_through:
  assumes "\<And>s t. (s, t) \<in> set transition_table \<Longrightarrow> t \<in> S \<Longrightarrow> s \<in> S \<or> s = m"
  shows "path runtime_step s ls t \<Longrightarrow> t \<in> S \<Longrightarrow> s \<notin> S \<Longrightarrow> m \<in> visits s ls"
proof (induction rule: path.induct)
  case (path_cons s e t es u)
  then have e: "e = t" "(s, t) \<in> set transition_table" by (auto simp: runtime_step_iff)
  show ?case
  proof (cases "t \<in> S")
    case True
    with assms [OF e(2)] path_cons.prems show ?thesis by (auto simp: visits_def)
  next
    case False
    with path_cons e show ?thesis by (auto simp: visits_def)
  qed
qed simp

lemma edge_path: "(s, t) \<in> set transition_table \<Longrightarrow> path runtime_step t ls u \<Longrightarrow>
    path runtime_step s (t # ls) u"
  by (simp add: path_Cons_iff runtime_step_iff)

lemma path_to_stopping: "\<exists>ls. path runtime_step s ls Rt_Stopping"
proof -
  let ?P = "\<lambda>s. \<exists>ls. path runtime_step s ls Rt_Stopping"
  have via: "?P s" if "?P t" "(s, t) \<in> set transition_table" for s t
    using that edge_path by blast
  have stopping: "?P Rt_Stopping" by (blast intro: path_nil)
  have "?P Rt_RunningTproxy" "?P Rt_RunningTun" "?P Rt_Degraded" "?P Rt_FailOpenDirect"
    "?P Rt_CircuitOpen"
    by (rule via [OF stopping], simp add: transition_table_def)+
  then have "?P Rt_Probing" "?P Rt_StartingCore" "?P Rt_StartingTun" "?P Rt_Backoff"
    by - (rule via [where t = Rt_FailOpenDirect], assumption, simp add: transition_table_def)+
  moreover from this(1) have "?P Rt_Init" by (rule via) (simp add: transition_table_def)
  ultimately show ?thesis
    using stopping \<open>?P Rt_RunningTproxy\<close> \<open>?P Rt_RunningTun\<close> \<open>?P Rt_Degraded\<close>
      \<open>?P Rt_FailOpenDirect\<close> \<open>?P Rt_CircuitOpen\<close>
    by (cases s) simp_all
qed

subsection \<open>Properties\<close>

text \<open>C17. A run that enters a capturing state has gone through the start-up of that backend, and
  unless it began inside a start-up or a capturing state it has gone through a capability
  probe: after a degradation or a back-off the capability is probed again before traffic is
  captured again.\<close>

theorem capturing_is_always_probed:
  assumes "path runtime_step s ls t"
    and "t \<in> {Rt_RunningTproxy, Rt_RunningTun}"
    and "s \<notin> {Rt_StartingCore, Rt_StartingTun, Rt_RunningTproxy, Rt_RunningTun}"
  shows "Rt_Probing \<in> visits s ls
    \<and> (if t = Rt_RunningTproxy then Rt_StartingCore else Rt_StartingTun) \<in> visits s ls"
proof
  show "Rt_Probing \<in> visits s ls"
    by (rule path_enters_through [OF _ assms(1),
          where S = "{Rt_StartingCore, Rt_StartingTun, Rt_RunningTproxy, Rt_RunningTun}"])
      (use assms(2,3) in \<open>auto simp: transition_table_def\<close>)
  show "(if t = Rt_RunningTproxy then Rt_StartingCore else Rt_StartingTun) \<in> visits s ls"
    by (rule path_enters_through [OF _ assms(1), where S = "{t}"])
      (use assms(2,3) in \<open>auto simp: transition_table_def\<close>)
qed

theorem capturing_is_always_probed_witness:
  "path runtime_step Rt_Degraded
     [Rt_Backoff, Rt_Probing, Rt_StartingCore, Rt_RunningTproxy] Rt_RunningTproxy
   \<and> Rt_Probing \<in> visits Rt_Degraded [Rt_Backoff, Rt_Probing, Rt_StartingCore, Rt_RunningTproxy]"
proof -
  have p: "path runtime_step Rt_Degraded
     [Rt_Backoff, Rt_Probing, Rt_StartingCore, Rt_RunningTproxy] Rt_RunningTproxy"
    by (simp add: path_Cons_iff runtime_step_iff transition_table_def)
  show ?thesis using p capturing_is_always_probed [OF p] by simp
qed

text \<open>C18. \<open>Stopping\<close> is the only state with no way on, every state can get there, and an open
  circuit can go nowhere else.\<close>

theorem stopping_is_the_only_end:
  "((\<forall>t. is_err (transition s t)) \<longleftrightarrow> s = Rt_Stopping)
   \<and> (\<exists>ls. path runtime_step s ls Rt_Stopping)
   \<and> (is_ok (transition Rt_CircuitOpen t) \<longleftrightarrow> t = Rt_Stopping)"
proof -
  have "is_err (transition s t) \<longleftrightarrow> (s, t) \<notin> set transition_table" for t
    by (simp add: transition_def)
  moreover have "(\<forall>t. (s, t) \<notin> set transition_table) \<longleftrightarrow> s = Rt_Stopping"
    by (cases s) (auto simp: transition_table_def)
  ultimately show ?thesis
    using path_to_stopping by (auto simp: transition_def transition_table_def)
qed

end
