(* ===== verification/Slices.thy ===== *)
theory Slices
  imports Prelude
begin

section \<open>Slices and numerals of the standard library\<close>

text \<open>
  The binary search of \<open>core::slice\<close> and the decimal formatting and parsing of \<open>u64\<close>, with
  the facts the components need: on a slice sorted by the key the search finds an element
  exactly when there is one (the contract is the locale \<open>key_index\<close>), and parsing undoes
  formatting.
\<close>

subsection \<open>Binary search\<close>

text \<open>
  \<open>slice::binary_search_by_key\<close>: the loop halves the window \<open>[base, base + size)\<close> and keeps
  the last position whose key is not greater than the target; the result is \<open>Ok(index)\<close> or
  \<open>Err(insertion point)\<close>.
\<close>

function bs_loop :: "('a \<Rightarrow> 'k::linorder) \<Rightarrow> 'a list \<Rightarrow> 'k \<Rightarrow> nat \<Rightarrow> nat \<Rightarrow> nat" where
  "bs_loop key xs k base n =
     (if 1 < n
      then let half = n div 2; mid = base + half
           in bs_loop key xs k (if k < key (xs ! mid) then base else mid) (n - half)
      else base)"
  by pat_completeness auto
termination
  by (relation "measure (\<lambda>(key, xs, k, base, n). n)") auto

declare bs_loop.simps [simp del]

definition binary_search_by_key ::
  "('a \<Rightarrow> 'k::linorder) \<Rightarrow> 'a list \<Rightarrow> 'k \<Rightarrow> (nat, nat) rresult" where
  "binary_search_by_key key xs k =
     (if xs = [] then Err 0
      else let base = bs_loop key xs k 0 (length xs)
           in if key (xs ! base) = k then Ok base
              else if key (xs ! base) < k then Err (base + 1) else Err base)"

definition binary_search :: "'k::linorder list \<Rightarrow> 'k \<Rightarrow> (nat, nat) rresult" where
  "binary_search xs k = binary_search_by_key id xs k"

lemma bs_loop_range:
  "0 < n \<Longrightarrow> base + n \<le> length xs \<Longrightarrow>
     base \<le> bs_loop key xs k base n \<and> bs_loop key xs k base n < base + n"
proof (induction key xs k base n rule: bs_loop.induct)
  case (1 key xs k base n)
  show ?case
  proof (cases "1 < n")
    case True
    let ?base = "if k < key (xs ! (base + n div 2)) then base else base + n div 2"
    have "?base \<le> bs_loop key xs k ?base (n - n div 2)
        \<and> bs_loop key xs k ?base (n - n div 2) < ?base + (n - n div 2)"
      using True "1.prems" by (intro "1.IH") auto
    with True show ?thesis
      by (auto simp: bs_loop.simps [of key xs k base n] Let_def split: if_splits)
  next
    case False
    with "1.prems" show ?thesis by (simp add: bs_loop.simps [of key xs k base n])
  qed
qed

text \<open>Everything after the position found has a key greater than the target, and the position
  found is the first or has a key at most the target, provided that held of the window.\<close>

lemma bs_loop_split:
  assumes "sorted (map key xs)"
  shows "0 < n \<Longrightarrow> base + n \<le> length xs
    \<Longrightarrow> (\<And>i. i < length xs \<Longrightarrow> base + n \<le> i \<Longrightarrow> k < key (xs ! i))
    \<Longrightarrow> base = 0 \<or> key (xs ! base) \<le> k
    \<Longrightarrow> (\<forall>i < length xs. bs_loop key xs k base n < i \<longrightarrow> k < key (xs ! i))
       \<and> (bs_loop key xs k base n = 0 \<or> key (xs ! bs_loop key xs k base n) \<le> k)"
  using assms
proof (induction key xs k base n rule: bs_loop.induct)
  case (1 key xs k base n)
  show ?case
  proof (cases "1 < n")
    case True
    let ?mid = "base + n div 2"
    let ?base = "if k < key (xs ! ?mid) then base else ?mid"
    let ?n = "n - n div 2"
    have mono: "key (xs ! i) \<le> key (xs ! j)" if "i \<le> j" "j < length xs" for i j
      using sorted_nth_mono [OF "1.prems"(5), of i j] that by simp
    have "(\<forall>i < length xs. bs_loop key xs k ?base ?n < i \<longrightarrow> k < key (xs ! i))
       \<and> (bs_loop key xs k ?base ?n = 0 \<or> key (xs ! bs_loop key xs k ?base ?n) \<le> k)"
    proof (rule "1.IH")
      show "k < key (xs ! i)" if "i < length xs" "?base + ?n \<le> i" for i
      proof (cases "k < key (xs ! ?mid)")
        case greater: True
        with that have "?mid \<le> i" by auto
        with mono [OF _ that(1)] greater show ?thesis by (metis less_le_trans)
      next
        case False
        with that True show ?thesis by (intro "1.prems"(3)) auto
      qed
    qed (use True "1.prems" in auto)
    with True show ?thesis
      by (simp add: bs_loop.simps [of key xs k base n] Let_def)
  next
    case False
    then have "bs_loop key xs k base n = base"
      by (simp add: bs_loop.simps [of key xs k base n])
    with False "1.prems" show ?thesis by auto
  qed
qed

lemma binary_search_by_key_Ok:
  assumes "binary_search_by_key key xs k = Ok i"
  shows "i < length xs \<and> key (xs ! i) = k"
  using assms bs_loop_range [of "length xs" 0 xs key k]
  by (auto simp: binary_search_by_key_def Let_def split: if_splits)

lemma binary_search_by_key_Err:
  assumes "sorted (map key xs)" "binary_search_by_key key xs k = Err i"
  shows "k \<notin> key ` set xs"
proof
  assume "k \<in> key ` set xs"
  then obtain j where j: "j < length xs" "key (xs ! j) = k"
    by (auto simp: in_set_conv_nth)
  let ?b = "bs_loop key xs k 0 (length xs)"
  have "xs \<noteq> []" using j by auto
  then have b: "?b < length xs"
    using bs_loop_range [of "length xs" 0 xs key k] by simp
  have after: "\<forall>i < length xs. ?b < i \<longrightarrow> k < key (xs ! i)"
    and at: "?b = 0 \<or> key (xs ! ?b) \<le> k"
    using bs_loop_split [OF assms(1), of "length xs" 0 k] \<open>xs \<noteq> []\<close> by simp_all
  have "j \<le> ?b" using after j by (meson less_irrefl not_le_imp_less)
  moreover from this have "k \<le> key (xs ! ?b)"
    using sorted_nth_mono [OF assms(1), of j ?b] j b by simp
  ultimately have "key (xs ! ?b) = k" using at j(2) by (metis le_zero_eq order_antisym)
  with assms(2) j(1) show False
    by (auto simp: binary_search_by_key_def Let_def split: if_splits)
qed

lemma binary_search_by_key_is_ok:
  "sorted (map key xs) \<Longrightarrow> is_ok (binary_search_by_key key xs k) \<longleftrightarrow> k \<in> key ` set xs"
  using binary_search_by_key_Ok [of key xs k] binary_search_by_key_Err [of key xs k]
  by (cases "binary_search_by_key key xs k") auto

lemma binary_search_is_ok: "sorted xs \<Longrightarrow> is_ok (binary_search xs k) \<longleftrightarrow> k \<in> set xs"
  using binary_search_by_key_is_ok [of id xs k] by (simp add: binary_search_def)

subsection \<open>Sorted collections as indexes\<close>

text \<open>
  Several types keep a vector sorted by a key with no key twice and look elements up by binary
  search. What their clients rely on is the contract below: \<open>items\<close> is the vector of a
  collection, \<open>wf\<close> the invariant its constructor establishes.
\<close>

definition search_items :: "('a \<Rightarrow> 'k::linorder) \<Rightarrow> 'a list \<Rightarrow> 'k \<Rightarrow> 'a option" where
  "search_items key xs k =
     (case binary_search_by_key key xs k of Inl _ \<Rightarrow> None | Inr i \<Rightarrow> Some (xs ! i))"

locale key_index =
  fixes items :: "'c \<Rightarrow> 'a list" and key :: "'a \<Rightarrow> 'k::linorder" and wf :: "'c \<Rightarrow> bool"
  assumes items_sorted: "wf c \<Longrightarrow> sorted (map key (items c))"
    and items_distinct: "wf c \<Longrightarrow> distinct (map key (items c))"
begin

lemma search_sound:
  "search_items key (items c) k = Some x \<Longrightarrow> x \<in> set (items c) \<and> key x = k"
  using binary_search_by_key_Ok [of key "items c" k]
  by (auto simp: search_items_def split: sum.splits)

lemma search_None:
  "wf c \<Longrightarrow> search_items key (items c) k = None \<longleftrightarrow> k \<notin> key ` set (items c)"
  using binary_search_by_key_is_ok [OF items_sorted, of c k]
  by (auto simp: search_items_def is_ok_def split: sum.splits)

lemma search_complete:
  assumes "wf c" "x \<in> set (items c)"
  shows "search_items key (items c) (key x) = Some x"
proof (cases "search_items key (items c) (key x)")
  case None
  with assms search_None show ?thesis by auto
next
  case (Some y)
  with search_sound have "y \<in> set (items c)" "key y = key x" by auto
  with assms items_distinct have "y = x" by (auto simp: distinct_map dest: inj_onD)
  with Some show ?thesis by simp
qed

lemma search_iff:
  "wf c \<Longrightarrow> search_items key (items c) k = Some x \<longleftrightarrow> x \<in> set (items c) \<and> key x = k"
  using search_sound search_complete by blast

end

text \<open>The vectors the sources sort and \<open>dedup\<close> are such collections.\<close>

lemma sorted_dedup [simp]: "sorted (remdups_adj (sort xs))"
  by (simp add: sorted_remdups_adj)

lemma distinct_remdups_adj: "sorted xs \<Longrightarrow> distinct (remdups_adj xs)"
  by (induction xs rule: remdups_adj.induct) (auto simp: less_le)

lemma distinct_dedup [simp]: "distinct (remdups_adj (sort xs))"
  by (simp add: distinct_remdups_adj)

interpretation dedup: key_index "\<lambda>xs. remdups_adj (sort xs)" "id :: 'k::linorder \<Rightarrow> 'k" "\<lambda>_. True"
  by unfold_locales simp_all

text \<open>A sorted vector has a duplicate key exactly when two neighbours share one: the test
  \<open>windows(2).any(..)\<close>.\<close>

lemma sorted_windows:
  fixes f :: "'a \<Rightarrow> 'k::linorder"
  assumes "sorted (map f xs)"
  shows "list_ex (\<lambda>(a, b). f a = f b) (zip xs (tl xs)) \<longleftrightarrow> \<not> distinct (map f xs)"
  using assms
proof (induction xs)
  case (Cons x xs)
  show ?case
  proof (cases xs)
    case (Cons y ys)
    have "f x \<in> f ` set xs \<longleftrightarrow> f x = f y"
      using \<open>sorted (map f (x # xs))\<close> \<open>xs = y # ys\<close> by (auto intro: antisym)
    with Cons.IH Cons.prems \<open>xs = y # ys\<close> show ?thesis by auto
  qed simp
qed simp

subsection \<open>Decimal numerals\<close>

text \<open>\<open>to_string()\<close> of a \<open>u64\<close>.\<close>

fun show_nat :: "nat \<Rightarrow> string" where
  "show_nat n =
     (if n < 10 then [char_of (48 + n)] else show_nat (n div 10) @ [char_of (48 + n mod 10)])"

declare show_nat.simps [simp del]

definition show_u64 :: "u64 \<Rightarrow> string" where
  "show_u64 w = show_nat (unat w)"

text \<open>
  \<open>str::parse::<u64>\<close>: an optional plus sign and then one or more digits, each step checked
  for overflow.
\<close>

fun parse_digits :: "nat \<Rightarrow> string \<Rightarrow> nat option" where
  "parse_digits acc [] = Some acc"
| "parse_digits acc (c # cs) =
     (if is_ascii_digit c
      then let v = acc * 10 + (of_char c - 48) in if v < 2 ^ 64 then parse_digits v cs else None
      else None)"

definition parse_u64 :: "string \<Rightarrow> u64 option" where
  "parse_u64 s =
     (let t = (case s of c # cs \<Rightarrow> if c = CHR ''+'' then cs else s | [] \<Rightarrow> [])
      in if t = [] then None else map_option word_of_nat (parse_digits 0 t))"

lemma show_nat_digit:
  assumes "c \<in> set (show_nat n)"
  shows "is_ascii_digit c"
  using assms
proof (induction n rule: show_nat.induct)
  case (1 n)
  have digit: "is_ascii_digit (char_of (48 + d))" if "d < 10" for d :: nat
    using that by (simp add: is_ascii_digit_def)
  show ?case
  proof (cases "n < 10")
    case True
    with 1(2) digit show ?thesis by (simp add: show_nat.simps [of n])
  next
    case False
    with 1 digit [of "n mod 10"] show ?thesis by (auto simp: show_nat.simps [of n])
  qed
qed

lemma show_nat_nonempty [simp]: "show_nat n \<noteq> []"
  by (simp add: show_nat.simps [of n])

lemma parse_digits_append:
  "parse_digits a (s @ t) = Option.bind (parse_digits a s) (\<lambda>b. parse_digits b t)"
  by (induction s arbitrary: a) (auto simp: Let_def)

lemma parse_digits_show: "n < 2 ^ 64 \<Longrightarrow> parse_digits 0 (show_nat n) = Some n"
proof (induction n rule: show_nat.induct)
  case (1 n)
  show ?case
  proof (cases "n < 10")
    case True
    then show ?thesis by (simp add: show_nat.simps [of n] is_ascii_digit_def)
  next
    case False
    with 1 have "parse_digits 0 (show_nat (n div 10)) = Some (n div 10)" by simp
    with False 1(2) show ?thesis
      by (simp add: show_nat.simps [of n] parse_digits_append is_ascii_digit_def Let_def)
  qed
qed

lemma parse_show_u64: "parse_u64 (show_u64 w) = Some w"
proof -
  obtain c cs where s: "show_nat (unat w) = c # cs"
    by (meson neq_Nil_conv show_nat_nonempty)
  then have "c \<noteq> CHR ''+''"
    using show_nat_digit [of c "unat w"] by (auto simp: is_ascii_digit_def)
  moreover have "parse_digits 0 (show_nat (unat w)) = Some (unat w)"
    by (rule parse_digits_show) (use unsigned_less [of w] in simp)
  ultimately show ?thesis
    using s by (simp add: parse_u64_def show_u64_def)
qed

lemma show_u64_inject: "show_u64 a = show_u64 b \<longleftrightarrow> a = b"
  by (metis option.inject parse_show_u64)

subsection \<open>Splitting a text\<close>

text \<open>\<open>str::rsplit_once\<close>: the parts before and after the last occurrence of a pattern.\<close>

fun rsplit_once :: "string \<Rightarrow> string \<Rightarrow> (string \<times> string) option" where
  "rsplit_once pat [] = (if pat = [] then Some ([], []) else None)"
| "rsplit_once pat (c # s) =
     (case rsplit_once pat s of
        Some (before, after) \<Rightarrow> Some (c # before, after)
      | None \<Rightarrow> map_option (Pair []) (strip_prefix (c # s) pat))"

text \<open>
  The white space of \<open>str::split_whitespace\<close> and \<open>str::trim\<close> is that of Unicode. On the UTF-8
  bytes: the number of bytes of the white space character a text starts with, or 0.
\<close>

definition whitespace_len :: "string \<Rightarrow> nat" where
  "whitespace_len s =
     (case map of_char (take 3 s) :: nat list of
        [] \<Rightarrow> 0
      | a # rest \<Rightarrow>
          if 9 \<le> a \<and> a \<le> 13 \<or> a = 32 then 1
          else case rest of
            [] \<Rightarrow> 0
          | b # rest \<Rightarrow>
              if a = 194 \<and> (b = 133 \<or> b = 160) then 2
              else case rest of
                [] \<Rightarrow> 0
              | c # _ \<Rightarrow>
                  if a = 225 \<and> b = 154 \<and> c = 128
                     \<or> a = 226 \<and> b = 128 \<and> (128 \<le> c \<and> c \<le> 138 \<or> c = 168 \<or> c = 169 \<or> c = 175)
                     \<or> a = 226 \<and> b = 129 \<and> c = 159
                     \<or> a = 227 \<and> b = 128 \<and> c = 128
                  then 3 else 0)"

text \<open>\<open>split_whitespace\<close>: the non-empty runs between white space, the current run in reverse.\<close>

function split_ws :: "string \<Rightarrow> string \<Rightarrow> string list" where
  "split_ws run [] = (if run = [] then [] else [rev run])"
| "split_ws run (c # s) =
     (if whitespace_len (c # s) = 0 then split_ws (c # run) s
      else (if run = [] then [] else [rev run]) @ split_ws [] (drop (whitespace_len (c # s)) (c # s)))"
  by pat_completeness auto
termination
  by (relation "measure (\<lambda>(run, s). length s)") auto

definition split_whitespace :: "string \<Rightarrow> string list" where
  "split_whitespace s = split_ws [] s"

lemma strip_prefix_append [simp]: "strip_prefix (p @ t) p = Some t"
  by (simp add: strip_prefix_def)

lemma strip_prefix_Some: "strip_prefix s p = Some t \<longleftrightarrow> s = p @ t"
  by (auto simp: strip_prefix_def starts_with_iff)

lemma rsplit_once_None: "pat \<noteq> [] \<Longrightarrow> hd pat \<notin> set s \<Longrightarrow> rsplit_once pat s = None"
  by (induction s) (auto simp: strip_prefix_def starts_with_def Cons_eq_append_conv neq_Nil_conv)

text \<open>The last occurrence is the one whose first character does not occur after it.\<close>

lemma rsplit_once_last:
  assumes "pat = c # pat'" "c \<notin> set pat'" "c \<notin> set after"
  shows "rsplit_once pat (before @ pat @ after) = Some (before, after)"
proof (induction before)
  case Nil
  have "rsplit_once pat (pat' @ after) = None" using assms by (intro rsplit_once_None) auto
  then have "rsplit_once pat (c # pat' @ after) = map_option (Pair []) (strip_prefix (pat @ after) pat)"
    using assms(1) by simp
  then show ?case using assms(1) strip_prefix_append [of pat after] by simp
qed simp

lemma whitespace_len_printable [simp]: "33 \<le> (of_char c :: nat) \<Longrightarrow> (of_char c :: nat) < 128 \<Longrightarrow> whitespace_len (c # s) = 0"
  by (auto simp: whitespace_len_def split: list.splits)

lemma whitespace_len_space [simp]: "whitespace_len (CHR '' '' # s) = 1"
  by (simp add: whitespace_len_def)

definition printable :: "string \<Rightarrow> bool" where
  "printable s \<longleftrightarrow> list_all (\<lambda>c. 33 \<le> (of_char c :: nat) \<and> (of_char c :: nat) < 128) s"

lemma split_ws_printable: "printable w \<Longrightarrow> split_ws run (w @ s) = split_ws (rev w @ run) s"
  by (induction w arbitrary: run) (auto simp: printable_def)

text \<open>Words joined by single spaces are recovered.\<close>

fun join_words :: "string list \<Rightarrow> string" where
  "join_words [] = []"
| "join_words [w] = w"
| "join_words (w # ws) = w @ CHR '' '' # join_words ws"

lemma split_join_words:
  "list_all (\<lambda>w. w \<noteq> [] \<and> printable w) ws \<Longrightarrow> split_whitespace (join_words ws) = ws"
proof (induction ws rule: join_words.induct)
  case (2 w)
  then show ?case using split_ws_printable [of w "[]" "[]"] by (simp add: split_whitespace_def)
qed (simp_all add: split_whitespace_def split_ws_printable)

subsection \<open>Trimming and decoding\<close>

text \<open>\<open>str::trim\<close>: the white space characters at both ends go. At the end of a UTF-8 text the last
  character is white space when one, two or three bytes are one.\<close>

function trim_start :: "string \<Rightarrow> string" where
  "trim_start s = (if whitespace_len s = 0 \<or> s = [] then s else trim_start (drop (whitespace_len s) s))"
  by pat_completeness auto
termination
  by (relation "measure length") auto

definition ends_in_whitespace :: "nat \<Rightarrow> string \<Rightarrow> bool" where
  "ends_in_whitespace n s \<longleftrightarrow> n \<le> length s \<and> whitespace_len (drop (length s - n) s) = n"

function trim_end :: "string \<Rightarrow> string" where
  "trim_end s =
     (if s = [] then s
      else if ends_in_whitespace 1 s then trim_end (take (length s - 1) s)
      else if ends_in_whitespace 2 s then trim_end (take (length s - 2) s)
      else if ends_in_whitespace 3 s then trim_end (take (length s - 3) s)
      else s)"
  by pat_completeness auto
termination
  by (relation "measure length") auto

declare trim_start.simps [simp del] trim_end.simps [simp del]

definition trim :: "string \<Rightarrow> string" where
  "trim s = trim_end (trim_start s)"

text \<open>\<open>str::from_utf8\<close> accepts the well-formed UTF-8 byte sequences: no overlong forms, no surrogates,
  nothing above U+10FFFF.\<close>

definition continuation :: "char \<Rightarrow> bool" where
  "continuation c \<longleftrightarrow> 128 \<le> (of_char c :: nat) \<and> (of_char c :: nat) \<le> 191"

definition second_byte :: "char \<Rightarrow> char \<Rightarrow> bool" where
  "second_byte a b =
     (let x = (of_char a :: nat); y = (of_char b :: nat)
      in if x = 224 then 160 \<le> y \<and> y \<le> 191
         else if x = 237 then 128 \<le> y \<and> y \<le> 159
         else if x = 240 then 144 \<le> y \<and> y \<le> 191
         else if x = 244 then 128 \<le> y \<and> y \<le> 143
         else 128 \<le> y \<and> y \<le> 191)"

fun utf8 :: "string \<Rightarrow> bool" where
  "utf8 [] = True"
| "utf8 (a # s) =
     (let x = (of_char a :: nat)
      in if x < 128 then utf8 s
         else if 194 \<le> x \<and> x \<le> 223 then (case s of b # s \<Rightarrow> continuation b \<and> utf8 s | _ \<Rightarrow> False)
         else if 224 \<le> x \<and> x \<le> 239 then
           (case s of b # c # s \<Rightarrow> second_byte a b \<and> continuation c \<and> utf8 s | _ \<Rightarrow> False)
         else if 240 \<le> x \<and> x \<le> 244 then
           (case s of b # c # d # s \<Rightarrow> second_byte a b \<and> continuation c \<and> continuation d \<and> utf8 s | _ \<Rightarrow> False)
         else False)"

lemma utf8_ascii: "list_all (\<lambda>c. (of_char c :: nat) < 128) s \<Longrightarrow> utf8 s"
  by (induction s) simp_all

lemma whitespace_len_short: "length s = 2 \<Longrightarrow> whitespace_len s \<le> 2" "length s = 3 \<Longrightarrow> whitespace_len s \<le> 3"
  by (auto simp: whitespace_len_def split: list.split)

lemma trim_start_printable: "printable s \<Longrightarrow> trim_start (s @ t) = (if s = [] then trim_start t else s @ t)"
  by (cases s) (auto simp: printable_def trim_start.simps [of "_ # _"])

lemma whitespace_len_second:
  "whitespace_len [a, b] = 2 \<Longrightarrow> 128 \<le> (of_char b :: nat)"
  "whitespace_len [a, b, c] = 3 \<Longrightarrow> 128 \<le> (of_char c :: nat)"
  by (auto simp: whitespace_len_def split: if_splits)

lemma two_bytes: "length ys = 2 \<Longrightarrow> ys = [hd ys, last ys]"
  by (cases ys) (auto simp: length_Suc_conv numeral_eq_Suc)

lemma three_bytes: "length ys = 3 \<Longrightarrow> ys = [hd ys, ys ! 1, last ys]"
  by (cases ys) (auto simp: length_Suc_conv numeral_eq_Suc)

lemma ends_in_wide_whitespace:
  assumes "ends_in_whitespace n s" "n = 2 \<or> n = 3"
  shows "128 \<le> (of_char (last s) :: nat)"
proof -
  let ?t = "drop (length s - n) s"
  have t: "length ?t = n" "last ?t = last s" "whitespace_len ?t = n"
    using assms by (auto simp: ends_in_whitespace_def)
  then show ?thesis
    using assms(2) two_bytes [of ?t] three_bytes [of ?t] whitespace_len_second by metis
qed

lemma trim_end_printable:
  assumes "printable s"
  shows "trim_end s = s"
proof (cases "s = []")
  case False
  let ?c = "last s"
  have c: "33 \<le> (of_char ?c :: nat)" "(of_char ?c :: nat) < 128"
    using assms False last_in_set [OF False] by (auto simp: printable_def list_all_iff)
  have "drop (length s - 1) s = [?c]"
    using False by (metis append_butlast_last_id append_eq_conv_conj length_butlast)
  then have "\<not> ends_in_whitespace 1 s" using c by (simp add: ends_in_whitespace_def)
  moreover have "\<not> ends_in_whitespace 2 s" "\<not> ends_in_whitespace 3 s"
    using ends_in_wide_whitespace [of _ s] c by (metis not_le)+
  ultimately show ?thesis using False by (simp add: trim_end.simps [of s])
qed (simp add: trim_end.simps)

lemma trim_line:
  assumes "printable s"
  shows "trim (s @ [CHR 0x0A]) = s"
proof -
  have "whitespace_len [CHR 0x0A] = 1" by (simp add: whitespace_len_def)
  then have line: "trim_end (s @ [CHR 0x0A]) = s"
    using trim_end_printable [OF assms] by (simp add: trim_end.simps [of "s @ _"] ends_in_whitespace_def)
  show ?thesis
  proof (cases "s = []")
    case True
    then show ?thesis by (simp add: trim_def) code_simp
  next
    case False
    then show ?thesis using line trim_start_printable [OF assms] by (simp add: trim_def)
  qed
qed

lemma printable_digits: "printable (show_nat n)"
  using show_nat_digit [of _ n] by (fastforce simp: printable_def list_all_iff is_ascii_digit_def)

lemma parse_trim_line: "parse_u64 (trim (show_u64 n @ [CHR 0x0A])) = Some n"
  using trim_line [OF printable_digits [of "unat n"]] parse_show_u64 [of n] by (simp add: show_u64_def)

lemma utf8_line: "utf8 (show_u64 n @ [CHR 0x0A])"
  using show_nat_digit [of _ "unat n"]
  by (intro utf8_ascii) (fastforce simp: show_u64_def list_all_iff is_ascii_digit_def)


end
