(* ===== verification/Capture.thy ===== *)
theory Capture
  imports Slices
begin

section \<open>Capture policies\<close>

text \<open>
  \<open>crates/nethop-core/src/capture.rs\<close>: which traffic is captured. The smart constructors check
  their arguments and bring the UID lists into sorted form without duplicates; \<open>captures_uid\<close>
  looks UIDs up by binary search. The lemmas show that the constructor accepts exactly the
  consistent arguments, that \<open>captures_uid\<close> decides the include and exclude lists as they were
  given, and that no builder call loses the invariant.
\<close>

definition MAX_UIDS :: nat where "MAX_UIDS = 2048"
definition MAX_INTERFACE_PATTERNS :: nat where "MAX_INTERFACE_PATTERNS = 64"
definition MAX_INTERFACE_PATTERN_BYTES :: nat where "MAX_INTERFACE_PATTERN_BYTES = 64"

datatype CaptureMode = Tproxy | Tun | Direct

datatype CapturePolicyError =
    MissingTproxyMark
  | MissingTproxyPort
  | TooManyUids
  | OverlappingUidPolicy
  | MissingTransport
  | InvalidInterfacePolicy

record InterfacePolicy =
  if_mobile :: bool
  if_wifi :: bool
  if_include :: "string list"
  if_exclude :: "string list"

record ForwardingPolicy =
  fw_hotspot :: bool
  fw_usb :: bool

definition forwarding_enabled :: "ForwardingPolicy \<Rightarrow> bool" where
  "forwarding_enabled f \<longleftrightarrow> fw_hotspot f \<or> fw_usb f"

definition forwarding_default :: ForwardingPolicy where
  "forwarding_default = \<lparr>fw_hotspot = False, fw_usb = False\<rparr>"

definition pattern_byte :: "char \<Rightarrow> bool" where
  "pattern_byte c \<longleftrightarrow> is_ascii_alphanumeric c \<or> c \<in> set ''_-.+*?''"

definition valid_patterns :: "string list \<Rightarrow> bool" where
  "valid_patterns ps \<longleftrightarrow>
     list_all (\<lambda>p. p \<noteq> [] \<and> length p \<le> MAX_INTERFACE_PATTERN_BYTES \<and> list_all pattern_byte p) ps"

definition interface_policy_new ::
  "bool \<Rightarrow> bool \<Rightarrow> string list \<Rightarrow> string list \<Rightarrow> (CapturePolicyError, InterfacePolicy) rresult" where
  "interface_policy_new mobile wifi include exclude =
     (if (\<not> mobile \<and> \<not> wifi \<and> include = [])
         \<or> length include > MAX_INTERFACE_PATTERNS
         \<or> length exclude > MAX_INTERFACE_PATTERNS
         \<or> \<not> valid_patterns include
         \<or> \<not> valid_patterns exclude
         \<or> list_ex (\<lambda>v. v \<in> set exclude) include
      then Err InvalidInterfacePolicy
      else Ok \<lparr>if_mobile = mobile, if_wifi = wifi, if_include = include, if_exclude = exclude\<rparr>)"

definition interface_default :: InterfacePolicy where
  "interface_default = \<lparr>if_mobile = True, if_wifi = True, if_include = [], if_exclude = []\<rparr>"

definition is_unrestricted :: "InterfacePolicy \<Rightarrow> bool" where
  "is_unrestricted p \<longleftrightarrow> if_mobile p \<and> if_wifi p \<and> if_include p = [] \<and> if_exclude p = []"

record CapturePolicy =
  cp_mode :: CaptureMode
  cp_proxy_tcp :: bool
  cp_proxy_udp :: bool
  cp_ipv6_guard :: bool
  cp_inbound_port :: "u16 option"
  cp_bypass_mark :: "u32 option"
  cp_include_uids :: "u32 list"
  cp_exclude_uids :: "u32 list"
  cp_interface_policy :: InterfacePolicy
  cp_forwarding_policy :: ForwardingPolicy

definition unwrap_or :: "'a \<Rightarrow> 'a option \<Rightarrow> 'a" where
  "unwrap_or d v = (case v of None \<Rightarrow> d | Some x \<Rightarrow> x)"

definition capture_policy_new_with_protocols ::
  "CaptureMode \<Rightarrow> bool \<Rightarrow> bool \<Rightarrow> bool \<Rightarrow> u16 option \<Rightarrow> u32 option \<Rightarrow> u32 list \<Rightarrow> u32 list
   \<Rightarrow> (CapturePolicyError, CapturePolicy) rresult" where
  "capture_policy_new_with_protocols mode tcp udp guard port mark include_uids exclude_uids =
     (if mode \<noteq> Direct \<and> \<not> tcp \<and> \<not> udp then Err MissingTransport
      else if mode = Tproxy \<and> unwrap_or 0 mark = 0 then Err MissingTproxyMark
      else if mode = Tproxy \<and> unwrap_or 0 port = 0 then Err MissingTproxyPort
      else if length include_uids > MAX_UIDS \<or> length exclude_uids > MAX_UIDS then Err TooManyUids
      else
        let inc = remdups_adj (sort include_uids);
            exc = remdups_adj (sort exclude_uids)
        in if list_ex (\<lambda>uid. is_ok (binary_search exc uid)) inc then Err OverlappingUidPolicy
           else Ok \<lparr>cp_mode = mode, cp_proxy_tcp = tcp, cp_proxy_udp = udp, cp_ipv6_guard = guard,
                    cp_inbound_port = port, cp_bypass_mark = mark,
                    cp_include_uids = inc, cp_exclude_uids = exc,
                    cp_interface_policy = interface_default,
                    cp_forwarding_policy = forwarding_default\<rparr>)"

definition capture_policy_new ::
  "CaptureMode \<Rightarrow> bool \<Rightarrow> u16 option \<Rightarrow> u32 option \<Rightarrow> u32 list \<Rightarrow> u32 list
   \<Rightarrow> (CapturePolicyError, CapturePolicy) rresult" where
  "capture_policy_new mode guard port mark include_uids exclude_uids =
     capture_policy_new_with_protocols mode True True guard port mark include_uids exclude_uids"

definition with_interface_policy ::
  "CapturePolicy \<Rightarrow> InterfacePolicy \<Rightarrow> (CapturePolicyError, CapturePolicy) rresult" where
  "with_interface_policy p i =
     (if cp_mode p = Direct \<and> \<not> is_unrestricted i then Err InvalidInterfacePolicy
      else Ok (p\<lparr>cp_interface_policy := i\<rparr>))"

definition with_forwarding_policy ::
  "CapturePolicy \<Rightarrow> ForwardingPolicy \<Rightarrow> (CapturePolicyError, CapturePolicy) rresult" where
  "with_forwarding_policy p f =
     (if cp_mode p = Direct \<and> forwarding_enabled f then Err InvalidInterfacePolicy
      else Ok (p\<lparr>cp_forwarding_policy := f\<rparr>))"

definition captures_uid :: "CapturePolicy \<Rightarrow> u32 \<Rightarrow> bool" where
  "captures_uid p uid =
     (let included = (cp_include_uids p = [] \<or> is_ok (binary_search (cp_include_uids p) uid))
      in included \<and> is_err (binary_search (cp_exclude_uids p) uid))"

subsection \<open>The invariant of a policy\<close>

definition policy_wf :: "CapturePolicy \<Rightarrow> bool" where
  "policy_wf p \<longleftrightarrow>
     sorted (cp_include_uids p) \<and> distinct (cp_include_uids p)
     \<and> sorted (cp_exclude_uids p) \<and> distinct (cp_exclude_uids p)
     \<and> length (cp_include_uids p) \<le> MAX_UIDS \<and> length (cp_exclude_uids p) \<le> MAX_UIDS
     \<and> set (cp_include_uids p) \<inter> set (cp_exclude_uids p) = {}
     \<and> (cp_mode p \<noteq> Direct \<longrightarrow> cp_proxy_tcp p \<or> cp_proxy_udp p)
     \<and> (cp_mode p = Tproxy \<longrightarrow> (\<exists>m. cp_bypass_mark p = Some m \<and> m \<noteq> 0)
                             \<and> (\<exists>q. cp_inbound_port p = Some q \<and> q \<noteq> 0))
     \<and> (cp_mode p = Direct \<longrightarrow> is_unrestricted (cp_interface_policy p)
                             \<and> \<not> forwarding_enabled (cp_forwarding_policy p))"

lemma unwrap_or_0_iff: "unwrap_or 0 v \<noteq> 0 \<longleftrightarrow> (\<exists>x. v = Some x \<and> x \<noteq> 0)"
  by (cases v) (simp_all add: unwrap_or_def)

lemma overlap_iff:
  "list_ex (\<lambda>uid. is_ok (binary_search (remdups_adj (sort ys)) uid)) (remdups_adj (sort xs))
     \<longleftrightarrow> set xs \<inter> set ys \<noteq> {}"
  by (auto simp: list_ex_iff binary_search_is_ok)

interpretation include_index: key_index cp_include_uids id policy_wf
  by unfold_locales (simp_all add: policy_wf_def)

interpretation exclude_index: key_index cp_exclude_uids id policy_wf
  by unfold_locales (simp_all add: policy_wf_def)

text \<open>When the constructor accepts its arguments, and what it builds.\<close>

definition consistent_arguments ::
  "CaptureMode \<Rightarrow> bool \<Rightarrow> bool \<Rightarrow> u16 option \<Rightarrow> u32 option \<Rightarrow> u32 list \<Rightarrow> u32 list \<Rightarrow> bool" where
  "consistent_arguments mode tcp udp port mark inc exc \<longleftrightarrow>
     (mode \<noteq> Direct \<longrightarrow> tcp \<or> udp)
     \<and> (mode = Tproxy \<longrightarrow> (\<exists>m. mark = Some m \<and> m \<noteq> 0) \<and> (\<exists>q. port = Some q \<and> q \<noteq> 0))
     \<and> length inc \<le> MAX_UIDS \<and> length exc \<le> MAX_UIDS
     \<and> set inc \<inter> set exc = {}"

definition built_policy ::
  "CaptureMode \<Rightarrow> bool \<Rightarrow> bool \<Rightarrow> bool \<Rightarrow> u16 option \<Rightarrow> u32 option \<Rightarrow> u32 list \<Rightarrow> u32 list \<Rightarrow> CapturePolicy"
  where
  "built_policy mode tcp udp guard port mark inc exc =
     \<lparr>cp_mode = mode, cp_proxy_tcp = tcp, cp_proxy_udp = udp, cp_ipv6_guard = guard,
      cp_inbound_port = port, cp_bypass_mark = mark,
      cp_include_uids = remdups_adj (sort inc), cp_exclude_uids = remdups_adj (sort exc),
      cp_interface_policy = interface_default, cp_forwarding_policy = forwarding_default\<rparr>"

lemma policy_new_iff:
  "capture_policy_new_with_protocols mode tcp udp guard port mark inc exc = Ok p \<longleftrightarrow>
     consistent_arguments mode tcp udp port mark inc exc
     \<and> p = built_policy mode tcp udp guard port mark inc exc"
  unfolding capture_policy_new_with_protocols_def Let_def overlap_iff consistent_arguments_def
    built_policy_def unwrap_or_0_iff [symmetric] guard_Ok sum.inject
  by (auto simp only: not_less)

lemma built_policy_wf:
  assumes "consistent_arguments mode tcp udp port mark inc exc"
  shows "policy_wf (built_policy mode tcp udp guard port mark inc exc)"
proof -
  have "length (remdups_adj (sort inc)) \<le> MAX_UIDS" "length (remdups_adj (sort exc)) \<le> MAX_UIDS"
    using assms remdups_adj_length [of "sort inc"] remdups_adj_length [of "sort exc"]
    by (simp_all add: consistent_arguments_def)
  with assms show ?thesis
    by (simp add: policy_wf_def built_policy_def consistent_arguments_def interface_default_def
        is_unrestricted_def forwarding_default_def forwarding_enabled_def)
qed

lemma with_interface_policy_wf:
  "policy_wf p \<Longrightarrow> with_interface_policy p i = Ok p' \<Longrightarrow> policy_wf p'"
  by (auto simp: with_interface_policy_def policy_wf_def split: if_splits)

lemma with_forwarding_policy_wf:
  "policy_wf p \<Longrightarrow> with_forwarding_policy p f = Ok p' \<Longrightarrow> policy_wf p'"
  by (auto simp: with_forwarding_policy_def policy_wf_def split: if_splits)

lemma captures_uid_wf:
  "policy_wf p \<Longrightarrow> captures_uid p uid \<longleftrightarrow>
     (cp_include_uids p = [] \<or> uid \<in> set (cp_include_uids p)) \<and> uid \<notin> set (cp_exclude_uids p)"
  using binary_search_is_ok [of "cp_include_uids p" uid] binary_search_is_ok [of "cp_exclude_uids p" uid]
  by (simp add: captures_uid_def policy_wf_def is_err_not_ok)

text \<open>The policies a client of the module can hold: the fields are private, so every policy comes
  from a constructor and the two builder calls.\<close>

inductive policy_held :: "CapturePolicy \<Rightarrow> bool" where
  held_new: "capture_policy_new_with_protocols mode tcp udp guard port mark inc exc = Ok p
    \<Longrightarrow> policy_held p"
| held_interface: "policy_held p \<Longrightarrow> with_interface_policy p i = Ok p' \<Longrightarrow> policy_held p'"
| held_forwarding: "policy_held p \<Longrightarrow> with_forwarding_policy p f = Ok p' \<Longrightarrow> policy_held p'"

lemma policy_held_new: "capture_policy_new mode guard port mark inc exc = Ok p \<Longrightarrow> policy_held p"
  unfolding capture_policy_new_def by (rule held_new)

subsection \<open>Properties\<close>

text \<open>C19. The constructor accepts exactly the consistent arguments (a transport unless direct, a
  mark and a port for TPROXY, bounded and disjoint UID lists), and for the policy it returns
  \<open>captures_uid\<close> decides the lists as they were given, in any order and with repetitions.\<close>

theorem capture_policy_decides_given_lists:
  "(is_ok (capture_policy_new_with_protocols mode tcp udp guard port mark inc exc)
      \<longleftrightarrow> consistent_arguments mode tcp udp port mark inc exc)
   \<and> (\<forall>p. capture_policy_new_with_protocols mode tcp udp guard port mark inc exc = Ok p \<longrightarrow>
        (captures_uid p uid \<longleftrightarrow> (inc = [] \<or> uid \<in> set inc) \<and> uid \<notin> set exc))"
proof -
  have "captures_uid p uid \<longleftrightarrow> (inc = [] \<or> uid \<in> set inc) \<and> uid \<notin> set exc"
    if "consistent_arguments mode tcp udp port mark inc exc"
      "p = built_policy mode tcp udp guard port mark inc exc" for p
    using captures_uid_wf [OF built_policy_wf [OF that(1)], of guard uid] that(2)
    by (simp add: built_policy_def flip: set_empty2)
  then show ?thesis by (auto simp: is_ok_iff policy_new_iff)
qed

theorem capture_policy_decides_given_lists_witness:
  "\<exists>p. capture_policy_new_with_protocols Tproxy True False True (Some 7893) (Some 1)
        [10003, 10001, 10003] [10002] = Ok p
      \<and> captures_uid p 10001 \<and> \<not> captures_uid p 10002 \<and> \<not> captures_uid p 7"
proof -
  have args: "consistent_arguments Tproxy True False (Some 7893) (Some 1)
      [10003, 10001, 10003] [10002]"
    by (simp add: consistent_arguments_def MAX_UIDS_def)
  define r where "r = capture_policy_new_with_protocols Tproxy True False True (Some 7893) (Some 1)
        [10003, 10001, 10003] [10002]"
  note decides = capture_policy_decides_given_lists [of Tproxy True False True "Some 7893" "Some 1"
      "[10003, 10001, 10003]" "[10002]", folded r_def]
  obtain p where p: "r = Ok p" using decides args by (auto simp: is_ok_iff)
  have "captures_uid p uid \<longleftrightarrow> uid \<in> {10003, 10001} \<and> uid \<notin> {10002}" for uid
    using decides p by auto
  with p show ?thesis unfolding r_def by auto
qed

text \<open>Every policy that can be built satisfies the invariant: sorted UID lists with no
  duplicates and nothing in common, and no interface or forwarding rule in direct mode.\<close>

lemma capture_policy_invariant:
  assumes "policy_held p"
  shows "policy_wf p"
  using assms
  by (induction rule: policy_held.induct)
    (auto simp: policy_new_iff intro: built_policy_wf with_interface_policy_wf
      with_forwarding_policy_wf)

end
