(* ===== verification/Resource.thy ===== *)
theory Resource
  imports Prelude Slices Lifecycle
begin

text \<open>
  Resource accounting and the idle policy: \<open>ResourceAggregate::from_samples\<close> and
  \<open>IdlePolicy\<close> of nethop-core/src/resource.rs, and the \<open>IdlePolicyController\<close> of
  nethopd/src/resource_policy.rs that feeds the policy. A slice of samples holds at most
  \<open>isize::MAX\<close> bytes and a sample takes at least 64, so the percentile's index arithmetic
  stays below \<open>usize::MAX\<close> and is written on \<^typ>\<open>nat\<close>.
\<close>

subsection \<open>Samples and their aggregate\<close>

record ResourceSample =
  observed_at_ms :: u64
  rss_bytes :: u64
  rs_cpu_user_ms :: u64
  rs_cpu_system_ms :: u64
  rs_threads :: u32
  rs_open_fds :: u32
  rs_active_connections :: u32
  dns_cache_entries :: u32
  rule_set_bytes :: u64
  rs_wakeup_count :: u64
  network_bytes :: u64

record ResourceAggregate =
  sample_count :: u32
  rss_baseline_bytes :: u64
  rss_median_bytes :: u64
  rss_p95_bytes :: u64
  rss_max_bytes :: u64
  rss_upper_bound_bytes :: u64
  ra_cpu_user_ms :: u64
  ra_cpu_system_ms :: u64
  threads_max :: u32
  open_fds_max :: u32
  active_connections_max :: u32
  ra_wakeup_count :: u64

text \<open>\<open>iter().max().unwrap_or(0)\<close>.\<close>

definition max_or_0 :: "'a::{linorder, zero} list \<Rightarrow> 'a" where
  "max_or_0 xs = (case xs of [] \<Rightarrow> 0 | x # ys \<Rightarrow> fold max ys x)"

definition percentile :: "u64 list \<Rightarrow> nat \<Rightarrow> nat \<Rightarrow> u64" where
  "percentile rss numerator denominator =
     (let index = ((length rss - 1) * numerator + denominator - 1) div denominator
      in rss ! min index (length rss - 1))"

definition from_samples :: "ResourceSample list \<Rightarrow> ResourceAggregate option" where
  "from_samples samples =
     (if samples = [] then None
      else let rss = sort (map rss_bytes samples);
               first = hd samples;
               final = last samples
           in Some
             \<lparr>sample_count = word_of_nat (length samples),
              rss_baseline_bytes = rss_bytes first,
              rss_median_bytes = percentile rss 1 2,
              rss_p95_bytes = percentile rss 95 100,
              rss_max_bytes = last rss,
              rss_upper_bound_bytes = max (rss_bytes final) (last rss),
              ra_cpu_user_ms = sat_sub (rs_cpu_user_ms final) (rs_cpu_user_ms first),
              ra_cpu_system_ms = sat_sub (rs_cpu_system_ms final) (rs_cpu_system_ms first),
              threads_max = max_or_0 (map rs_threads samples),
              open_fds_max = max_or_0 (map rs_open_fds samples),
              active_connections_max = max_or_0 (map rs_active_connections samples),
              ra_wakeup_count = sat_sub (rs_wakeup_count final) (rs_wakeup_count first)\<rparr>)"

subsection \<open>The idle policy\<close>

datatype ResourcePressure = NoPressure | WarmBudgetExceeded | IdleBudgetExceeded | ActiveBudgetExceeded

record IdleInputs =
  now_ms :: u64
  last_capture_disabled_ms :: u64
  last_demand_ms :: u64
  pending_operations :: u32
  in_active_connections :: u32
  network_recovery :: bool
  resource_pressure :: ResourcePressure

datatype IdleDecision = KeepActive | KeepWarm | EnterIdle | EnterCold

record IdlePolicy =
  warm_timeout_ms :: u64
  cold_timeout_ms :: u64

definition as_millis_u64 :: "duration \<Rightarrow> u64" where
  "as_millis_u64 d = word_of_nat (as_millis d)"

definition test_defaults :: IdlePolicy where
  "test_defaults = \<lparr>warm_timeout_ms = as_millis_u64 (from_secs (5 * 60)),
                    cold_timeout_ms = as_millis_u64 (from_secs (30 * 60))\<rparr>"

definition idle_policy_new :: "duration \<Rightarrow> duration \<Rightarrow> IdlePolicy option" where
  "idle_policy_new warm_timeout cold_timeout =
     (if warm_timeout = 0 \<or> cold_timeout < warm_timeout then None
      else Some \<lparr>warm_timeout_ms = as_millis_u64 warm_timeout,
                 cold_timeout_ms = as_millis_u64 cold_timeout\<rparr>)"

definition decide :: "IdlePolicy \<Rightarrow> IdleInputs \<Rightarrow> IdleDecision" where
  "decide policy input =
     (if pending_operations input > 0 \<or> in_active_connections input > 0 \<or> network_recovery input
      then KeepWarm
      else case resource_pressure input of
        ActiveBudgetExceeded \<Rightarrow> KeepActive
      | IdleBudgetExceeded \<Rightarrow> EnterCold
      | WarmBudgetExceeded \<Rightarrow> EnterIdle
      | NoPressure \<Rightarrow>
          (let idle_for = sat_sub (now_ms input) (last_capture_disabled_ms input);
               demand_for = sat_sub (now_ms input) (last_demand_ms input)
           in if idle_for \<ge> cold_timeout_ms policy \<and> demand_for \<ge> cold_timeout_ms policy
              then EnterCold
              else if idle_for \<ge> warm_timeout_ms policy \<and> demand_for \<ge> warm_timeout_ms policy
              then EnterIdle
              else KeepWarm))"

subsection \<open>The daemon's controller\<close>

record IdlePolicyController =
  ctl_policy :: IdlePolicy
  resource_state :: ResourceState
  last_capture_disabled :: duration
  last_demand :: duration

definition controller_new :: "IdlePolicy \<Rightarrow> duration \<Rightarrow> IdlePolicyController" where
  "controller_new policy now =
     \<lparr>ctl_policy = policy, resource_state = RS_Cold, last_capture_disabled = now, last_demand = now\<rparr>"

definition record_capture_enabled :: "IdlePolicyController \<Rightarrow> duration \<Rightarrow> IdlePolicyController" where
  "record_capture_enabled c now = c\<lparr>resource_state := RS_Active, last_demand := now\<rparr>"

definition record_capture_disabled :: "IdlePolicyController \<Rightarrow> duration \<Rightarrow> IdlePolicyController" where
  "record_capture_disabled c now = c\<lparr>resource_state := RS_Warm, last_capture_disabled := now\<rparr>"

definition record_demand :: "IdlePolicyController \<Rightarrow> duration \<Rightarrow> IdlePolicyController" where
  "record_demand c now =
     (let c = c\<lparr>last_demand := now\<rparr>
      in if resource_state c = RS_Idle then c\<lparr>resource_state := RS_Warm\<rparr> else c)"

definition controller_inputs ::
  "IdlePolicyController \<Rightarrow> duration \<Rightarrow> u32 \<Rightarrow> u32 \<Rightarrow> bool \<Rightarrow> ResourcePressure \<Rightarrow> IdleInputs" where
  "controller_inputs c now pending connections recovery pressure =
     \<lparr>now_ms = as_millis_u64 now,
      last_capture_disabled_ms = as_millis_u64 (last_capture_disabled c),
      last_demand_ms = as_millis_u64 (last_demand c),
      pending_operations = pending,
      in_active_connections = connections,
      network_recovery = recovery,
      resource_pressure = pressure\<rparr>"

fun state_of_decision :: "IdleDecision \<Rightarrow> ResourceState" where
  "state_of_decision EnterIdle = RS_Idle"
| "state_of_decision EnterCold = RS_Cold"
| "state_of_decision KeepActive = RS_Active"
| "state_of_decision KeepWarm = RS_Warm"

definition controller_decide ::
  "IdlePolicyController \<Rightarrow> duration \<Rightarrow> u32 \<Rightarrow> u32 \<Rightarrow> bool \<Rightarrow> ResourcePressure
   \<Rightarrow> IdleDecision \<times> IdlePolicyController" where
  "controller_decide c now pending connections recovery pressure =
     (let decision = decide (ctl_policy c) (controller_inputs c now pending connections recovery pressure)
      in (decision, c\<lparr>resource_state := state_of_decision decision\<rparr>))"

text \<open>The calls a client makes, each with the clock reading it passes.\<close>

datatype ControllerCall =
    CaptureEnabled duration
  | CaptureDisabled duration
  | Demand duration
  | Decide duration u32 u32 bool ResourcePressure

fun call_time :: "ControllerCall \<Rightarrow> duration" where
  "call_time (CaptureEnabled t) = t"
| "call_time (CaptureDisabled t) = t"
| "call_time (Demand t) = t"
| "call_time (Decide t _ _ _ _) = t"

fun is_decide :: "ControllerCall \<Rightarrow> bool" where
  "is_decide (Decide _ _ _ _ _) = True"
| "is_decide _ = False"

fun controller_call :: "ControllerCall \<Rightarrow> IdlePolicyController \<Rightarrow> IdlePolicyController" where
  "controller_call (CaptureEnabled t) c = record_capture_enabled c t"
| "controller_call (CaptureDisabled t) c = record_capture_disabled c t"
| "controller_call (Demand t) c = record_demand c t"
| "controller_call (Decide t p n r u) c = snd (controller_decide c t p n r u)"

lemmas controller_defs = record_capture_enabled_def record_capture_disabled_def record_demand_def
  controller_decide_def controller_new_def Let_def

subsection \<open>Order statistics of a sorted list\<close>

lemma percentile_index:
  fixes n k d :: nat
  assumes "k \<le> d" "0 < d"
  shows "(n * k + d - 1) div d \<le> n" and "n * k \<le> (n * k + d - 1) div d * d"
proof -
  have "n * k \<le> n * d" using assms by simp
  then have "n * k + d - 1 < Suc n * d" using assms(2) unfolding mult_Suc by linarith
  then show "(n * k + d - 1) div d \<le> n" using assms(2) by (metis div_less_iff_less_mult less_Suc_eq_le)
  have "n * k + d - 1 = (n * k + d - 1) div d * d + (n * k + d - 1) mod d" by simp
  moreover have "(n * k + d - 1) mod d < d" using assms by simp
  ultimately show "n * k \<le> (n * k + d - 1) div d * d" by linarith
qed

text \<open>The index of a percentile below 100\% is in range, and covers its share of the list.\<close>

lemma percentile_nth:
  assumes "rss \<noteq> []" "k \<le> d" "0 < d"
  obtains i where "percentile rss k d = rss ! i" "i < length rss"
    "k * length rss \<le> d * Suc i" "i = ((length rss - 1) * k + d - 1) div d"
proof
  define i where "i = ((length rss - 1) * k + d - 1) div d"
  have i: "i \<le> length rss - 1" "(length rss - 1) * k \<le> i * d"
    unfolding i_def using percentile_index [OF assms(2,3)] by blast+
  then show "percentile rss k d = rss ! i"
    by (simp only: percentile_def i_def [symmetric] Let_def min_absorb1)
  show "i < length rss" using i(1) length_greater_0_conv [of rss] assms(1) by linarith
  show "i = ((length rss - 1) * k + d - 1) div d" by (fact i_def)
  have "k * length rss = (length rss - 1) * k + k"
    using assms(1) by (cases rss) (simp_all add: algebra_simps)
  then show "k * length rss \<le> d * Suc i"
    using i(2) assms(2) unfolding mult_Suc_right mult.commute [of d i] by linarith
qed

lemma sorted_nth_count:
  assumes "sorted xs" "i < length xs"
  shows "Suc i \<le> length (filter (\<lambda>x. x \<le> xs ! i) xs)"
proof -
  have "\<forall>x\<in>set (take (Suc i) xs). x \<le> xs ! i"
    using assms by (auto simp: in_set_conv_nth sorted_iff_nth_mono less_Suc_eq_le)
  then have "filter (\<lambda>x. x \<le> xs ! i) (take (Suc i) xs) = take (Suc i) xs" by (simp add: filter_id_conv)
  then have "length (filter (\<lambda>x. x \<le> xs ! i) (take (Suc i) xs @ drop (Suc i) xs)) \<ge> Suc i"
    using assms(2) by (simp only: filter_append length_append) simp
  then show ?thesis by simp
qed

lemma sort_nonempty: "xs \<noteq> [] \<Longrightarrow> sort xs \<noteq> []"
  by (metis set_empty2 set_sort)

lemma length_filter_sort: "length (filter P (sort xs)) = length (filter P xs)"
  by (metis mset_filter mset_sort size_mset)

text \<open>A percentile is one of the values, and its share of the values are at most it.\<close>

lemma percentile_share:
  assumes "xs \<noteq> []" "k \<le> d" "0 < d"
  shows "percentile (sort xs) k d \<in> set xs"
    and "k * length xs \<le> d * length (filter (\<lambda>x. x \<le> percentile (sort xs) k d) xs)"
proof -
  obtain i where i: "percentile (sort xs) k d = sort xs ! i" "i < length (sort xs)"
      "k * length (sort xs) \<le> d * Suc i"
    using percentile_nth [OF sort_nonempty [OF assms(1)] assms(2,3)] by blast
  then show "percentile (sort xs) k d \<in> set xs" by (metis nth_mem set_sort)
  have "Suc i \<le> length (filter (\<lambda>x. x \<le> sort xs ! i) (sort xs))"
    by (rule sorted_nth_count) (use i(2) in simp_all)
  then have "d * Suc i \<le> d * length (filter (\<lambda>x. x \<le> percentile (sort xs) k d) xs)"
    unfolding i(1) length_filter_sort by (rule mult_le_mono2)
  with i(3) show "k * length xs \<le> d * length (filter (\<lambda>x. x \<le> percentile (sort xs) k d) xs)"
    unfolding length_sort by (rule le_trans)
qed

lemma percentile_mono:
  assumes "xs \<noteq> []"
  shows "percentile (sort xs) 1 2 \<le> percentile (sort xs) 95 100"
proof -
  have share: "95 \<le> (100::nat)" "0 < (100::nat)" by simp_all
  obtain i where i: "percentile (sort xs) 1 2 = sort xs ! i"
      "i = ((length (sort xs) - 1) * 1 + 2 - 1) div 2"
    using percentile_nth [OF sort_nonempty [OF assms] one_le_numeral zero_less_numeral] by blast
  obtain j where j: "percentile (sort xs) 95 100 = sort xs ! j" "j < length (sort xs)"
      "j = ((length (sort xs) - 1) * 95 + 100 - 1) div 100"
    using percentile_nth [OF sort_nonempty [OF assms], of 95 100] share by blast
  have "i = ((length (sort xs) - 1) * 1 + 2 - 1) * 50 div (2 * 50)"
    unfolding i(2) by (rule div_mult_mult2 [symmetric]) simp
  also have "\<dots> = ((length (sort xs) - 1) * 1 + 2 - 1) * 50 div 100" by (simp only: numeral_times_numeral semiring_norm)
  also have "\<dots> \<le> j" unfolding j(3) by (rule div_le_mono) simp
  finally have "i \<le> j" .
  then show ?thesis unfolding i(1) j(1) using j(2) by (intro sorted_nth_mono) (rule sorted_sort)
qed

lemma last_sort_Max:
  assumes "xs \<noteq> []"
  shows "last (sort xs) = Max (set xs)"
proof (rule Max_eqI [symmetric])
  note ne = sort_nonempty [OF assms]
  show "last (sort xs) \<in> set xs" using last_in_set [OF ne] by simp
  fix y
  assume "y \<in> set xs"
  then obtain i where "y = sort xs ! i" "i < length (sort xs)" by (metis in_set_conv_nth set_sort)
  then show "y \<le> last (sort xs)" using ne by (simp add: last_conv_nth sorted_nth_mono)
qed simp

lemma max_or_0_Max: "xs \<noteq> [] \<Longrightarrow> max_or_0 xs = Max (set xs)"
  by (cases xs) (simp_all add: max_or_0_def Max.set_eq_fold del: list.set(2) flip: list.set(2))

subsection \<open>Clock readings of the controller\<close>

lemma as_millis_u64_unat: "as_millis d < 2 ^ 64 \<Longrightarrow> unat (as_millis_u64 d) = as_millis d"
  by (simp add: as_millis_u64_def unat_of_nat take_bit_nat_eq_self)

lemma as_millis_mono: "a \<le> b \<Longrightarrow> as_millis a \<le> as_millis b"
  by (simp add: as_millis_def div_le_mono)

lemma elapsed_u64:
  assumes "t \<le> now" "as_millis now < 2 ^ 64"
  shows "unat (sat_sub (as_millis_u64 now) (as_millis_u64 t)) = as_millis now - as_millis t"
  using assms as_millis_mono [OF assms(1)] by (simp add: unat_sat_sub as_millis_u64_unat)

lemma fold_controller_policy [simp]: "ctl_policy (fold controller_call calls c) = ctl_policy c"
proof (induction calls arbitrary: c)
  case (Cons call calls)
  then show ?case by (cases call) (simp_all add: controller_defs)
qed simp

lemma controller_new_policy [simp]: "ctl_policy (controller_new p t) = p"
  by (simp add: controller_new_def)

text \<open>The later of the two recorded times is, the clock not going back, the latest reading passed
  with a capture change or a demand.\<close>

definition last_activity :: "IdlePolicyController \<Rightarrow> duration" where
  "last_activity c = max (last_demand c) (last_capture_disabled c)"

definition activity_times :: "duration \<Rightarrow> ControllerCall list \<Rightarrow> duration set" where
  "activity_times t0 calls = insert t0 (call_time ` set (filter (\<lambda>call. \<not> is_decide call) calls))"

lemma activity_times_snoc [simp]:
  "activity_times t0 (calls @ [call]) =
     (if is_decide call then activity_times t0 calls
      else insert (call_time call) (activity_times t0 calls))"
  by (auto simp: activity_times_def)

lemma finite_activity_times [simp]: "finite (activity_times t0 calls)" "activity_times t0 calls \<noteq> {}"
  by (simp_all add: activity_times_def)

lemma controller_call_activity:
  assumes "last_activity c \<le> call_time call"
  shows "last_activity (controller_call call c) =
    (if is_decide call then last_activity c else call_time call)"
  using assms by (cases call) (auto simp: controller_defs last_activity_def)

lemma fold_controller_latest:
  assumes "sorted (t0 # map call_time calls)"
  shows "last_activity (fold controller_call calls (controller_new p t0)) =
    Max (activity_times t0 calls)"
  using assms
proof (induction calls rule: rev_induct)
  case Nil
  show ?case by (simp add: controller_new_def last_activity_def activity_times_def)
next
  case (snoc call calls)
  then have "\<forall>t\<in>activity_times t0 calls. t \<le> call_time call"
    by (auto simp: sorted_append activity_times_def)
  then have le: "Max (activity_times t0 calls) \<le> call_time call" by simp
  have "last_activity (fold controller_call calls (controller_new p t0)) = Max (activity_times t0 calls)"
    using snoc by (simp add: sorted_append)
  with le show ?case by (simp add: controller_call_activity max_absorb1 del: Max_le_iff)
qed

text \<open>A timeout has passed for both recorded times when it has passed for the later one.\<close>

lemma elapsed_both_iff:
  assumes "last_activity c \<le> now" "as_millis now < 2 ^ 64" "as_millis d < 2 ^ 64"
  shows "sat_sub (as_millis_u64 now) (as_millis_u64 (last_capture_disabled c)) \<ge> as_millis_u64 d
      \<and> sat_sub (as_millis_u64 now) (as_millis_u64 (last_demand c)) \<ge> as_millis_u64 d
    \<longleftrightarrow> as_millis (last_activity c) + as_millis d \<le> as_millis now"
proof -
  have le: "last_capture_disabled c \<le> now" "last_demand c \<le> now"
    using assms(1) by (simp_all add: last_activity_def)
  have ms: "as_millis (last_activity c) =
      max (as_millis (last_demand c)) (as_millis (last_capture_disabled c))"
    by (simp add: last_activity_def as_millis_def max_def div_le_mono le_antisym)
  show ?thesis
    unfolding word_le_nat_alt elapsed_u64 [OF le(1) assms(2)] elapsed_u64 [OF le(2) assms(2)]
      as_millis_u64_unat [OF assms(3)] ms
    using as_millis_mono [OF le(1)] as_millis_mono [OF le(2)] by auto
qed

subsection \<open>Properties\<close>



text \<open>C21. With no resource pressure, what the controller decides after any series of calls (the
  clock not going back and below \<open>u64::MAX\<close> milliseconds) is a function of the latest capture
  change or demand: blocked work keeps it warm, otherwise it goes cold when the cold timeout has
  passed since then, idle when only the warm timeout has, and stays warm before.\<close>

theorem controller_decides_by_last_activity:
  assumes "idle_policy_new warm cold = Some p"
    and "sorted (t0 # map call_time calls @ [now])"
    and "as_millis now < 2 ^ 64" "as_millis cold < 2 ^ 64"
    and "quiet = Max (activity_times t0 calls)"
  shows "fst (controller_decide (fold controller_call calls (controller_new p t0))
              now pending connections recovery NoPressure) =
    (if pending > 0 \<or> connections > 0 \<or> recovery then KeepWarm
     else if as_millis quiet + as_millis cold \<le> as_millis now then EnterCold
     else if as_millis quiet + as_millis warm \<le> as_millis now then EnterIdle
     else KeepWarm)"
proof -
  let ?c = "fold controller_call calls (controller_new p t0)"
  have sorted: "sorted (t0 # map call_time calls)" and le: "\<forall>t\<in>activity_times t0 calls. t \<le> now"
    using assms(2) by (auto simp: sorted_append activity_times_def)
  have quiet: "last_activity ?c = quiet" using fold_controller_latest [OF sorted] assms(5) by simp
  have now: "last_activity ?c \<le> now" unfolding quiet assms(5) using le by simp
  have p: "warm_timeout_ms p = as_millis_u64 warm" "cold_timeout_ms p = as_millis_u64 cold"
      "warm \<le> cold"
    using assms(1) by (auto simp: idle_policy_new_def split: if_splits)
  have "as_millis warm < 2 ^ 64" using as_millis_mono [OF p(3)] assms(4) by simp
  note elapsed = elapsed_both_iff [OF now assms(3) assms(4)] elapsed_both_iff [OF now assms(3) this]
  show ?thesis
    by (simp add: controller_decide_def decide_def controller_inputs_def p Let_def elapsed quiet)
qed

theorem controller_decides_by_last_activity_witness:
  "fst (controller_decide (fold controller_call [CaptureDisabled 0, Demand (from_secs 6)]
          (controller_new \<lparr>warm_timeout_ms = 5000, cold_timeout_ms = 30000\<rparr> 0))
        (from_secs 37) 0 0 False NoPressure) = EnterCold"
proof -
  have "activity_times 0 [CaptureDisabled 0, Demand (from_secs 6)] = {0, from_secs 6}"
    by (simp add: activity_times_def)
  then have "from_secs 6 = Max (activity_times 0 [CaptureDisabled 0, Demand (from_secs 6)])" by simp
  note decides = controller_decides_by_last_activity [OF _ _ _ _ this,
      where warm = "from_secs 5" and cold = "from_secs 30"]
  have "as_millis (from_secs n) = n * 1000" "from_secs m \<le> from_secs n \<longleftrightarrow> m \<le> n"
      "from_secs m < from_secs n \<longleftrightarrow> m < n" "from_secs n = 0 \<longleftrightarrow> n = 0" for m n
    by (auto simp: duration_defs)
  then show ?thesis
    by (subst decides) (simp_all add: idle_policy_new_def as_millis_u64_def)
qed

end
