(* ===== verification/Btree.thy ===== *)
theory Btree
  imports Prelude
begin

section \<open>Ordered maps\<close>

text \<open>
  \<open>BTreeMap\<close> of the standard library, which is also \<open>serde_json::Map\<close> in this workspace: an
  association list with strictly increasing keys, the order in which the map is iterated. The
  locale \<open>map_laws\<close> is the contract its clients use: what a lookup returns after an insertion, and
  what building a map from a sequence of entries gives.
\<close>

type_synonym ('k, 'v) btree = "('k \<times> 'v) list"

fun bt_insert :: "'k::linorder \<Rightarrow> 'v \<Rightarrow> ('k, 'v) btree \<Rightarrow> ('k, 'v) btree" where
  "bt_insert k v [] = [(k, v)]"
| "bt_insert k v ((l, w) # m) =
     (if k < l then (k, v) # (l, w) # m
      else if k = l then (k, v) # m
      else (l, w) # bt_insert k v m)"

definition bt_get :: "('k, 'v) btree \<Rightarrow> 'k \<Rightarrow> 'v option" where
  "bt_get m k = map_of m k"

definition bt_keys :: "('k, 'v) btree \<Rightarrow> 'k list" where
  "bt_keys m = map fst m"

definition bt_wf :: "('k::linorder, 'v) btree \<Rightarrow> bool" where
  "bt_wf m \<longleftrightarrow> sorted (bt_keys m) \<and> distinct (bt_keys m)"

subsection \<open>The contract of a map\<close>

locale map_laws =
  fixes empty :: 'm and get :: "'m \<Rightarrow> 'k \<Rightarrow> 'v option" and ins :: "'k \<Rightarrow> 'v \<Rightarrow> 'm \<Rightarrow> 'm"
    and wf :: "'m \<Rightarrow> bool"
  assumes wf_empty: "wf empty"
    and get_empty: "get empty k = None"
    and wf_ins: "wf m \<Longrightarrow> wf (ins k v m)"
    and get_ins: "wf m \<Longrightarrow> get (ins k v m) l = (if l = k then Some v else get m l)"
begin

definition from_iter :: "('k \<times> 'v) list \<Rightarrow> 'm" where
  "from_iter entries = fold (\<lambda>(k, v). ins k v) entries empty"

lemma wf_fold_ins: "wf m \<Longrightarrow> wf (fold (\<lambda>(k, v). ins k v) entries m)"
  by (induction entries arbitrary: m) (auto simp: wf_ins)

lemma get_fold_ins:
  "wf m \<Longrightarrow> get (fold (\<lambda>(k, v). ins k v) entries m) l =
     (case map_of (rev entries) l of None \<Rightarrow> get m l | Some v \<Rightarrow> Some v)"
  by (induction entries arbitrary: m)
    (auto simp: wf_ins get_ins map_add_def split: option.splits)

lemma wf_from_iter: "wf (from_iter entries)"
  by (simp add: from_iter_def wf_fold_ins wf_empty)

text \<open>The last entry of a key wins.\<close>

lemma get_from_iter: "get (from_iter entries) l = map_of (rev entries) l"
  by (simp add: from_iter_def get_fold_ins wf_empty get_empty split: option.splits)

end

lemma keys_insert: "set (bt_keys (bt_insert k v m)) = insert k (set (bt_keys m))"
  by (induction k v m rule: bt_insert.induct) (auto simp: bt_keys_def)

lemma bt_wf_Cons: "bt_wf ((k, v) # m) \<longleftrightarrow> (\<forall>l\<in>set (bt_keys m). k < l) \<and> bt_wf m"
  by (auto simp: bt_wf_def bt_keys_def order.strict_iff_order)

lemma bt_wf_Nil [simp]: "bt_wf []"
  by (simp add: bt_wf_def bt_keys_def)

lemma bt_wf_insert: "bt_wf m \<Longrightarrow> bt_wf (bt_insert k v m)"
  by (induction k v m rule: bt_insert.induct) (auto simp: bt_wf_Cons keys_insert, auto simp: bt_keys_def)

lemma bt_get_insert: "bt_wf m \<Longrightarrow> bt_get (bt_insert k v m) l = (if l = k then Some v else bt_get m l)"
  by (induction k v m rule: bt_insert.induct) (auto simp: bt_wf_Cons bt_get_def)

interpretation btree: map_laws "[]" bt_get bt_insert "bt_wf :: ('k::linorder, 'v) btree \<Rightarrow> bool"
  by unfold_locales (simp_all add: bt_wf_insert bt_get_insert, simp add: bt_get_def)

text \<open>\<open>collect::<BTreeMap<_, _>>()\<close>.\<close>

definition bt_collect :: "('k::linorder \<times> 'v) list \<Rightarrow> ('k, 'v) btree" where
  "bt_collect entries = fold (\<lambda>(k, v). bt_insert k v) entries []"

lemma bt_collect_wf [simp]: "bt_wf (bt_collect entries)"
  using btree.wf_from_iter by (simp add: bt_collect_def btree.from_iter_def)

lemma bt_get_collect: "bt_get (bt_collect entries) k = map_of (rev entries) k"
  using btree.get_from_iter by (simp add: bt_collect_def btree.from_iter_def)

text \<open>A map is determined by its lookups, so its iteration order is.\<close>

lemma bt_get_None_iff: "bt_get m k = None \<longleftrightarrow> k \<notin> set (bt_keys m)"
  by (simp add: bt_get_def bt_keys_def map_of_eq_None_iff)

lemma bt_get_Some_iff: "bt_wf m \<Longrightarrow> bt_get m k = Some v \<longleftrightarrow> (k, v) \<in> set m"
  by (simp add: bt_get_def bt_wf_def bt_keys_def map_of_eq_Some_iff)

lemma bt_ext:
  assumes "bt_wf m" "bt_wf n" "\<And>k. bt_get m k = bt_get n k"
  shows "m = n"
proof -
  have "set m = set n"
    using assms bt_get_Some_iff by (metis (no_types, opaque_lifting) subset_antisym subset_iff surj_pair)
  then have "set (bt_keys m) = set (bt_keys n)" by (simp add: bt_keys_def)
  then have "bt_keys m = bt_keys n"
    using assms(1,2) by (simp add: bt_wf_def sorted_distinct_set_unique)
  moreover have "inj_on fst (set m \<union> set n)"
    using assms(1) \<open>set m = set n\<close> by (simp add: bt_wf_def bt_keys_def distinct_map)
  ultimately show ?thesis unfolding bt_keys_def by (rule map_inj_on)
qed

end
