(* ===== verification/Json.thy ===== *)
theory Json
  imports Btree Slices
begin

section \<open>JSON values and text encodings\<close>

text \<open>
  The values of \<open>serde_json\<close> as the sources build and read them. Writing a value as bytes and
  parsing bytes are code of that crate: the definitions that need them take them as arguments.
\<close>

datatype json_number = PosInt u64 | NegInt int | Float u64

datatype json =
    JNull
  | JBool bool
  | JNum json_number
  | JStr string
  | JArr "json list"
  | JObj "(string \<times> json) list"

text \<open>The \<open>json!\<close> literals: an object is a map filled in the order of the text.\<close>

definition json_object :: "(string \<times> json) list \<Rightarrow> json" where
  "json_object entries = JObj (bt_collect entries)"

definition json_strings :: "string list \<Rightarrow> json" where
  "json_strings xs = JArr (map JStr xs)"

definition json_u64 :: "'a::len word \<Rightarrow> json" where
  "json_u64 w = JNum (PosInt (ucast w))"

text \<open>\<open>Value::get\<close>, and the readings of a member as a string, an array or an array of strings;
  a member that is absent or of another type reads as empty.\<close>

definition jget :: "json \<Rightarrow> string \<Rightarrow> json option" where
  "jget v k = (case v of JObj m \<Rightarrow> bt_get m k | _ \<Rightarrow> None)"

definition member :: "json \<Rightarrow> string \<Rightarrow> json" where
  "member v k = (case jget v k of Some w \<Rightarrow> w | None \<Rightarrow> JNull)"

fun json_str :: "json \<Rightarrow> string list" where
  "json_str (JStr s) = [s]"
| "json_str _ = []"

fun json_items :: "json \<Rightarrow> json list" where
  "json_items (JArr xs) = xs"
| "json_items _ = []"

definition str_member :: "json \<Rightarrow> string \<Rightarrow> string list" where
  "str_member v k = json_str (member v k)"

definition items_member :: "json \<Rightarrow> string \<Rightarrow> json list" where
  "items_member v k = json_items (member v k)"

definition strs_member :: "json \<Rightarrow> string \<Rightarrow> string list" where
  "strs_member v k = concat (map json_str (items_member v k))"

lemma jget_object [simp]: "jget (json_object entries) k = map_of (rev entries) k"
  by (simp add: jget_def json_object_def bt_get_collect)

lemma json_str_strings [simp]: "concat (map (json_str \<circ> JStr) xs) = xs"
  by (induction xs) simp_all

lemma json_str_map [simp]: "concat (map (json_str \<circ> (JStr \<circ> f)) xs) = map f xs"
  by (induction xs) simp_all

lemma json_items_strings [simp]: "json_items (json_strings xs) = map JStr xs"
  by (simp add: json_strings_def)

lemmas json_read_defs = member_def str_member_def items_member_def strs_member_def

subsection \<open>Hexadecimal digests\<close>

text \<open>\<open>format!("{byte:02x}")\<close> and the text of a digest.\<close>

definition hex_digit :: "nat \<Rightarrow> char" where
  "hex_digit n = (if n < 10 then char_of (48 + n) else char_of (87 + n))"

definition hex_byte :: "char \<Rightarrow> string" where
  "hex_byte b = [hex_digit (of_char b div 16), hex_digit (of_char b mod 16)]"

definition hex :: "bytes \<Rightarrow> string" where
  "hex bs = concat (map hex_byte bs)"

lemma hex_digit_lower: "n < 16 \<Longrightarrow> is_hex_lower (hex_digit n)"
  by (auto simp: hex_digit_def byte_class_defs)

lemma of_char_less: "(of_char c :: nat) < 256"
  using mod_less_divisor [of 256 "of_char c"] by (simp only: of_char_mod_256)

lemma hex_length [simp]: "length (hex bs) = 2 * length bs"
  by (induction bs) (simp_all add: hex_def hex_byte_def)

lemma hex_lower: "list_all is_hex_lower (hex bs)"
proof (induction bs)
  case (Cons b bs)
  have "of_char b div 16 < (16::nat)" using of_char_less [of b] by linarith
  with Cons show ?case by (simp add: hex_def hex_byte_def hex_digit_lower)
qed (simp add: hex_def)

lemma hex_inject: "hex as = hex bs \<longleftrightarrow> as = bs"
proof (induction as arbitrary: bs)
  case Nil
  show ?case by (cases bs) (simp_all add: hex_def hex_byte_def)
next
  case (Cons a as)
  show ?case
  proof (cases bs)
    case (Cons b cs)
    have "hex_digit m = hex_digit n \<longleftrightarrow> m = n" if "m < 16" "n < 16" for m n
      using that unfolding hex_digit_def by (auto simp: of_char_eq_iff [symmetric] split: if_splits)
    moreover have "of_char a div 16 < (16::nat)" "of_char b div 16 < (16::nat)"
      using of_char_less [of a] of_char_less [of b] by linarith+
    moreover have "x div 16 = y div 16 \<and> x mod 16 = y mod 16 \<longleftrightarrow> x = y" for x y :: nat
      by (metis div_mult_mod_eq)
    ultimately have "hex_byte a = hex_byte b \<longleftrightarrow> a = b" by (simp add: hex_byte_def)
    then show ?thesis
      using Cons.IH [of cs] \<open>bs = b # cs\<close> by (auto simp: hex_def hex_byte_def)
  qed (simp add: hex_def hex_byte_def)
qed

text \<open>\<open>parse::<u16>\<close>: the same numerals, below 65536.\<close>

definition parse_u16 :: "string \<Rightarrow> u16 option" where
  "parse_u16 s = (case parse_u64 s of None \<Rightarrow> None
     | Some w \<Rightarrow> if unat w < 2 ^ 16 then Some (ucast w) else None)"

text \<open>\<open>str::split\<close> at a byte.\<close>

fun split_on :: "char \<Rightarrow> string \<Rightarrow> string list" where
  "split_on c [] = [[]]"
| "split_on c (x # xs) =
     (if x = c then [] # split_on c xs
      else case split_on c xs of [] \<Rightarrow> [[x]] | p # ps \<Rightarrow> (x # p) # ps)"

lemma split_on_nonempty [simp]: "split_on c s \<noteq> []"
  by (cases s) (auto split: list.splits)

end
