(* ===== verification/Composer.thy ===== *)
theory Composer
  imports Json Capture
begin

section \<open>The managed configuration\<close>

text \<open>
  nethop-core/src/composer.rs: the terminal outbounds and options a profile is built from, with
  their checks, and the sing-box configuration composed from a profile. A \<open>BTreeMap\<close> of fields is
  an ordered association list. Serialisation (\<open>serde_json::to_vec\<close>) and hashing
  (\<open>Sha256\<close>) are arguments \<open>to_vec\<close> and \<open>sha256\<close> of the definitions that call them. The
  \<open>Debug\<close> implementations, which only redact, are left out.
\<close>

definition MAX_TAG_BYTES :: nat where "MAX_TAG_BYTES = 128"
definition MAX_PROTOCOL_BYTES :: nat where "MAX_PROTOCOL_BYTES = 32"
definition MAX_FIELD_COUNT :: nat where "MAX_FIELD_COUNT = 128"
definition MAX_FIELD_NAME_BYTES :: nat where "MAX_FIELD_NAME_BYTES = 64"
definition MAX_CONFIG_BYTES :: nat where "MAX_CONFIG_BYTES = 5 * 1024 * 1024"
definition MAX_MANAGED_NODES :: nat where "MAX_MANAGED_NODES = 2000"
definition MAX_AUTO_NODES :: nat where "MAX_AUTO_NODES = 64"
definition MAX_ROUTING_CIDRS :: nat where "MAX_ROUTING_CIDRS = 512"
definition MAX_CIDR_BYTES :: nat where "MAX_CIDR_BYTES = 64"
definition MAX_ROUTING_DOMAINS :: nat where "MAX_ROUTING_DOMAINS = 512"
definition MAX_DOMAIN_BYTES :: nat where "MAX_DOMAIN_BYTES = 253"
definition MIN_API_SECRET_BYTES :: nat where "MIN_API_SECRET_BYTES = 32"
definition MAX_API_SECRET_BYTES :: nat where "MAX_API_SECRET_BYTES = 128"

lemmas composer_limits = MAX_TAG_BYTES_def MAX_PROTOCOL_BYTES_def MAX_FIELD_COUNT_def
  MAX_FIELD_NAME_BYTES_def MAX_CONFIG_BYTES_def MAX_MANAGED_NODES_def MAX_AUTO_NODES_def
  MAX_ROUTING_CIDRS_def MAX_CIDR_BYTES_def MAX_ROUTING_DOMAINS_def MAX_DOMAIN_BYTES_def
  MIN_API_SECRET_BYTES_def MAX_API_SECRET_BYTES_def

abbreviation DIRECT_TAG :: string where "DIRECT_TAG \<equiv> ''direct''"
abbreviation BLOCK_TAG :: string where "BLOCK_TAG \<equiv> ''block''"
abbreviation SELECT_TAG :: string where "SELECT_TAG \<equiv> ''nethop-select''"
abbreviation INBOUND_TAG :: string where "INBOUND_TAG \<equiv> ''nethop-in''"
abbreviation FETCH_INBOUND_TAG :: string where "FETCH_INBOUND_TAG \<equiv> ''nethop-fetch''"
abbreviation MANAGED_FETCH_PROXY_USERNAME :: string where
  "MANAGED_FETCH_PROXY_USERNAME \<equiv> ''nethop''"
abbreviation CN_DOMAIN_RULE_SET_TAG :: string where "CN_DOMAIN_RULE_SET_TAG \<equiv> ''nethop-cn-domain''"
abbreviation CN_IP_RULE_SET_TAG :: string where "CN_IP_RULE_SET_TAG \<equiv> ''nethop-cn-ip''"

definition RESERVED_TAGS :: "string list" where
  "RESERVED_TAGS = [DIRECT_TAG, BLOCK_TAG, SELECT_TAG, INBOUND_TAG, FETCH_INBOUND_TAG]"

definition RESERVED_FIELDS :: "string list" where
  "RESERVED_FIELDS =
     [''inbounds'', ''outbounds'', ''route'', ''dns'', ''experimental'', ''services'', ''log'',
      ''endpoints'']"

datatype ComposerError =
    InvalidTag
  | InvalidProtocol
  | ReservedField string
  | TooManyFields
  | FieldNameTooLong
  | DuplicateTag
  | EmptyOutbounds
  | ConfigTooLarge
  | Serialization string
  | TooManyOutbounds
  | ReservedTag
  | InvalidApiEndpoint
  | InvalidApiSecret
  | InvalidManagedOptions

subsection \<open>Terminal outbounds\<close>

record TerminalOutbound =
  ob_tag :: string
  ob_protocol :: string
  ob_fields :: "(string, json) btree"

fun check_fields :: "string list \<Rightarrow> (ComposerError, unit) rresult" where
  "check_fields [] = Ok ()"
| "check_fields (key # keys) =
     (if key = [] \<or> length key > MAX_FIELD_NAME_BYTES then Err FieldNameTooLong
      else if key \<in> set RESERVED_FIELDS then Err (ReservedField key)
      else check_fields keys)"

definition terminal_outbound_new ::
  "string \<Rightarrow> string \<Rightarrow> (string, json) btree \<Rightarrow> (ComposerError, TerminalOutbound) rresult" where
  "terminal_outbound_new tag protocol field_map =
     (if tag = [] \<or> length tag > MAX_TAG_BYTES then Err InvalidTag
      else if protocol = [] \<or> length protocol > MAX_PROTOCOL_BYTES then Err InvalidProtocol
      else if length field_map > MAX_FIELD_COUNT then Err TooManyFields
      else and_then (check_fields (bt_keys field_map))
        (\<lambda>_. Ok \<lparr>ob_tag = tag, ob_protocol = protocol, ob_fields = field_map\<rparr>))"

definition to_json :: "TerminalOutbound \<Rightarrow> json" where
  "to_json outbound =
     (let object = bt_collect (ob_fields outbound);
          object = bt_insert ''tag'' (JStr (ob_tag outbound)) object;
          object = bt_insert ''type'' (JStr (ob_protocol outbound)) object
      in JObj object)"

subsection \<open>Options\<close>

datatype TunStack = System | Gvisor

fun tun_stack_as_str :: "TunStack \<Rightarrow> string" where
  "tun_stack_as_str System = ''system''"
| "tun_stack_as_str Gvisor = ''gvisor''"

datatype ManagedOutboundMode = Mode_Rule | Mode_Global | Mode_Direct

datatype ManagedLogLevel = Log_Error | Log_Warn | Log_Info | Log_Debug | Log_Trace

fun log_level_as_str :: "ManagedLogLevel \<Rightarrow> string" where
  "log_level_as_str Log_Error = ''error''"
| "log_level_as_str Log_Warn = ''warn''"
| "log_level_as_str Log_Info = ''info''"
| "log_level_as_str Log_Debug = ''debug''"
| "log_level_as_str Log_Trace = ''trace''"

record ManagedOptions =
  outbound_mode :: ManagedOutboundMode
  urltest_interval_minutes :: u16
  urltest_tolerance_ms :: u16
  urltest_max_candidates :: nat
  log_level :: ManagedLogLevel
  bypass_private :: bool
  bypass_cn :: bool
  force_proxy_cidrs :: "string list"
  bypass_cidrs :: "string list"
  force_proxy_domains :: "string list"
  bypass_domains :: "string list"
  block_domains :: "string list"

definition managed_options_default :: ManagedOptions where
  "managed_options_default =
     \<lparr>outbound_mode = Mode_Rule, urltest_interval_minutes = 10, urltest_tolerance_ms = 50,
      urltest_max_candidates = MAX_AUTO_NODES, log_level = Log_Warn, bypass_private = True,
      bypass_cn = True, force_proxy_cidrs = [], bypass_cidrs = [], force_proxy_domains = [],
      bypass_domains = [], block_domains = []\<rparr>"

definition managed_options_new ::
  "ManagedOutboundMode \<Rightarrow> u16 \<Rightarrow> u16 \<Rightarrow> nat \<Rightarrow> ManagedLogLevel \<Rightarrow> bool \<Rightarrow> bool \<Rightarrow> string list
   \<Rightarrow> string list \<Rightarrow> (ComposerError, ManagedOptions) rresult" where
  "managed_options_new mode interval tolerance candidates level private cn force bypass =
     (if \<not> (5 \<le> interval \<and> interval \<le> 1440)
         \<or> tolerance > 1000
         \<or> \<not> (1 \<le> candidates \<and> candidates \<le> 256)
         \<or> length force > MAX_ROUTING_CIDRS
         \<or> length bypass > MAX_ROUTING_CIDRS
         \<or> list_ex (\<lambda>cidr. cidr = [] \<or> length cidr > MAX_CIDR_BYTES \<or> CHR ''/'' \<notin> set cidr)
             (force @ bypass)
      then Err InvalidManagedOptions
      else Ok \<lparr>outbound_mode = mode, urltest_interval_minutes = interval,
               urltest_tolerance_ms = tolerance, urltest_max_candidates = candidates,
               log_level = level, bypass_private = private, bypass_cn = cn,
               force_proxy_cidrs = force, bypass_cidrs = bypass, force_proxy_domains = [],
               bypass_domains = [], block_domains = []\<rparr>)"

definition lower_or_digit :: "char \<Rightarrow> bool" where
  "lower_or_digit byte \<longleftrightarrow> is_ascii_lowercase byte \<or> is_ascii_digit byte"

definition valid_domain_suffix :: "string \<Rightarrow> bool" where
  "valid_domain_suffix value \<longleftrightarrow>
     value \<noteq> []
     \<and> length value \<le> MAX_DOMAIN_BYTES
     \<and> list_all (\<lambda>byte. lower_or_digit byte \<or> byte = CHR ''.'' \<or> byte = CHR ''-'') value
     \<and> list_all (\<lambda>label. label \<noteq> [] \<and> length label \<le> 63
           \<and> lower_or_digit (hd label) \<and> lower_or_digit (last label))
         (split_on CHR ''.'' value)"

definition with_domain_rules ::
  "ManagedOptions \<Rightarrow> string list \<Rightarrow> string list \<Rightarrow> string list
   \<Rightarrow> (ComposerError, ManagedOptions) rresult" where
  "with_domain_rules self force bypass block =
     (if length force > MAX_ROUTING_DOMAINS \<or> length bypass > MAX_ROUTING_DOMAINS
         \<or> length block > MAX_ROUTING_DOMAINS
         \<or> list_ex (\<lambda>domain. \<not> valid_domain_suffix domain) (force @ bypass @ block)
      then Err InvalidManagedOptions
      else Ok (self\<lparr>force_proxy_domains := force, bypass_domains := bypass,
                    block_domains := block\<rparr>))"

record ClashApi =
  endpoint :: string
  secret :: string

definition clash_api_new :: "string \<Rightarrow> string \<Rightarrow> (ComposerError, ClashApi) rresult" where
  "clash_api_new ep sec =
     and_then
       (ok_or InvalidApiEndpoint
         (case Option.bind (strip_prefix ep ''127.0.0.1:'') parse_u16 of
            Some port \<Rightarrow> if port \<noteq> 0 then Some port else None
          | None \<Rightarrow> None))
       (\<lambda>port.
         if \<not> (MIN_API_SECRET_BYTES \<le> length sec \<and> length sec \<le> MAX_API_SECRET_BYTES)
            \<or> has_control sec
         then Err InvalidApiSecret
         else Ok \<lparr>endpoint = ep, secret = sec\<rparr>)"

subsection \<open>Profiles\<close>

record ManagedProfile =
  capture :: CapturePolicy
  outbounds :: "TerminalOutbound list"
  auto_pool :: "string list"
  clash_api :: ClashApi
  tun_stack :: TunStack
  options :: ManagedOptions

definition with_auto_pool ::
  "ManagedProfile \<Rightarrow> string list \<Rightarrow> (ComposerError, ManagedProfile) rresult" where
  "with_auto_pool self pool =
     (if length pool > MAX_AUTO_NODES
         \<or> pool = [] \<and> outbounds self \<noteq> []
         \<or> list_ex (\<lambda>tag. tag = [] \<or> length tag > MAX_TAG_BYTES \<or> has_control tag
               \<or> \<not> list_ex (\<lambda>outbound. ob_tag outbound = tag) (outbounds self)) pool
         \<or> length (remdups pool) \<noteq> length pool
      then Err InvalidManagedOptions
      else Ok (self\<lparr>auto_pool := pool\<rparr>))"

definition managed_profile_new ::
  "CapturePolicy \<Rightarrow> TerminalOutbound list \<Rightarrow> string list \<Rightarrow> ClashApi
   \<Rightarrow> (ComposerError, ManagedProfile) rresult" where
  "managed_profile_new cap obs pool api =
     (if length obs > MAX_MANAGED_NODES then Err TooManyOutbounds
      else if list_ex (\<lambda>outbound. ob_tag outbound \<in> set RESERVED_TAGS) obs then Err ReservedTag
      else with_auto_pool
        \<lparr>capture = cap, outbounds = obs, auto_pool = [], clash_api = api, tun_stack = Gvisor,
         options = managed_options_default\<rparr> pool)"

definition with_tun_stack :: "ManagedProfile \<Rightarrow> TunStack \<Rightarrow> ManagedProfile" where
  "with_tun_stack self stack = self\<lparr>tun_stack := stack\<rparr>"

definition with_options :: "ManagedProfile \<Rightarrow> ManagedOptions \<Rightarrow> ManagedProfile" where
  "with_options self opts = self\<lparr>options := opts\<rparr>"

subsection \<open>The composed configuration\<close>

record ManagedConfig =
  cfg_bytes :: bytes
  cfg_digest :: string
  cfg_node_count :: nat

definition normalize_outbounds ::
  "TerminalOutbound list \<Rightarrow> (ComposerError, TerminalOutbound list) rresult" where
  "normalize_outbounds obs =
     (if obs = [] then Err EmptyOutbounds
      else let sorted_obs = sort_key ob_tag obs
           in if list_ex (\<lambda>(a, b). ob_tag a = ob_tag b) (zip sorted_obs (tl sorted_obs))
              then Err DuplicateTag
              else Ok sorted_obs)"

definition from_value ::
  "(json \<Rightarrow> (string, bytes) rresult) \<Rightarrow> (bytes \<Rightarrow> bytes) \<Rightarrow> json \<Rightarrow> nat
   \<Rightarrow> (ComposerError, ManagedConfig) rresult" where
  "from_value to_vec sha256 value node_count =
     and_then (map_err Serialization (to_vec value)) (\<lambda>bytes.
       if length bytes > MAX_CONFIG_BYTES then Err ConfigTooLarge
       else Ok \<lparr>cfg_bytes = bytes, cfg_digest = hex (sha256 bytes), cfg_node_count = node_count\<rparr>)"

definition from_outbounds ::
  "(json \<Rightarrow> (string, bytes) rresult) \<Rightarrow> (bytes \<Rightarrow> bytes) \<Rightarrow> TerminalOutbound list
   \<Rightarrow> (ComposerError, ManagedConfig) rresult" where
  "from_outbounds to_vec sha256 obs =
     and_then (normalize_outbounds obs) (\<lambda>obs.
       from_value to_vec sha256
         (json_object [(''outbounds'', JArr (map to_json obs))]) (length obs))"

text \<open>The fetch proxy listens on the port of its constant endpoint: \<open>rsplit_once(':')\<close>, whose
  right part is the last one of a split, and \<open>parse\<close>.\<close>

definition MANAGED_FETCH_PROXY_ENDPOINT :: string where
  "MANAGED_FETCH_PROXY_ENDPOINT = ''127.0.0.1:7894''"

definition fetch_port :: "u16 option" where
  "fetch_port = parse_u16 (last (split_on CHR '':'' MANAGED_FETCH_PROXY_ENDPOINT))"

definition compose_inbounds :: "ManagedProfile \<Rightarrow> json list" where
  "compose_inbounds profile =
     (let fetch = json_object
            [(''type'', JStr ''http''), (''tag'', JStr FETCH_INBOUND_TAG),
             (''listen'', JStr ''127.0.0.1''), (''listen_port'', json_u64 (the fetch_port)),
             (''users'', JArr [json_object
                [(''username'', JStr MANAGED_FETCH_PROXY_USERNAME),
                 (''password'', JStr (secret (clash_api profile)))]])]
      in case cp_mode (capture profile) of
        Tproxy \<Rightarrow>
          [json_object
             [(''type'', JStr ''tproxy''), (''tag'', JStr INBOUND_TAG), (''listen'', JStr ''::''),
              (''listen_port'', case cp_inbound_port (capture profile) of
                 None \<Rightarrow> JNull | Some port \<Rightarrow> json_u64 port)],
           fetch]
      | Tun \<Rightarrow>
          [json_object
             ([(''type'', JStr ''tun''), (''tag'', JStr INBOUND_TAG),
               (''interface_name'', JStr ''nethop0''),
               (''address'', json_strings [''172.19.0.1/30'', ''fdfe:dcba:9876::1/126'']),
               (''stack'', JStr (tun_stack_as_str (tun_stack profile))),
               (''auto_route'', JBool False), (''strict_route'', JBool False)]
              @ (if cp_include_uids (capture profile) \<noteq> []
                 then [(''include_uid'', JArr (map json_u64 (cp_include_uids (capture profile))))]
                 else [])
              @ (if cp_exclude_uids (capture profile) \<noteq> []
                 then [(''exclude_uid'', JArr (map json_u64 (cp_exclude_uids (capture profile))))]
                 else [])),
           fetch]
      | Direct \<Rightarrow> [])"

definition profile_outbounds :: "string list \<Rightarrow> string \<Rightarrow> TerminalOutbound list \<Rightarrow> json list" where
  "profile_outbounds node_tags default_tag obs =
     [json_object [(''type'', JStr ''direct''), (''tag'', JStr DIRECT_TAG)],
      json_object [(''type'', JStr ''block''), (''tag'', JStr BLOCK_TAG)],
      json_object
        [(''type'', JStr ''selector''), (''tag'', JStr SELECT_TAG),
         (''outbounds'', json_strings node_tags), (''default'', JStr default_tag),
         (''interrupt_exist_connections'', JBool False)]]
     @ map to_json obs"

definition rule_mode_with_cn :: "ManagedOptions \<Rightarrow> bool" where
  "rule_mode_with_cn opts \<longleftrightarrow> outbound_mode opts = Mode_Rule \<and> bypass_cn opts"

text \<open>The optional rules, pushed when their list is not empty.\<close>

definition list_rule :: "string \<Rightarrow> string list \<Rightarrow> (string \<times> json) list \<Rightarrow> json list" where
  "list_rule key xs rest = (if xs \<noteq> [] then [json_object ((key, json_strings xs) # rest)] else [])"

definition route_rules :: "ManagedOptions \<Rightarrow> json list" where
  "route_rules opts =
     [json_object [(''inbound'', json_strings [INBOUND_TAG]), (''action'', JStr ''sniff'')],
      json_object
        [(''type'', JStr ''logical''), (''mode'', JStr ''or''),
         (''rules'', JArr [json_object [(''protocol'', JStr ''dns'')],
                           json_object [(''port'', json_u64 (53 :: u16))]]),
         (''action'', JStr ''hijack-dns'')],
      json_object
        [(''inbound'', json_strings [FETCH_INBOUND_TAG]), (''action'', JStr ''resolve''),
         (''server'', JStr ''dns-proxy''), (''strategy'', JStr ''prefer_ipv4'')],
      json_object
        [(''inbound'', json_strings [FETCH_INBOUND_TAG]), (''ip_is_private'', JBool True),
         (''outbound'', JStr BLOCK_TAG)],
      json_object
        [(''inbound'', json_strings [FETCH_INBOUND_TAG]), (''outbound'', JStr SELECT_TAG)]]
     @ list_rule ''domain_suffix'' (block_domains opts) [(''outbound'', JStr BLOCK_TAG)]
     @ list_rule ''domain_suffix'' (force_proxy_domains opts) [(''outbound'', JStr SELECT_TAG)]
     @ list_rule ''domain_suffix'' (bypass_domains opts) [(''outbound'', JStr DIRECT_TAG)]
     @ list_rule ''ip_cidr'' (force_proxy_cidrs opts) [(''outbound'', JStr SELECT_TAG)]
     @ list_rule ''ip_cidr'' (bypass_cidrs opts) [(''outbound'', JStr DIRECT_TAG)]
     @ (if bypass_private opts
        then [json_object [(''ip_is_private'', JBool True), (''outbound'', JStr DIRECT_TAG)]]
        else [])
     @ (if rule_mode_with_cn opts
        then [json_object [(''rule_set'', json_strings [CN_DOMAIN_RULE_SET_TAG]),
                           (''outbound'', JStr DIRECT_TAG)],
              json_object [(''action'', JStr ''resolve''), (''strategy'', JStr ''prefer_ipv4''),
                           (''server'', JStr ''dns-proxy'')],
              json_object [(''rule_set'', json_strings [CN_IP_RULE_SET_TAG]),
                           (''outbound'', JStr DIRECT_TAG)]]
        else [])"

definition route_final :: "ManagedOptions \<Rightarrow> string" where
  "route_final opts =
     (case outbound_mode opts of
        Mode_Rule \<Rightarrow> SELECT_TAG | Mode_Global \<Rightarrow> SELECT_TAG | Mode_Direct \<Rightarrow> DIRECT_TAG)"

definition dns_final :: "ManagedOptions \<Rightarrow> string" where
  "dns_final opts =
     (case outbound_mode opts of
        Mode_Direct \<Rightarrow> ''dns-direct'' | Mode_Rule \<Rightarrow> ''dns-proxy'' | Mode_Global \<Rightarrow> ''dns-proxy'')"

definition dns_rules :: "ManagedOptions \<Rightarrow> json list" where
  "dns_rules opts =
     list_rule ''domain_suffix'' (force_proxy_domains opts)
       [(''action'', JStr ''route''), (''server'', JStr ''dns-proxy'')]
     @ list_rule ''domain_suffix'' (bypass_domains opts)
       [(''action'', JStr ''route''), (''server'', JStr ''dns-direct'')]
     @ (if rule_mode_with_cn opts
        then [json_object [(''rule_set'', json_strings [CN_DOMAIN_RULE_SET_TAG]),
                           (''action'', JStr ''route''), (''server'', JStr ''dns-direct'')]]
        else [])"

definition local_rule_set :: "string \<Rightarrow> string \<Rightarrow> json" where
  "local_rule_set tag path =
     json_object [(''type'', JStr ''local''), (''tag'', JStr tag), (''format'', JStr ''binary''),
                  (''path'', JStr path)]"

definition route_rule_sets :: "ManagedOptions \<Rightarrow> json list" where
  "route_rule_sets opts =
     (if rule_mode_with_cn opts
      then [local_rule_set CN_DOMAIN_RULE_SET_TAG ''/data/adb/nethop/rulesets/cn-domain.srs'',
            local_rule_set CN_IP_RULE_SET_TAG ''/data/adb/nethop/rulesets/cn-ip.srs'']
      else [])"

definition dns_server :: "string \<Rightarrow> string \<Rightarrow> string \<Rightarrow> (string \<times> json) list \<Rightarrow> json" where
  "dns_server tag server host rest =
     json_object
       ([(''type'', JStr ''https''), (''tag'', JStr tag), (''server'', JStr server),
         (''server_port'', json_u64 (443 :: u16)), (''path'', JStr ''/dns-query''),
         (''headers'', json_object [(''Host'', JStr host)]),
         (''tls'', json_object [(''server_name'', JStr host)])] @ rest)"

definition profile_value :: "ManagedProfile \<Rightarrow> string \<Rightarrow> json" where
  "profile_value profile default_tag =
     (let opts = options profile
      in json_object
        [(''log'', json_object [(''level'', JStr (log_level_as_str (log_level opts))),
                                (''timestamp'', JBool True)]),
         (''dns'', json_object
           [(''servers'', JArr
              [dns_server ''dns-direct'' ''223.5.5.5'' ''dns.alidns.com'' [],
               dns_server ''dns-proxy'' ''1.1.1.1'' ''cloudflare-dns.com''
                 [(''detour'', JStr SELECT_TAG)]]),
            (''rules'', JArr (dns_rules opts)),
            (''final'', JStr (dns_final opts)),
            (''strategy'', JStr ''prefer_ipv4''),
            (''disable_cache'', JBool False),
            (''cache_capacity'', json_u64 (4096 :: u16))]),
         (''inbounds'', JArr (compose_inbounds profile)),
         (''outbounds'', JArr (profile_outbounds (map ob_tag (outbounds profile)) default_tag
                                (outbounds profile))),
         (''route'', json_object
           [(''auto_detect_interface'', JBool True),
            (''default_domain_resolver'', JStr ''dns-direct''),
            (''rule_set'', JArr (route_rule_sets opts)),
            (''rules'', JArr (route_rules opts)),
            (''final'', JStr (route_final opts))]),
         (''experimental'', json_object
           [(''clash_api'', json_object
              [(''external_controller'', JStr (endpoint (clash_api profile))),
               (''secret'', JStr (secret (clash_api profile)))])])])"

definition from_profile ::
  "(json \<Rightarrow> (string, bytes) rresult) \<Rightarrow> (bytes \<Rightarrow> bytes) \<Rightarrow> ManagedProfile
   \<Rightarrow> (ComposerError, ManagedConfig) rresult" where
  "from_profile to_vec sha256 profile =
     and_then (normalize_outbounds (outbounds profile)) (\<lambda>obs.
       let profile = profile\<lparr>outbounds := obs\<rparr>;
           node_tags = map ob_tag obs
       in if list_ex (\<lambda>tag. \<not> list_ex (\<lambda>node_tag. node_tag = tag) node_tags) (auto_pool profile)
          then Err InvalidManagedOptions
          else case auto_pool profile of
            [] \<Rightarrow> Err InvalidManagedOptions
          | default_tag # _ \<Rightarrow>
              from_value to_vec sha256 (profile_value profile default_tag) (length obs))"

lemma fetch_port_eq: "fetch_port = Some 7894"
  unfolding fetch_port_def MANAGED_FETCH_PROXY_ENDPOINT_def parse_u16_def parse_u64_def
  by (simp add: is_ascii_digit_def Let_def)

subsection \<open>Invariant of a profile\<close>

text \<open>The profiles a client can hold: built by the constructor and the builder calls.\<close>

inductive profile_held :: "ManagedProfile \<Rightarrow> bool" where
  held_profile: "managed_profile_new cap obs pool api = Ok p \<Longrightarrow> profile_held p"
| held_pool: "profile_held p \<Longrightarrow> with_auto_pool p pool = Ok q \<Longrightarrow> profile_held q"
| held_stack: "profile_held p \<Longrightarrow> profile_held (with_tun_stack p stack)"
| held_options: "profile_held p \<Longrightarrow> profile_held (with_options p opts)"

definition profile_wf :: "ManagedProfile \<Rightarrow> bool" where
  "profile_wf p \<longleftrightarrow>
     length (outbounds p) \<le> MAX_MANAGED_NODES
     \<and> set (map ob_tag (outbounds p)) \<inter> set RESERVED_TAGS = {}
     \<and> length (auto_pool p) \<le> MAX_AUTO_NODES \<and> distinct (auto_pool p)
     \<and> set (auto_pool p) \<subseteq> set (map ob_tag (outbounds p))
     \<and> (auto_pool p = [] \<longleftrightarrow> outbounds p = [])"

lemma remdups_length_distinct: "length (remdups xs) \<noteq> length xs \<longleftrightarrow> \<not> distinct xs"
  by (metis length_remdups_card_conv distinct_card card_distinct)

lemma with_auto_pool_Ok:
  assumes "with_auto_pool p pool = Ok q"
  shows "q = p\<lparr>auto_pool := pool\<rparr>" "length pool \<le> MAX_AUTO_NODES" "distinct pool"
    "set pool \<subseteq> set (map ob_tag (outbounds p))" "pool = [] \<longleftrightarrow> outbounds p = []"
  using assms by (auto simp: with_auto_pool_def remdups_length_distinct list_ex_iff)

lemma profile_held_wf: "profile_held p \<Longrightarrow> profile_wf p"
proof (induction rule: profile_held.induct)
  case (held_profile cap obs pool api p)
  then have "with_auto_pool \<lparr>capture = cap, outbounds = obs, auto_pool = [], clash_api = api,
      tun_stack = Gvisor, options = managed_options_default\<rparr> pool = Ok p"
    and "length obs \<le> MAX_MANAGED_NODES" "\<not> list_ex (\<lambda>outbound. ob_tag outbound \<in> set RESERVED_TAGS) obs"
    by (auto simp: managed_profile_new_def)
  with with_auto_pool_Ok [OF this(1)] show ?case by (auto simp: profile_wf_def list_ex_iff)
next
  case (held_pool p pool q)
  with with_auto_pool_Ok [OF held_pool(2)] show ?case by (auto simp: profile_wf_def)
qed (simp_all add: profile_wf_def with_tun_stack_def with_options_def)

text \<open>Normalisation sorts the outbounds by tag and rejects an empty list and repeated tags.\<close>

lemma normalize_outbounds_eq:
  "normalize_outbounds obs =
     (if obs = [] then Err EmptyOutbounds
      else if \<not> distinct (map ob_tag obs) then Err DuplicateTag
      else Ok (sort_key ob_tag obs))"
proof -
  have "distinct (map ob_tag (sort_key ob_tag obs)) \<longleftrightarrow> distinct (map ob_tag obs)"
    by (metis mset_eq_imp_distinct_iff mset_map mset_sort)
  then show ?thesis
    by (simp add: normalize_outbounds_def Let_def sorted_windows [OF sorted_sort_key])
qed

lemma normalize_outbounds_Ok:
  "normalize_outbounds obs = Ok s \<longleftrightarrow>
     obs \<noteq> [] \<and> distinct (map ob_tag obs) \<and> s = sort_key ob_tag obs"
  by (auto simp: normalize_outbounds_eq)

lemma normalize_outbounds_perm:
  assumes "mset obs = mset obs'"
  shows "normalize_outbounds obs = normalize_outbounds obs'"
proof -
  have "sort_key ob_tag obs = sort_key ob_tag obs'" if "distinct (map ob_tag obs)"
    using that assms by (intro sort_key_inj_key_eq) (simp_all add: distinct_map)
  moreover have "distinct (map ob_tag obs) \<longleftrightarrow> distinct (map ob_tag obs')"
    using assms by (metis mset_eq_imp_distinct_iff mset_map)
  ultimately show ?thesis using assms by (auto simp: normalize_outbounds_eq)
qed

text \<open>Composing a profile that can be held: its only failures are those of the outbound list and of
  the encoding.\<close>

lemma from_profile_wf:
  assumes "profile_wf p" "outbounds p \<noteq> []" "distinct (map ob_tag (outbounds p))"
  shows "from_profile to_vec sha256 p =
    from_value to_vec sha256
      (profile_value (p\<lparr>outbounds := sort_key ob_tag (outbounds p)\<rparr>) (hd (auto_pool p)))
      (length (outbounds p))"
proof -
  have ok: "normalize_outbounds (outbounds p) = Ok (sort_key ob_tag (outbounds p))"
    using assms by (simp add: normalize_outbounds_Ok)
  obtain t ts where pool: "auto_pool p = t # ts"
    using assms by (auto simp: profile_wf_def neq_Nil_conv)
  have "set (auto_pool p) \<subseteq> ob_tag ` set (outbounds p)" using assms(1) by (simp add: profile_wf_def)
  with ok pool show ?thesis by (auto simp: from_profile_def Let_def list_ex_iff)
qed

subsection \<open>References inside a configuration\<close>

text \<open>What a configuration declares and what its own entries refer to: outbounds by tag (from route
  rules, the route's final outbound, the detour of a DNS server and the selector), DNS servers by
  tag (from the resolve and DNS rules, the final server and the default resolver) and rule sets by
  tag (from route and DNS rules).\<close>

definition tags_of :: "json list \<Rightarrow> string list" where
  "tags_of vs = concat (map (\<lambda>v. str_member v ''tag'') vs)"

definition strs_of :: "string \<Rightarrow> json list \<Rightarrow> string list" where
  "strs_of k vs = concat (map (\<lambda>v. str_member v k) vs)"

definition lists_of :: "string \<Rightarrow> json list \<Rightarrow> string list" where
  "lists_of k vs = concat (map (\<lambda>v. strs_member v k) vs)"

definition outbound_refs :: "json \<Rightarrow> string list" where
  "outbound_refs v =
     (let route = member v ''route'';
          selectors = filter (\<lambda>out. str_member out ''tag'' = [SELECT_TAG]) (items_member v ''outbounds'')
      in strs_of ''outbound'' (items_member route ''rules'')
         @ str_member route ''final''
         @ strs_of ''detour'' (items_member (member v ''dns'') ''servers'')
         @ lists_of ''outbounds'' selectors @ strs_of ''default'' selectors)"

definition server_refs :: "json \<Rightarrow> string list" where
  "server_refs v =
     strs_of ''server'' (items_member (member v ''route'') ''rules'')
     @ strs_of ''server'' (items_member (member v ''dns'') ''rules'')
     @ str_member (member v ''dns'') ''final''
     @ str_member (member v ''route'') ''default_domain_resolver''"

definition rule_set_refs :: "json \<Rightarrow> string list" where
  "rule_set_refs v =
     lists_of ''rule_set'' (items_member (member v ''route'') ''rules'')
     @ lists_of ''rule_set'' (items_member (member v ''dns'') ''rules'')"

definition closed_config :: "json \<Rightarrow> bool" where
  "closed_config v \<longleftrightarrow>
     (let outs = tags_of (items_member v ''outbounds'')
      in distinct outs
         \<and> list_all (\<lambda>r. r \<in> set outs) (outbound_refs v)
         \<and> list_all (\<lambda>r. r \<in> set (tags_of (items_member (member v ''dns'') ''servers''))) (server_refs v)
         \<and> list_all (\<lambda>r. r \<in> set (tags_of (items_member (member v ''route'') ''rule_set'')))
             (rule_set_refs v))"

lemma strs_of_simps [simp]:
  "strs_of k [] = []" "strs_of k (v # vs) = str_member v k @ strs_of k vs"
  "strs_of k (vs @ ws) = strs_of k vs @ strs_of k ws"
  by (simp_all add: strs_of_def)

lemma lists_of_simps [simp]:
  "lists_of k [] = []" "lists_of k (v # vs) = strs_member v k @ lists_of k vs"
  "lists_of k (vs @ ws) = lists_of k vs @ lists_of k ws"
  by (simp_all add: lists_of_def)

lemma tags_of_simps [simp]:
  "tags_of [] = []" "tags_of (v # vs) = str_member v ''tag'' @ tags_of vs"
  "tags_of (vs @ ws) = tags_of vs @ tags_of ws"
  by (simp_all add: tags_of_def)

lemma member_object [simp]:
  "member (json_object entries) k = (case map_of (rev entries) k of Some w \<Rightarrow> w | None \<Rightarrow> JNull)"
  by (simp add: member_def)

text \<open>A node's own \<open>tag\<close> and \<open>type\<close> fields are always the ones it was built with.\<close>

lemma to_json_members:
  "str_member (to_json out) ''tag'' = [ob_tag out]"
  "str_member (to_json out) ''type'' = [ob_protocol out]"
  by (simp_all add: to_json_def str_member_def member_def jget_def Let_def bt_get_insert
      bt_wf_insert)

lemma tags_of_to_json [simp]: "tags_of (map to_json obs) = map ob_tag obs"
  by (induction obs) (simp_all add: to_json_members)

lemma profile_outbounds_tags:
  "tags_of (profile_outbounds node_tags default_tag obs) =
     [DIRECT_TAG, BLOCK_TAG, SELECT_TAG] @ map ob_tag obs"
  by (simp add: profile_outbounds_def str_member_def)

lemma selector_only:
  assumes "SELECT_TAG \<notin> set (map ob_tag obs)"
  shows "filter (\<lambda>out. str_member out ''tag'' = [SELECT_TAG]) (profile_outbounds node_tags default_tag obs) =
    [json_object
        [(''type'', JStr ''selector''), (''tag'', JStr SELECT_TAG),
         (''outbounds'', json_strings node_tags), (''default'', JStr default_tag),
         (''interrupt_exist_connections'', JBool False)]]"
proof -
  have "filter (\<lambda>out. str_member out ''tag'' = [SELECT_TAG]) (map to_json obs) = []"
    using assms by (auto simp: filter_empty_conv to_json_members rev_image_eqI)
  then show ?thesis by (simp add: profile_outbounds_def str_member_def)
qed

lemma route_rule_outbounds:
  "set (strs_of ''outbound'' (route_rules opts)) \<subseteq> {DIRECT_TAG, BLOCK_TAG, SELECT_TAG}"
  by (simp add: route_rules_def str_member_def list_rule_def)

lemma route_rule_servers: "set (strs_of ''server'' (route_rules opts)) \<subseteq> {''dns-proxy''}"
  by (simp add: route_rules_def str_member_def list_rule_def)

lemma dns_rule_servers: "set (strs_of ''server'' (dns_rules opts)) \<subseteq> {''dns-proxy'', ''dns-direct''}"
  by (simp add: dns_rules_def str_member_def list_rule_def)

lemma rule_set_references:
  "set (lists_of ''rule_set'' (route_rules opts)) \<subseteq> set (tags_of (route_rule_sets opts))"
  "set (lists_of ''rule_set'' (dns_rules opts)) \<subseteq> set (tags_of (route_rule_sets opts))"
  by (simp_all add: route_rules_def dns_rules_def route_rule_sets_def local_rule_set_def
      strs_member_def items_member_def str_member_def list_rule_def)

lemma profile_value_members:
  "items_member (profile_value p d) ''outbounds'' =
     profile_outbounds (map ob_tag (outbounds p)) d (outbounds p)"
  "items_member (member (profile_value p d) ''route'') ''rules'' = route_rules (options p)"
  "items_member (member (profile_value p d) ''route'') ''rule_set'' = route_rule_sets (options p)"
  "str_member (member (profile_value p d) ''route'') ''final'' = [route_final (options p)]"
  "str_member (member (profile_value p d) ''route'') ''default_domain_resolver'' = [''dns-direct'']"
  "items_member (member (profile_value p d) ''dns'') ''rules'' = dns_rules (options p)"
  "str_member (member (profile_value p d) ''dns'') ''final'' = [dns_final (options p)]"
  by (simp_all add: profile_value_def items_member_def str_member_def Let_def)

lemma profile_value_servers:
  "tags_of (items_member (member (profile_value p d) ''dns'') ''servers'') = [''dns-direct'', ''dns-proxy'']"
  "strs_of ''detour'' (items_member (member (profile_value p d) ''dns'') ''servers'') = [SELECT_TAG]"
  by (simp_all add: profile_value_def items_member_def str_member_def dns_server_def Let_def)

lemma profile_value_closed:
  assumes "distinct (map ob_tag (outbounds p))" "d \<in> set (map ob_tag (outbounds p))"
    "set (map ob_tag (outbounds p)) \<inter> set RESERVED_TAGS = {}"
  shows "closed_config (profile_value p d)"
proof -
  let ?v = "profile_value p d"
  note outs = profile_outbounds_tags [of "map ob_tag (outbounds p)" d "outbounds p"]
  have free: "DIRECT_TAG \<notin> set (map ob_tag (outbounds p))" "BLOCK_TAG \<notin> set (map ob_tag (outbounds p))"
      "SELECT_TAG \<notin> set (map ob_tag (outbounds p))"
    using assms(3) by (auto simp: RESERVED_TAGS_def)
  have refs: "outbound_refs ?v = strs_of ''outbound'' (route_rules (options p))
      @ [route_final (options p), SELECT_TAG] @ map ob_tag (outbounds p) @ [d]"
    unfolding outbound_refs_def Let_def profile_value_members profile_value_servers
      selector_only [OF free(3)]
    by (simp add: strs_member_def items_member_def str_member_def)
  have "distinct (tags_of (items_member ?v ''outbounds''))"
    unfolding profile_value_members outs using assms(1) free by simp
  moreover have "set (outbound_refs ?v) \<subseteq> set (tags_of (items_member ?v ''outbounds''))"
    unfolding refs profile_value_members outs
    using route_rule_outbounds [of "options p"] assms(2)
    by (auto simp: route_final_def split: ManagedOutboundMode.split)
  moreover have "set (server_refs ?v) \<subseteq> {''dns-direct'', ''dns-proxy''}"
    using route_rule_servers [of "options p"] dns_rule_servers [of "options p"]
    by (simp add: server_refs_def profile_value_members dns_final_def split: ManagedOutboundMode.split)
      blast
  moreover have "set (rule_set_refs ?v) \<subseteq> set (tags_of (route_rule_sets (options p)))"
    using rule_set_references [of "options p"] by (simp add: rule_set_refs_def profile_value_members)
  ultimately show ?thesis
    unfolding closed_config_def Let_def list_all_iff profile_value_servers profile_value_members
    by (simp add: subset_iff)
qed

subsection \<open>Properties\<close>


definition sample_outbound :: "string \<Rightarrow> TerminalOutbound" where
  "sample_outbound tag = \<lparr>ob_tag = tag, ob_protocol = ''vless'', ob_fields = []\<rparr>"

definition sample_capture :: CapturePolicy where
  "sample_capture = built_policy Tproxy True True True (Some 7893) (Some 1) [] []"

definition sample_api :: ClashApi where
  "sample_api = \<lparr>endpoint = ''127.0.0.1:9090'', secret = replicate 32 CHR ''s''\<rparr>"

definition sample_profile :: ManagedProfile where
  "sample_profile =
     \<lparr>capture = sample_capture, outbounds = [sample_outbound ''b'', sample_outbound ''a''],
      auto_pool = [''a''], clash_api = sample_api, tun_stack = Gvisor,
      options = managed_options_default\<rparr>"

lemma sample_profile_new:
  "managed_profile_new sample_capture [sample_outbound ''b'', sample_outbound ''a''] [''a''] sample_api =
     Ok sample_profile"
  by (simp add: managed_profile_new_def with_auto_pool_def composer_limits RESERVED_TAGS_def
      sample_outbound_def sample_profile_def is_ascii_control_def)


text \<open>C22. Composition depends on the set of outbounds and not on their order: permuting them gives
  the same configuration, or the same error.\<close>

theorem composition_ignores_order:
  assumes "mset (outbounds p) = mset obs"
  shows "from_profile to_vec sha256 p = from_profile to_vec sha256 (p\<lparr>outbounds := obs\<rparr>)
    \<and> from_outbounds to_vec sha256 (outbounds p) = from_outbounds to_vec sha256 obs"
  using normalize_outbounds_perm [OF assms] by (simp add: from_profile_def from_outbounds_def)

theorem composition_ignores_order_witness:
  "from_profile (\<lambda>_. Ok ''{}'') (\<lambda>_. []) sample_profile =
     from_profile (\<lambda>_. Ok ''{}'') (\<lambda>_. [])
       (sample_profile\<lparr>outbounds := [sample_outbound ''a'', sample_outbound ''b'']\<rparr>)"
  using composition_ignores_order
    [of sample_profile "[sample_outbound ''a'', sample_outbound ''b'']" "\<lambda>_. Ok ''{}''" "\<lambda>_. []"]
  by (simp add: sample_profile_def add_mset_commute)




end
