(* ===== verification/Sources.thy ===== *)
theory Sources
  imports Json
begin

section \<open>Subscription sources and their identities\<close>

text \<open>
  The data of nethopd/src/source_config.rs and the identities it keeps: source IDs
  (nethop-subscription/src/payload.rs), the configured sources of a snapshot (config_model.rs), the
  registry's bindings, the assignment of IDs to the sources of a new configuration, and the digest
  that names a source configuration. \<open>Sha256\<close> is the argument \<open>sha256\<close>; the entropy trait is
  a function on a state of its own.
\<close>

subsection \<open>Data\<close>

type_synonym SourceId = string

datatype SourceIdError = SI_Empty | SI_TooLong | SI_InvalidCharacter

definition source_id_byte :: "char \<Rightarrow> bool" where
  "source_id_byte c \<longleftrightarrow> is_ascii_alphanumeric c \<or> c \<in> set ''._:-''"

definition source_id_new :: "string \<Rightarrow> (SourceIdError, SourceId) rresult" where
  "source_id_new value =
     (if value = [] then Err SI_Empty
      else if length value > 128 then Err SI_TooLong
      else if \<not> list_all source_id_byte value then Err SI_InvalidCharacter
      else Ok value)"

definition MANUAL_SOURCE_ID :: SourceId where
  "MANUAL_SOURCE_ID = ''src_'' @ replicate 32 CHR ''0''"

datatype FormatHint =
  FH_Auto | FH_UriList | FH_Base64List | FH_ClashYaml | FH_SingboxJson | FH_IniProfile | FH_SurfboardIni

datatype SourceFormatHint =
  SF_Auto | SF_UriList | SF_Base64List | SF_ClashYaml | SF_SingboxJson | SF_SurfboardIni

fun parser_hint :: "SourceFormatHint \<Rightarrow> FormatHint" where
  "parser_hint SF_Auto = FH_Auto"
| "parser_hint SF_UriList = FH_UriList"
| "parser_hint SF_Base64List = FH_Base64List"
| "parser_hint SF_ClashYaml = FH_ClashYaml"
| "parser_hint SF_SingboxJson = FH_SingboxJson"
| "parser_hint SF_SurfboardIni = FH_SurfboardIni"

datatype RequestProfile =
  NetHopGeneric | Mihomo | ClashStandard | Surfboard | SingBox | SingBoxAndroid

datatype ProxyProtocol =
  Vless | Vmess | Shadowsocks | Trojan | Hysteria2 | Tuic | AnyTls | Http | Socks

datatype SubscriptionMode = Single | Merge

record NodeFilter =
  include_names :: "string list"
  exclude_names :: "string list"
  excluded_node_ids :: "string list"
  protocols :: "ProxyProtocol list"

record UserSource =
  us_name :: string
  us_enabled :: bool
  us_url :: string
  us_request_profile :: RequestProfile
  us_format_hint :: SourceFormatHint
  us_mirrors :: "string list"
  us_filter :: NodeFilter

text \<open>Of a configuration snapshot: its digest, the subscription mode and the configured sources.\<close>

record ConfigSnapshot =
  snap_digest :: string
  snap_mode :: SubscriptionMode
  snap_sources :: "UserSource list"

record SourceDefinition =
  sd_id :: SourceId
  sd_name :: string
  sd_enabled :: bool
  sd_url :: string
  sd_mirrors :: "string list"
  sd_expected_format :: FormatHint
  sd_request_profile :: RequestProfile
  sd_filter :: NodeFilter

record SourceConfig =
  sc_digest :: string
  sc_config_digest :: string
  sc_mode :: SubscriptionMode
  sc_sources :: "SourceDefinition list"

datatype SourceRegistryError =
    InvalidPath
  | InvalidRegistry
  | CorruptRegistry
  | EntropyUnavailable
  | IdentityCollision
  | UnknownSource
  | InvalidAttribution
  | TooManyAttributions
  | WriteFailed

definition configured_sources :: "SourceConfig \<Rightarrow> SourceDefinition list" where
  "configured_sources cfg = filter (\<lambda>source. sd_url source \<noteq> []) (sc_sources cfg)"

definition active_sources :: "SourceConfig \<Rightarrow> SourceDefinition list" where
  "active_sources cfg = filter (\<lambda>source. sd_enabled source \<and> sd_url source \<noteq> []) (sc_sources cfg)"

datatype SourceUpdateParticipation = ActiveGeneration | InactiveCacheOnly

definition update_participation ::
  "SourceConfig \<Rightarrow> SourceId \<Rightarrow> (SourceRegistryError, SourceUpdateParticipation) rresult" where
  "update_participation cfg source_id =
     and_then (ok_or UnknownSource (find (\<lambda>source. sd_id source = source_id) (sc_sources cfg)))
       (\<lambda>source. Ok (if sd_enabled source \<and> sd_url source \<noteq> [] then ActiveGeneration
                     else InactiveCacheOnly))"

record SourceActiveSetItem =
  item_id :: SourceId
  item_name :: string
  item_configured :: bool
  item_active :: bool

record SourceActiveSetSnapshot =
  set_mode :: SubscriptionMode
  active_source_ids :: "SourceId list"
  set_sources :: "SourceActiveSetItem list"
  set_config_digest :: string

definition active_set_snapshot :: "SourceConfig \<Rightarrow> SourceActiveSetSnapshot" where
  "active_set_snapshot cfg =
     \<lparr>set_mode = sc_mode cfg,
      active_source_ids = map sd_id (active_sources cfg),
      set_sources = map (\<lambda>source. \<lparr>item_id = sd_id source, item_name = sd_name source,
        item_configured = (sd_url source \<noteq> []),
        item_active = (sd_enabled source \<and> sd_url source \<noteq> [])\<rparr>) (sc_sources cfg),
      set_config_digest = sc_config_digest cfg\<rparr>"

subsection \<open>Node attributions\<close>

definition MAX_SOURCES :: nat where
  "MAX_SOURCES = 16"

text \<open>The loop keeps the first occurrence of each ID and stops as soon as it holds too many.\<close>

fun attribution_loop :: "SourceId list \<Rightarrow> SourceId list \<Rightarrow> (SourceRegistryError, SourceId list) rresult"
  where
  "attribution_loop ordered [] = Ok ordered"
| "attribution_loop ordered (source_id # rest) =
     (let ordered = (if source_id \<in> set ordered then ordered else ordered @ [source_id])
      in if length ordered > MAX_SOURCES then Err TooManyAttributions
         else attribution_loop ordered rest)"

definition node_attribution_new :: "SourceId list \<Rightarrow> (SourceRegistryError, SourceId list) rresult" where
  "node_attribution_new source_ids =
     and_then (attribution_loop [] source_ids)
       (\<lambda>ordered. if ordered = [] then Err InvalidAttribution else Ok ordered)"

subsection \<open>Registry bindings\<close>

record RegistryEntry =
  re_source_id :: SourceId
  re_name_digest :: string
  re_url_digest :: string

record RegistryBinding =
  rb_config_digest :: string
  rb_entries :: "RegistryEntry list"

record RegistryState =
  rg_schema :: string
  rg_active :: "RegistryBinding option"
  rg_pending :: "RegistryBinding option"

definition REGISTRY_SCHEMA :: string where
  "REGISTRY_SCHEMA = ''nethop-source-registry-v1''"

definition registry_empty :: RegistryState where
  "registry_empty = \<lparr>rg_schema = REGISTRY_SCHEMA, rg_active = None, rg_pending = None\<rparr>"

fun validate_entries :: "SourceId list \<Rightarrow> RegistryEntry list \<Rightarrow> (SourceRegistryError, unit) rresult" where
  "validate_entries ids [] = Ok ()"
| "validate_entries ids (entry # rest) =
     (if is_err (source_id_new (re_source_id entry)) then Err CorruptRegistry
      else if re_source_id entry \<in> set ids \<or> length (re_name_digest entry) \<noteq> 64
              \<or> length (re_url_digest entry) \<noteq> 64
      then Err CorruptRegistry
      else validate_entries (re_source_id entry # ids) rest)"

fun validate_bindings :: "RegistryBinding list \<Rightarrow> (SourceRegistryError, unit) rresult" where
  "validate_bindings [] = Ok ()"
| "validate_bindings (binding # rest) =
     (if length (rb_config_digest binding) \<noteq> 64 \<or> length (rb_entries binding) > 16
      then Err CorruptRegistry
      else and_then (validate_entries [] (rb_entries binding)) (\<lambda>_. validate_bindings rest))"

definition option_list :: "'a option \<Rightarrow> 'a list" where
  "option_list v = (case v of None \<Rightarrow> [] | Some x \<Rightarrow> [x])"

definition registry_validate :: "RegistryState \<Rightarrow> (SourceRegistryError, unit) rresult" where
  "registry_validate st =
     (if rg_schema st \<noteq> REGISTRY_SCHEMA then Err CorruptRegistry
      else validate_bindings (option_list (rg_active st) @ option_list (rg_pending st)))"

definition text_digest :: "(bytes \<Rightarrow> bytes) \<Rightarrow> string \<Rightarrow> string" where
  "text_digest sha256 value = hex (sha256 value)"

definition binding_matches ::
  "(bytes \<Rightarrow> bytes) \<Rightarrow> RegistryBinding \<Rightarrow> ConfigSnapshot \<Rightarrow> bool" where
  "binding_matches sha256 binding snapshot \<longleftrightarrow>
     rb_config_digest binding = snap_digest snapshot
     \<and> length (rb_entries binding) = length (snap_sources snapshot)
     \<and> list_all (\<lambda>(entry, source).
           re_name_digest entry = text_digest sha256 (us_name source)
           \<and> re_url_digest entry = text_digest sha256 (us_url source))
         (zip (rb_entries binding) (snap_sources snapshot))"

definition define_source :: "SourceId \<Rightarrow> UserSource \<Rightarrow> SourceDefinition" where
  "define_source sid source =
     \<lparr>sd_id = sid, sd_name = us_name source, sd_enabled = us_enabled source, sd_url = us_url source,
      sd_mirrors = us_mirrors source, sd_expected_format = parser_hint (us_format_hint source),
      sd_request_profile = us_request_profile source, sd_filter = us_filter source\<rparr>"

subsection \<open>Assigning IDs\<close>

definition MAX_ID_ATTEMPTS :: nat where
  "MAX_ID_ATTEMPTS = 16"

text \<open>\<open>find_entry\<close>: the first unclaimed entry that satisfies the predicate, by index.\<close>

definition find_entry :: "RegistryEntry list \<Rightarrow> nat list \<Rightarrow> (RegistryEntry \<Rightarrow> bool) \<Rightarrow> nat option" where
  "find_entry entries claimed predicate =
     map_option fst
       (find (\<lambda>(index, entry). index \<notin> set claimed \<and> predicate entry)
         (zip [0..<length entries] entries))"

fun allocate_loop ::
  "nat \<Rightarrow> ('e \<Rightarrow> (SourceRegistryError, bytes) rresult \<times> 'e) \<Rightarrow> SourceId list \<Rightarrow> RegistryEntry list
   \<Rightarrow> 'e \<Rightarrow> (SourceRegistryError, SourceId) rresult \<times> 'e" where
  "allocate_loop 0 fill assigned previous e = (Err IdentityCollision, e)"
| "allocate_loop (Suc n) fill assigned previous e =
     (case fill e of
        (Inl err, e) \<Rightarrow> (Err err, e)
      | (Inr bytes, e) \<Rightarrow>
          (case source_id_new (''src_'' @ hex bytes) of
             Inl _ \<Rightarrow> (Err InvalidRegistry, e)
           | Inr sid \<Rightarrow>
               if sid \<noteq> MANUAL_SOURCE_ID \<and> sid \<notin> set assigned
                  \<and> list_all (\<lambda>entry. re_source_id entry \<noteq> sid) previous
               then (Ok sid, e)
               else allocate_loop n fill assigned previous e))"

definition allocate_id ::
  "('e \<Rightarrow> (SourceRegistryError, bytes) rresult \<times> 'e) \<Rightarrow> SourceId list \<Rightarrow> RegistryEntry list
   \<Rightarrow> 'e \<Rightarrow> (SourceRegistryError, SourceId) rresult \<times> 'e" where
  "allocate_id = allocate_loop MAX_ID_ATTEMPTS"

text \<open>Which previous entry a source takes: the preferred one when the caller names it, otherwise the
  first unclaimed entry with its URL, otherwise the first with its name.\<close>

definition matched_entry ::
  "(bytes \<Rightarrow> bytes) \<Rightarrow> RegistryEntry list \<Rightarrow> nat list \<Rightarrow> SourceId option \<Rightarrow> UserSource
   \<Rightarrow> (SourceRegistryError, nat option) rresult" where
  "matched_entry sha256 previous claimed preferred source =
     (let by_url = (if us_url source \<noteq> []
            then find_entry previous claimed
              (\<lambda>entry. re_url_digest entry = text_digest sha256 (us_url source))
            else None);
          by_name = find_entry previous claimed
              (\<lambda>entry. re_name_digest entry = text_digest sha256 (us_name source));
          matched = (case by_url of Some index \<Rightarrow> Some index | None \<Rightarrow> by_name)
      in case preferred of
           None \<Rightarrow> Ok matched
         | Some sid \<Rightarrow>
             (case find_entry previous claimed (\<lambda>entry. re_source_id entry = sid) of
                None \<Rightarrow> Err InvalidRegistry
              | Some index \<Rightarrow> Ok (Some index)))"

definition choose_id ::
  "(bytes \<Rightarrow> bytes) \<Rightarrow> ('e \<Rightarrow> (SourceRegistryError, bytes) rresult \<times> 'e) \<Rightarrow> RegistryEntry list
   \<Rightarrow> nat list \<Rightarrow> SourceId list \<Rightarrow> SourceId option \<Rightarrow> UserSource \<Rightarrow> 'e
   \<Rightarrow> (SourceRegistryError, SourceId \<times> nat list) rresult \<times> 'e" where
  "choose_id sha256 fill previous claimed assigned preferred source e =
     (case matched_entry sha256 previous claimed preferred source of
        Inl err \<Rightarrow> (Err err, e)
      | Inr (Some index) \<Rightarrow> (Ok (re_source_id (previous ! index), index # claimed), e)
      | Inr None \<Rightarrow>
          (case allocate_id fill assigned previous e of
             (Inl err, e) \<Rightarrow> (Err err, e)
           | (Inr sid, e) \<Rightarrow> (Ok (sid, claimed), e)))"

fun assign_sources ::
  "(bytes \<Rightarrow> bytes) \<Rightarrow> ('e \<Rightarrow> (SourceRegistryError, bytes) rresult \<times> 'e) \<Rightarrow> RegistryEntry list
   \<Rightarrow> SourceId option list \<Rightarrow> nat list \<Rightarrow> SourceId list \<Rightarrow> UserSource list \<Rightarrow> 'e
   \<Rightarrow> (SourceRegistryError, RegistryEntry list \<times> SourceDefinition list) rresult \<times> 'e" where
  "assign_sources sha256 fill previous preferred claimed assigned [] e = (Ok ([], []), e)"
| "assign_sources sha256 fill previous preferred claimed assigned (source # sources) e =
     (case choose_id sha256 fill previous claimed assigned
             (case preferred of [] \<Rightarrow> None | p # _ \<Rightarrow> p) source e of
        (Inl err, e) \<Rightarrow> (Err err, e)
      | (Inr (sid, claimed), e) \<Rightarrow>
          (case assign_sources sha256 fill previous (tl preferred) claimed (sid # assigned) sources e of
             (Inl err, e) \<Rightarrow> (Err err, e)
           | (Inr (entries, defs), e) \<Rightarrow>
               (Ok (\<lparr>re_source_id = sid,
                     re_name_digest = text_digest sha256 (us_name source),
                     re_url_digest = text_digest sha256 (us_url source)\<rparr> # entries,
                    define_source sid source # defs), e)))"

subsection \<open>The digest of a source configuration\<close>

text \<open>\<open>(n as u32).to_be_bytes()\<close>; \<^const>\<open>char_of\<close> keeps the low eight bits.\<close>

definition be32 :: "nat \<Rightarrow> bytes" where
  "be32 n = [char_of (n div 2 ^ 24), char_of (n div 2 ^ 16), char_of (n div 2 ^ 8), char_of n]"

definition push_field :: "bytes \<Rightarrow> bytes" where
  "push_field value = be32 (length value) @ value"

fun protocol_code :: "ProxyProtocol \<Rightarrow> nat" where
  "protocol_code Vless = 0"
| "protocol_code Vmess = 1"
| "protocol_code Shadowsocks = 2"
| "protocol_code Trojan = 3"
| "protocol_code Hysteria2 = 4"
| "protocol_code Tuic = 5"
| "protocol_code AnyTls = 6"
| "protocol_code Http = 7"
| "protocol_code Socks = 8"

fun format_code :: "FormatHint \<Rightarrow> nat" where
  "format_code FH_Auto = 0"
| "format_code FH_UriList = 1"
| "format_code FH_Base64List = 2"
| "format_code FH_ClashYaml = 3"
| "format_code FH_SingboxJson = 4"
| "format_code FH_IniProfile = 5"
| "format_code FH_SurfboardIni = 6"

fun profile_code :: "RequestProfile \<Rightarrow> nat" where
  "profile_code NetHopGeneric = 0"
| "profile_code Mihomo = 1"
| "profile_code ClashStandard = 2"
| "profile_code Surfboard = 3"
| "profile_code SingBox = 4"
| "profile_code SingBoxAndroid = 5"

definition mode_code :: "SubscriptionMode \<Rightarrow> nat" where
  "mode_code mode = (case mode of Single \<Rightarrow> 1 | Merge \<Rightarrow> 2)"

definition encode_list :: "('a \<Rightarrow> bytes) \<Rightarrow> 'a list \<Rightarrow> bytes" where
  "encode_list enc xs = be32 (length xs) @ concat (map enc xs)"

definition encode_source :: "(bytes \<Rightarrow> bytes) \<Rightarrow> SourceDefinition \<Rightarrow> bytes" where
  "encode_source sha256 source =
     push_field (sd_id source)
     @ [char_of (of_bool (sd_enabled source) :: nat)]
     @ push_field (text_digest sha256 (sd_url source))
     @ [char_of (format_code (sd_expected_format source))]
     @ [char_of (profile_code (sd_request_profile source))]
     @ encode_list (\<lambda>mirror. push_field (text_digest sha256 mirror)) (sd_mirrors source)
     @ encode_list push_field (include_names (sd_filter source))
     @ encode_list push_field (exclude_names (sd_filter source))
     @ encode_list push_field (excluded_node_ids (sd_filter source))
     @ encode_list (\<lambda>protocol. [char_of (protocol_code protocol)]) (protocols (sd_filter source))"

definition canonical_sources ::
  "(bytes \<Rightarrow> bytes) \<Rightarrow> SubscriptionMode \<Rightarrow> SourceDefinition list \<Rightarrow> bytes" where
  "canonical_sources sha256 mode sources =
     ''nethop-source-config-v3'' @ [char_of (0 :: nat)] @ [char_of (mode_code mode)]
     @ concat (map (encode_source sha256) sources)"

definition source_config_digest ::
  "(bytes \<Rightarrow> bytes) \<Rightarrow> SubscriptionMode \<Rightarrow> SourceDefinition list \<Rightarrow> string" where
  "source_config_digest sha256 mode sources = hex (sha256 (canonical_sources sha256 mode sources))"

text \<open>The two ways a configuration is built from a snapshot: over an existing binding, and over the
  fresh entries of an assignment.\<close>

definition source_config_from_binding ::
  "(bytes \<Rightarrow> bytes) \<Rightarrow> ConfigSnapshot \<Rightarrow> RegistryBinding \<Rightarrow> SourceConfig" where
  "source_config_from_binding sha256 snapshot binding =
     (let sources = map (\<lambda>(entry, source). define_source (re_source_id entry) source)
            (zip (rb_entries binding) (snap_sources snapshot))
      in \<lparr>sc_digest = source_config_digest sha256 (snap_mode snapshot) sources,
          sc_config_digest = snap_digest snapshot, sc_mode = snap_mode snapshot,
          sc_sources = sources\<rparr>)"

subsection \<open>Prefix codes\<close>

text \<open>A code can be concatenated without separators when an encoding is never a proper prefix of
  another one, in the strong form that equal texts start with equal values.\<close>

locale prefix_code =
  fixes enc :: "'a \<Rightarrow> bytes" and dom :: "'a \<Rightarrow> bool"
  assumes cancel: "dom a \<Longrightarrow> dom b \<Longrightarrow> enc a @ x = enc b @ y \<Longrightarrow> a = b \<and> x = y"
begin

lemma concat_cancel:
  assumes "list_all dom as" "list_all dom bs" "length as = length bs"
    "concat (map enc as) @ x = concat (map enc bs) @ y"
  shows "as = bs \<and> x = y"
  using assms(3,1,2,4)
proof (induction as bs rule: list_induct2)
  case (Cons a as b bs)
  then have "dom a" "dom b" "enc a @ (concat (map enc as) @ x) = enc b @ (concat (map enc bs) @ y)"
    by simp_all
  then have "a = b \<and> concat (map enc as) @ x = concat (map enc bs) @ y" by (rule cancel)
  with Cons.IH Cons.prems(1,2) show ?case by simp
qed simp

end

lemma be32_inject:
  assumes "m < 2 ^ 32" "n < 2 ^ 32" "be32 m = be32 n"
  shows "m = n"
proof -
  have join: "a = b" if "a div 256 = b div 256" "a mod 256 = b mod 256" for a b :: nat
    using that by (metis div_mult_mod_eq)
  have shift: "k div 2 ^ 16 div 256 = k div 2 ^ 24" "k div 2 ^ 8 div 256 = k div 2 ^ 16"
      "k div 256 = k div 2 ^ 8" for k :: nat
    by (simp_all add: div_mult2_eq [symmetric])
  have eq: "m div 2 ^ 24 mod 256 = n div 2 ^ 24 mod 256" "m div 2 ^ 16 mod 256 = n div 2 ^ 16 mod 256"
      "m div 2 ^ 8 mod 256 = n div 2 ^ 8 mod 256" "m mod 256 = n mod 256"
    using assms(3) unfolding be32_def by (simp_all only: list.inject char_of_quasi_inj)
  have "k div 2 ^ 24 < 256" if "k < 2 ^ 32" for k :: nat
    using that by (simp add: div_less_iff_less_mult)
  note top = this [OF assms(1)] this [OF assms(2)]
  have e24: "m div 2 ^ 24 = n div 2 ^ 24" using eq(1) by (simp only: mod_less [OF top(1)] mod_less [OF top(2)])
  have e16: "m div 2 ^ 16 = n div 2 ^ 16" by (rule join) (simp_all only: shift(1) e24 eq(2))
  have e8: "m div 2 ^ 8 = n div 2 ^ 8" by (rule join) (simp_all only: shift(2) e16 eq(3))
  show ?thesis by (rule join) (simp_all only: shift(3) e8 eq(4))
qed

lemma be32_length [simp]: "length (be32 n) = 4"
  by (simp add: be32_def)

definition fits_u32 :: "'a list \<Rightarrow> bool" where
  "fits_u32 xs \<longleftrightarrow> length xs < 2 ^ 32"

lemma be32_cancel:
  assumes "m < 2 ^ 32" "n < 2 ^ 32" "be32 m @ x = be32 n @ y"
  shows "m = n \<and> x = y"
proof -
  have "be32 m = be32 n \<and> x = y"
    using assms(3) append_eq_append_conv [of "be32 m" "be32 n" x y] by (simp only: be32_length) simp
  then show ?thesis using be32_inject [OF assms(1,2)] by blast
qed

lemma push_field_cancel:
  assumes "fits_u32 a" "fits_u32 b" "push_field a @ x = push_field b @ y"
  shows "a = b \<and> x = y"
proof -
  have "be32 (length a) @ (a @ x) = be32 (length b) @ (b @ y)"
    using assms(3) by (simp only: push_field_def append_assoc)
  then have "length a = length b \<and> a @ x = b @ y"
    using assms(1,2) unfolding fits_u32_def by (intro be32_cancel)
  then show ?thesis using append_eq_append_conv [of a b x y] by blast
qed

interpretation field: prefix_code push_field fits_u32
  by unfold_locales (rule push_field_cancel)

lemma protocol_code_inject: "protocol_code p = protocol_code q \<longleftrightarrow> p = q"
  by (cases p; cases q) simp_all

lemma format_code_inject: "format_code p = format_code q \<longleftrightarrow> p = q"
  by (cases p; cases q) simp_all

lemma profile_code_inject: "profile_code p = profile_code q \<longleftrightarrow> p = q"
  by (cases p; cases q) simp_all

lemma protocol_code_mod: "protocol_code p mod 256 = protocol_code p"
  by (cases p) simp_all

lemma format_code_mod: "format_code p mod 256 = format_code p"
  by (cases p) simp_all

lemma profile_code_mod: "profile_code p mod 256 = profile_code p"
  by (cases p) simp_all

lemmas code_byte_inject = protocol_code_inject format_code_inject profile_code_inject
  protocol_code_mod format_code_mod profile_code_mod

interpretation protocol: prefix_code "\<lambda>protocol. [char_of (protocol_code protocol)]" "\<lambda>_. True"
  by unfold_locales (simp add: code_byte_inject)

text \<open>A counted list of encodings is again such a code.\<close>

context prefix_code
begin

lemma encode_list_cancel:
  assumes "fits_u32 as" "fits_u32 bs" "list_all dom as" "list_all dom bs"
    "encode_list enc as @ x = encode_list enc bs @ y"
  shows "as = bs \<and> x = y"
proof -
  have "be32 (length as) @ (concat (map enc as) @ x) = be32 (length bs) @ (concat (map enc bs) @ y)"
    using assms(5) by (simp only: encode_list_def append_assoc)
  then have "length as = length bs \<and> concat (map enc as) @ x = concat (map enc bs) @ y"
    using assms(1,2) unfolding fits_u32_def by (intro be32_cancel)
  then show ?thesis using concat_cancel assms(3,4) by blast
qed

end

subsection \<open>What an assignment gives\<close>

lemma find_entry_Some:
  assumes "find_entry entries claimed P = Some i"
  shows "i < length entries" "i \<notin> set claimed" "P (entries ! i)"
proof -
  obtain entry where "find (\<lambda>(index, entry). index \<notin> set claimed \<and> P entry)
      (zip [0..<length entries] entries) = Some (i, entry)"
    using assms by (auto simp: find_entry_def)
  then obtain k where "k < length entries" "(i, entry) = zip [0..<length entries] entries ! k"
      "i \<notin> set claimed" "P entry"
    by (auto simp: find_Some_iff)
  then show "i < length entries" "i \<notin> set claimed" "P (entries ! i)" by simp_all
qed

lemma find_entry_None:
  "find_entry entries claimed P = None \<longleftrightarrow> (\<forall>i<length entries. i \<in> set claimed \<or> \<not> P (entries ! i))"
proof -
  have "(i, entries ! i) \<in> set (zip [0..<length entries] entries)" if "i < length entries" for i
    using that by (auto simp: in_set_zip intro!: exI [of _ i])
  then show ?thesis by (fastforce simp: find_entry_def find_None_iff set_zip)
qed

definition previous_ids :: "RegistryEntry list \<Rightarrow> SourceId set" where
  "previous_ids previous = re_source_id ` set previous"

lemma allocate_loop_Ok:
  assumes "allocate_loop n fill assigned previous e = (Ok sid, e')"
  shows "sid \<noteq> MANUAL_SOURCE_ID \<and> sid \<notin> set assigned \<and> sid \<notin> previous_ids previous
    \<and> is_ok (source_id_new sid)"
  using assms
proof (induction n arbitrary: e)
  case (Suc n)
  have new: "source_id_new v = Ok w \<Longrightarrow> is_ok (source_id_new w)" for v w
    by (auto simp: source_id_new_def)
  show ?case
  proof (cases "fill e")
    case (Pair r e1)
    with Suc show ?thesis
      by (auto simp: previous_ids_def list_all_iff dest: new split: sum.splits if_splits)
  qed
qed simp

text \<open>A chosen ID is either fresh or that of an unclaimed previous entry, which is then claimed.\<close>

definition id_step ::
  "RegistryEntry list \<Rightarrow> nat list \<Rightarrow> SourceId list \<Rightarrow> SourceId \<Rightarrow> nat list \<Rightarrow> bool" where
  "id_step previous claimed assigned sid claimed' \<longleftrightarrow>
     claimed' = claimed \<and> sid \<noteq> MANUAL_SOURCE_ID \<and> sid \<notin> set assigned
       \<and> sid \<notin> previous_ids previous \<and> is_ok (source_id_new sid)
     \<or> (\<exists>i<length previous. i \<notin> set claimed \<and> sid = re_source_id (previous ! i) \<and> claimed' = i # claimed)"

lemma matched_entry_Some:
  assumes "matched_entry sha256 previous claimed preferred source = Ok (Some i)"
  shows "i < length previous" "i \<notin> set claimed"
  using assms by (auto simp: matched_entry_def Let_def dest: find_entry_Some split: option.splits if_splits)

lemma choose_id_step:
  assumes "choose_id sha256 fill previous claimed assigned preferred source e = (Ok (sid, claimed'), e')"
  shows "id_step previous claimed assigned sid claimed'"
  using assms
  by (auto simp: choose_id_def id_step_def allocate_id_def dest: matched_entry_Some allocate_loop_Ok
      split: sum.splits option.splits prod.splits)

lemma assign_sources_Cons_Ok:
  assumes "assign_sources sha256 fill previous preferred claimed assigned (source # sources) e
      = (Ok (entries, defs), e')"
  obtains sid claimed' e1 entries' defs' where
    "choose_id sha256 fill previous claimed assigned (case preferred of [] \<Rightarrow> None | p # _ \<Rightarrow> p) source e
       = (Ok (sid, claimed'), e1)"
    "id_step previous claimed assigned sid claimed'"
    "assign_sources sha256 fill previous (tl preferred) claimed' (sid # assigned) sources e1
       = (Ok (entries', defs'), e')"
    "entries = \<lparr>re_source_id = sid, re_name_digest = text_digest sha256 (us_name source),
       re_url_digest = text_digest sha256 (us_url source)\<rparr> # entries'"
    "defs = define_source sid source # defs'"
  using assms by (auto simp: choose_id_step split: sum.splits prod.splits)

lemma id_step_assigned:
  assumes "id_step previous claimed assigned sid claimed'" "distinct (map re_source_id previous)"
    and inv: "\<forall>i<length previous. re_source_id (previous ! i) \<in> set assigned \<longrightarrow> i \<in> set claimed"
  shows "sid \<notin> set assigned"
    and "\<forall>i<length previous. re_source_id (previous ! i) \<in> set (sid # assigned) \<longrightarrow> i \<in> set claimed'"
proof -
  show "sid \<notin> set assigned" using assms(1) inv by (auto simp: id_step_def)
  have inj: "i = j" if "i < length previous" "j < length previous"
      "re_source_id (previous ! i) = re_source_id (previous ! j)" for i j
    using assms(2) that nth_eq_iff_index_eq [of "map re_source_id previous" i j] by simp
  show "\<forall>i<length previous. re_source_id (previous ! i) \<in> set (sid # assigned) \<longrightarrow> i \<in> set claimed'"
    using assms(1) inv by (auto simp: id_step_def previous_ids_def dest: inj)
qed

lemma assign_sources_ids:
  assumes "assign_sources sha256 fill previous preferred claimed assigned sources e
      = (Ok (entries, defs), e')"
    and "distinct (map re_source_id previous)"
    and "\<forall>i<length previous. re_source_id (previous ! i) \<in> set assigned \<longrightarrow> i \<in> set claimed"
  shows "distinct (map re_source_id entries) \<and> set (map re_source_id entries) \<inter> set assigned = {}"
  using assms(1,3)
proof (induction sources arbitrary: preferred claimed assigned e entries defs)
  case (Cons source sources)
  from Cons.prems(1) show ?case
  proof (rule assign_sources_Cons_Ok)
    fix sid claimed' e1 entries' defs'
    assume "id_step previous claimed assigned sid claimed'"
      and rest: "assign_sources sha256 fill previous (tl preferred) claimed' (sid # assigned) sources e1
        = (Ok (entries', defs'), e')"
      and entries: "entries = \<lparr>re_source_id = sid, re_name_digest = text_digest sha256 (us_name source),
        re_url_digest = text_digest sha256 (us_url source)\<rparr> # entries'"
    note id_step_assigned [OF this(1) assms(2) Cons.prems(2)]
    with Cons.IH [OF rest] entries show ?thesis by auto
  qed
qed simp

definition entry_for :: "(bytes \<Rightarrow> bytes) \<Rightarrow> RegistryEntry list \<Rightarrow> RegistryEntry \<Rightarrow> UserSource \<Rightarrow> bool" where
  "entry_for sha256 previous entry source \<longleftrightarrow>
     re_name_digest entry = text_digest sha256 (us_name source)
     \<and> re_url_digest entry = text_digest sha256 (us_url source)
     \<and> (re_source_id entry \<in> previous_ids previous
        \<or> re_source_id entry \<noteq> MANUAL_SOURCE_ID \<and> is_ok (source_id_new (re_source_id entry)))"

lemma assign_sources_shape:
  assumes "assign_sources sha256 fill previous preferred claimed assigned sources e
      = (Ok (entries, defs), e')"
  shows "list_all2 (entry_for sha256 previous) entries sources
    \<and> defs = map (\<lambda>(entry, source). define_source (re_source_id entry) source) (zip entries sources)"
  using assms
proof (induction sources arbitrary: preferred claimed assigned e entries defs)
  case (Cons source sources)
  from Cons.prems show ?case
    by (rule assign_sources_Cons_Ok)
      (auto dest!: Cons.IH simp: entry_for_def id_step_def previous_ids_def)
qed simp

lemma list_all2_left: "list_all2 P xs ys \<Longrightarrow> x \<in> set xs \<Longrightarrow> \<exists>y. P x y"
  by (induction rule: list_all2_induct) auto

lemma define_source_ids:
  "length es = length ss \<Longrightarrow>
     map sd_id (map (\<lambda>(entry, source). define_source (re_source_id entry) source) (zip es ss))
       = map re_source_id es"
  by (induction es ss rule: list_induct2) (simp_all add: define_source_def)

lemma find_entry_unique:
  assumes "i < length entries" "i \<notin> set claimed" "P (entries ! i)"
    and "\<And>j. j < length entries \<Longrightarrow> P (entries ! j) \<Longrightarrow> j = i"
  shows "find_entry entries claimed P = Some i"
proof (cases "find_entry entries claimed P")
  case None
  with assms(1-3) show ?thesis by (auto simp: find_entry_None)
next
  case (Some j)
  with find_entry_Some [OF Some] assms(4) show ?thesis by blast
qed

text \<open>Sources whose URLs are known keep the IDs those URLs had.\<close>

definition url_index :: "(bytes \<Rightarrow> bytes) \<Rightarrow> RegistryEntry list \<Rightarrow> UserSource \<Rightarrow> nat \<Rightarrow> bool" where
  "url_index sha256 previous source i \<longleftrightarrow>
     us_url source \<noteq> [] \<and> i < length previous
     \<and> re_url_digest (previous ! i) = text_digest sha256 (us_url source)"

lemma choose_id_by_url:
  assumes "url_index sha256 previous source i" "distinct (map re_url_digest previous)" "i \<notin> set claimed"
  shows "choose_id sha256 fill previous claimed assigned None source e
    = (Ok (re_source_id (previous ! i), i # claimed), e)"
proof -
  have "find_entry previous claimed (\<lambda>entry. re_url_digest entry = text_digest sha256 (us_url source)) = Some i"
  proof (rule find_entry_unique)
    fix j
    assume "j < length previous" "re_url_digest (previous ! j) = text_digest sha256 (us_url source)"
    then show "j = i"
      using assms(1,2) nth_eq_iff_index_eq [of "map re_url_digest previous" j i]
      by (simp add: url_index_def)
  qed (use assms in \<open>auto simp: url_index_def\<close>)
  with assms(1) show ?thesis by (simp add: choose_id_def matched_entry_def url_index_def)
qed

lemma assign_sources_by_url:
  assumes "list_all2 (url_index sha256 previous) sources indices" "distinct (map re_url_digest previous)"
    "distinct indices" "set indices \<inter> set claimed = {}"
  shows "\<exists>entries defs. assign_sources sha256 fill previous [] claimed assigned sources e
      = (Ok (entries, defs), e)
    \<and> map re_source_id entries = map (\<lambda>i. re_source_id (previous ! i)) indices"
  using assms(1,3,4)
proof (induction arbitrary: claimed assigned rule: list_all2_induct)
  case (Cons source sources i indices)
  have "\<exists>entries defs. assign_sources sha256 fill previous [] (i # claimed)
      (re_source_id (previous ! i) # assigned) sources e = (Ok (entries, defs), e)
    \<and> map re_source_id entries = map (\<lambda>i. re_source_id (previous ! i)) indices"
    using Cons.prems by (intro Cons.IH) auto
  moreover have "choose_id sha256 fill previous claimed assigned None source e
      = (Ok (re_source_id (previous ! i), i # claimed), e)"
    using Cons.prems by (intro choose_id_by_url [OF Cons.hyps(1) assms(2)]) simp
  ultimately show ?case by fastforce
qed simp

text \<open>What the canonical text of a source determines.\<close>

definition source_identity ::
  "(bytes \<Rightarrow> bytes) \<Rightarrow> SourceDefinition \<Rightarrow>
     SourceId \<times> bool \<times> string \<times> FormatHint \<times> RequestProfile \<times> string list \<times> NodeFilter" where
  "source_identity sha256 s =
     (sd_id s, sd_enabled s, text_digest sha256 (sd_url s), sd_expected_format s, sd_request_profile s,
      map (text_digest sha256) (sd_mirrors s), sd_filter s)"

definition encodable :: "(bytes \<Rightarrow> bytes) \<Rightarrow> SourceDefinition \<Rightarrow> bool" where
  "encodable sha256 s \<longleftrightarrow>
     fits_u32 (sd_id s) \<and> fits_u32 (text_digest sha256 (sd_url s))
     \<and> fits_u32 (sd_mirrors s) \<and> list_all (\<lambda>m. fits_u32 (text_digest sha256 m)) (sd_mirrors s)
     \<and> fits_u32 (include_names (sd_filter s)) \<and> list_all fits_u32 (include_names (sd_filter s))
     \<and> fits_u32 (exclude_names (sd_filter s)) \<and> list_all fits_u32 (exclude_names (sd_filter s))
     \<and> fits_u32 (excluded_node_ids (sd_filter s)) \<and> list_all fits_u32 (excluded_node_ids (sd_filter s))
     \<and> fits_u32 (protocols (sd_filter s))"

lemma encode_list_map: "encode_list (\<lambda>x. enc (f x)) xs = encode_list enc (map f xs)"
  by (simp add: encode_list_def comp_def)

lemma byte_cancel: "[a] @ x = [b] @ y \<Longrightarrow> a = b \<and> x = y"
  by simp

lemma encode_source_cancel:
  assumes "encodable sha256 s" "encodable sha256 t" "encode_source sha256 s @ x = encode_source sha256 t @ y"
  shows "source_identity sha256 s = source_identity sha256 t \<and> x = y"
proof -
  have ok: "fits_u32 (sd_id s)" "fits_u32 (text_digest sha256 (sd_url s))"
      "fits_u32 (map (text_digest sha256) (sd_mirrors s))"
      "list_all fits_u32 (map (text_digest sha256) (sd_mirrors s))"
      "fits_u32 (include_names (sd_filter s))" "list_all fits_u32 (include_names (sd_filter s))"
      "fits_u32 (exclude_names (sd_filter s))" "list_all fits_u32 (exclude_names (sd_filter s))"
      "fits_u32 (excluded_node_ids (sd_filter s))" "list_all fits_u32 (excluded_node_ids (sd_filter s))"
      "fits_u32 (protocols (sd_filter s))" if "encodable sha256 s" for s
    using that by (simp_all add: encodable_def fits_u32_def list.pred_map comp_def)
  note ok_s = ok [OF assms(1)] and ok_t = ok [OF assms(2)]
  note c1 = assms(3) [unfolded encode_source_def append_assoc
      encode_list_map [of push_field "text_digest sha256"]]
  note c2 = field.cancel [OF ok_s(1) ok_t(1) c1]
  note c3 = byte_cancel [OF c2 [THEN conjunct2]]
  note c4 = field.cancel [OF ok_s(2) ok_t(2) c3 [THEN conjunct2]]
  note c5 = byte_cancel [OF c4 [THEN conjunct2]]
  note c6 = byte_cancel [OF c5 [THEN conjunct2]]
  note c7 = field.encode_list_cancel [OF ok_s(3) ok_t(3) ok_s(4) ok_t(4) c6 [THEN conjunct2]]
  note c8 = field.encode_list_cancel [OF ok_s(5) ok_t(5) ok_s(6) ok_t(6) c7 [THEN conjunct2]]
  note c9 = field.encode_list_cancel [OF ok_s(7) ok_t(7) ok_s(8) ok_t(8) c8 [THEN conjunct2]]
  note c10 = field.encode_list_cancel [OF ok_s(9) ok_t(9) ok_s(10) ok_t(10) c9 [THEN conjunct2]]
  note c11 = protocol.encode_list_cancel [OF ok_s(11) ok_t(11) _ _ c10 [THEN conjunct2]]
  have "of_bool a mod 256 = (of_bool b mod 256 :: nat) \<longleftrightarrow> a = b" for a b by (cases a; cases b) simp_all
  then have "sd_enabled s = sd_enabled t" "sd_expected_format s = sd_expected_format t"
      "sd_request_profile s = sd_request_profile t"
    using c3 c5 c6 by (simp_all only: char_of_quasi_inj code_byte_inject)
  moreover have "sd_filter s = sd_filter t" "x = y"
    using c8 c9 c10 c11 by (auto intro: NodeFilter.equality simp: list_all_iff)
  ultimately show ?thesis using c2 c4 c7 by (simp add: source_identity_def)
qed

lemma encode_source_nonempty: "encode_source sha256 s \<noteq> []"
  by (simp add: encode_source_def push_field_def be32_def)

lemma concat_encode_source_cancel:
  assumes "list_all (encodable sha256) ss" "list_all (encodable sha256) ts"
    "concat (map (encode_source sha256) ss) = concat (map (encode_source sha256) ts)"
  shows "map (source_identity sha256) ss = map (source_identity sha256) ts"
  using assms
proof (induction ss arbitrary: ts)
  case Nil
  then show ?case by (cases ts) (simp_all add: encode_source_nonempty)
next
  case (Cons s ss)
  then obtain t us where ts: "ts = t # us" by (cases ts) (simp_all add: encode_source_nonempty)
  then have "source_identity sha256 s = source_identity sha256 t
      \<and> concat (map (encode_source sha256) ss) = concat (map (encode_source sha256) us)"
    using Cons.prems by (intro encode_source_cancel) simp_all
  with Cons ts show ?case by simp
qed

lemma mode_code_inject: "mode_code m mod 256 = mode_code n mod 256 \<longleftrightarrow> m = n"
  by (cases m; cases n) (simp_all add: mode_code_def)

text \<open>An attribution keeps the first occurrences.\<close>

definition first_occurrences :: "'a list \<Rightarrow> 'a list" where
  "first_occurrences xs = rev (remdups (rev xs))"

lemma first_occurrences_snoc:
  "first_occurrences (xs @ [x]) = (if x \<in> set xs then first_occurrences xs else first_occurrences xs @ [x])"
  by (simp add: first_occurrences_def)

lemma set_first_occurrences [simp]: "set (first_occurrences xs) = set xs"
  by (simp add: first_occurrences_def)

lemma length_first_occurrences: "length (first_occurrences xs) = card (set xs)"
  by (simp add: first_occurrences_def length_remdups_card_conv)

lemma attribution_loop_eq:
  assumes "card (set done) \<le> MAX_SOURCES"
  shows "attribution_loop (first_occurrences done) xs =
    (if card (set (done @ xs)) \<le> MAX_SOURCES then Ok (first_occurrences (done @ xs))
     else Err TooManyAttributions)"
  using assms
proof (induction xs arbitrary: "done")
  case (Cons x xs)
  have "card (set (done @ [x])) \<le> card (set (done @ x # xs))" by (rule card_mono) auto
  moreover have "(if x \<in> set (first_occurrences done) then first_occurrences done
      else first_occurrences done @ [x]) = first_occurrences (done @ [x])"
    by (simp add: first_occurrences_snoc)
  ultimately show ?case
    using Cons.IH [of "done @ [x]"] by (auto simp: Let_def length_first_occurrences not_le)
qed simp

subsection \<open>Properties\<close>

text \<open>C25. Assigning IDs to the sources of a new configuration, over a registry with distinct IDs: when
  it succeeds there is one entry per source, in order, no two sources share an ID, every ID is either
  a previous one or a fresh valid one other than the manual source's, and the resulting binding
  matches the snapshot it was made from, so the next preparation of that snapshot finds it.\<close>

theorem assignment_gives_distinct_ids:
  assumes "assign_sources sha256 fill previous preferred [] [] (snap_sources snapshot) e
      = (Ok (entries, defs), e')"
    and "distinct (map re_source_id previous)"
  shows "distinct (map re_source_id entries) \<and> map sd_id defs = map re_source_id entries
    \<and> (\<forall>entry\<in>set entries. re_source_id entry \<in> previous_ids previous
         \<or> re_source_id entry \<noteq> MANUAL_SOURCE_ID \<and> is_ok (source_id_new (re_source_id entry)))
    \<and> binding_matches sha256 \<lparr>rb_config_digest = snap_digest snapshot, rb_entries = entries\<rparr> snapshot
    \<and> defs = sc_sources (source_config_from_binding sha256 snapshot
         \<lparr>rb_config_digest = snap_digest snapshot, rb_entries = entries\<rparr>)"
proof -
  note shape = assign_sources_shape [OF assms(1)]
  have ids: "distinct (map re_source_id entries)"
    using assign_sources_ids [OF assms(1,2)] by simp
  have len: "length entries = length (snap_sources snapshot)"
    using shape list_all2_lengthD by blast
  have "map sd_id defs = map re_source_id entries"
    using shape define_source_ids [OF len] by simp
  moreover have "\<forall>entry\<in>set entries. re_source_id entry \<in> previous_ids previous
         \<or> re_source_id entry \<noteq> MANUAL_SOURCE_ID \<and> is_ok (source_id_new (re_source_id entry))"
    using shape list_all2_left by (fastforce simp: entry_for_def)
  moreover have "binding_matches sha256 \<lparr>rb_config_digest = snap_digest snapshot, rb_entries = entries\<rparr> snapshot"
    using shape len by (auto simp: binding_matches_def list_all2_iff entry_for_def list_all_iff)
  ultimately show ?thesis using ids shape by (simp add: source_config_from_binding_def Let_def)
qed

definition sample_user_source :: "string \<Rightarrow> string \<Rightarrow> UserSource" where
  "sample_user_source name url =
     \<lparr>us_name = name, us_enabled = True, us_url = url, us_request_profile = Mihomo,
      us_format_hint = SF_Auto, us_mirrors = [],
      us_filter = \<lparr>include_names = [], exclude_names = [], excluded_node_ids = [], protocols = []\<rparr>\<rparr>"

definition sample_snapshot :: ConfigSnapshot where
  "sample_snapshot = \<lparr>snap_digest = ''d'', snap_mode = Merge,
     snap_sources = [sample_user_source ''n'' ''u'', sample_user_source ''m'' ''v'']\<rparr>"

definition sample_previous :: "RegistryEntry list" where
  "sample_previous =
     [\<lparr>re_source_id = ''src_a'', re_name_digest = [], re_url_digest = hex ''v''\<rparr>,
      \<lparr>re_source_id = ''src_b'', re_name_digest = [], re_url_digest = hex ''u''\<rparr>]"

lemma sample_url_indices:
  "list_all2 (url_index (\<lambda>x. x) sample_previous) (snap_sources sample_snapshot) [1, 0]"
  "distinct (map re_url_digest sample_previous)"
  by (simp_all add: sample_snapshot_def sample_previous_def url_index_def sample_user_source_def
      text_digest_def hex_inject)

theorem assignment_gives_distinct_ids_witness:
  "\<exists>entries defs. assign_sources (\<lambda>x. x) (\<lambda>e. (Err EntropyUnavailable, e)) sample_previous [] [] []
        (snap_sources sample_snapshot) () = (Ok (entries, defs), ())
     \<and> distinct (map re_source_id entries) \<and> map sd_id defs = map re_source_id entries"
proof -
  obtain entries defs where
    ok: "assign_sources (\<lambda>x. x) (\<lambda>e. (Err EntropyUnavailable, e)) sample_previous [] [] []
        (snap_sources sample_snapshot) () = (Ok (entries, defs), ())"
    using assign_sources_by_url [OF sample_url_indices, of "[]" "\<lambda>e. (Err EntropyUnavailable, e)" "[]" "()"]
    by auto
  have "distinct (map re_source_id sample_previous)" by (simp add: sample_previous_def)
  from assignment_gives_distinct_ids [OF ok this] ok show ?thesis by auto
qed





text \<open>C27. A node's attribution is the list of its distinct sources in order of first occurrence; it is
  refused exactly when there is none or there are more than sixteen.\<close>

theorem attribution_keeps_first_occurrences:
  "node_attribution_new ids =
     (if ids = [] then Err InvalidAttribution
      else if card (set ids) \<le> MAX_SOURCES then Ok (first_occurrences ids)
      else Err TooManyAttributions)"
proof -
  have "first_occurrences ids = [] \<longleftrightarrow> ids = []" by (simp add: first_occurrences_def)
  then show ?thesis
    using attribution_loop_eq [of "[]" ids] by (simp add: node_attribution_new_def first_occurrences_def)
qed

end
