(* ===== verification/Scheduler.thy ===== *)
theory Scheduler
  imports Btree
begin

section \<open>The update scheduler\<close>

text \<open>
  nethopd/src/scheduler.rs: keys, policies and records, the engine over a store, and the stable
  jitter. An \<open>i64\<close> is an integer kept in range by the saturating operations; the failure counter
  and the hash are \<open>u32\<close>. The store is a trait: the engine's operations take its \<open>load\<close> and
  \<open>save\<close> as arguments, the locale \<open>schedule_store\<close> is its contract, and
  \<open>InMemoryScheduleStore\<close> is the instance of this file.
\<close>

type_synonym ScheduleKey = string

datatype SchedulerError =
  InvalidKey | InvalidPolicy | InvalidWallTime | ClockRegressed | MissingRecord | PersistenceFailed

definition MAX_KEY_BYTES :: nat where "MAX_KEY_BYTES = 128"
definition MAX_FAILURES :: u32 where "MAX_FAILURES = 16"
definition DEFAULT_INTERVAL_SECONDS :: int where "DEFAULT_INTERVAL_SECONDS = 24 * 60 * 60"
definition DEFAULT_FAILURE_BACKOFF_SECONDS :: int where "DEFAULT_FAILURE_BACKOFF_SECONDS = 60 * 60"
definition DEFAULT_MAX_BACKOFF_SECONDS :: int where "DEFAULT_MAX_BACKOFF_SECONDS = 24 * 60 * 60"
definition DEFAULT_JITTER_SECONDS :: int where "DEFAULT_JITTER_SECONDS = 15 * 60"

definition schedule_key_new :: "string \<Rightarrow> (SchedulerError, ScheduleKey) rresult" where
  "schedule_key_new value =
     (if value = [] \<or> length value > MAX_KEY_BYTES \<or> list_ex is_ascii_control value
      then Err InvalidKey else Ok value)"

record SchedulePolicy =
  interval_seconds :: int
  failure_backoff_seconds :: int
  max_backoff_seconds :: int
  jitter_seconds :: int

definition schedule_policy_new ::
  "int \<Rightarrow> int \<Rightarrow> int \<Rightarrow> int \<Rightarrow> (SchedulerError, SchedulePolicy) rresult" where
  "schedule_policy_new interval backoff max_backoff jitter =
     (if interval \<le> 0 \<or> backoff \<le> 0 \<or> max_backoff < backoff \<or> jitter < 0 \<or> jitter > interval div 2
      then Err InvalidPolicy
      else Ok \<lparr>interval_seconds = interval, failure_backoff_seconds = backoff,
               max_backoff_seconds = max_backoff, jitter_seconds = jitter\<rparr>)"

definition schedule_policy_default :: SchedulePolicy where
  "schedule_policy_default =
     \<lparr>interval_seconds = DEFAULT_INTERVAL_SECONDS,
      failure_backoff_seconds = DEFAULT_FAILURE_BACKOFF_SECONDS,
      max_backoff_seconds = DEFAULT_MAX_BACKOFF_SECONDS,
      jitter_seconds = DEFAULT_JITTER_SECONDS\<rparr>"

record ScheduleRecord =
  sr_key :: ScheduleKey
  next_run_wall_seconds :: int
  failure_count :: u32
  last_observed_wall_seconds :: int

definition from_persisted ::
  "ScheduleKey \<Rightarrow> int \<Rightarrow> u32 \<Rightarrow> int \<Rightarrow> (SchedulerError, ScheduleRecord) rresult" where
  "from_persisted key next_run failures last_observed =
     (if next_run < 0 \<or> last_observed < 0 \<or> failures > MAX_FAILURES then Err PersistenceFailed
      else Ok \<lparr>sr_key = key, next_run_wall_seconds = next_run, failure_count = failures,
               last_observed_wall_seconds = last_observed\<rparr>)"

subsection \<open>Stores\<close>

type_synonym 's load_op = "'s \<Rightarrow> (SchedulerError, ScheduleRecord list) rresult \<times> 's"
type_synonym 's save_op = "ScheduleRecord \<Rightarrow> 's \<Rightarrow> (SchedulerError, unit) rresult \<times> 's"

type_synonym InMemoryScheduleStore = "(ScheduleKey, ScheduleRecord) btree"

definition mem_load :: "InMemoryScheduleStore load_op" where
  "mem_load st = (Ok (map snd st), st)"

definition mem_save :: "InMemoryScheduleStore save_op" where
  "mem_save record st = (Ok (), bt_insert (sr_key record) record st)"

subsection \<open>The engine\<close>

record 's SchedulerEngine =
  se_store :: 's
  se_policy :: SchedulePolicy
  se_records :: "(ScheduleKey, ScheduleRecord) btree"

definition engine_load ::
  "'s load_op \<Rightarrow> 's \<Rightarrow> SchedulePolicy \<Rightarrow> (SchedulerError, 's SchedulerEngine) rresult" where
  "engine_load load_recs st policy =
     (case load_recs st of
        (Inl e, st) \<Rightarrow> Err e
      | (Inr recs, st) \<Rightarrow>
          Ok \<lparr>se_store = st, se_policy = policy,
              se_records = bt_collect (map (\<lambda>r. (sr_key r, r)) recs)\<rparr>)"

definition validate_wall_time :: "int \<Rightarrow> (SchedulerError, unit) rresult" where
  "validate_wall_time value = (if value \<ge> 0 then Ok () else Err InvalidWallTime)"

definition ensure ::
  "'s save_op \<Rightarrow> 's SchedulerEngine \<Rightarrow> ScheduleKey \<Rightarrow> int
   \<Rightarrow> (SchedulerError, ScheduleRecord) rresult \<times> 's SchedulerEngine" where
  "ensure save_rec eng key now =
     (case validate_wall_time now of
        Inl e \<Rightarrow> (Err e, eng)
      | Inr _ \<Rightarrow>
          (case bt_get (se_records eng) key of
             Some r \<Rightarrow> (Ok r, eng)
           | None \<Rightarrow>
               let r = \<lparr>sr_key = key, next_run_wall_seconds = now, failure_count = 0,
                        last_observed_wall_seconds = now\<rparr>
               in case save_rec r (se_store eng) of
                    (Inl e, st) \<Rightarrow> (Err e, eng\<lparr>se_store := st\<rparr>)
                  | (Inr _, st) \<Rightarrow>
                      let recs = bt_insert key r (se_records eng)
                      in (ok_or MissingRecord (bt_get recs key),
                          eng\<lparr>se_records := recs, se_store := st\<rparr>)))"

text \<open>The loop of \<open>due\<close> over \<open>values_mut\<close>: it returns at the first record the clock has fallen
  behind of, with the earlier ones already updated.\<close>

fun due_loop ::
  "int \<Rightarrow> (ScheduleKey, ScheduleRecord) btree
   \<Rightarrow> (SchedulerError, ScheduleKey list) rresult \<times> (ScheduleKey, ScheduleRecord) btree" where
  "due_loop now [] = (Ok [], [])"
| "due_loop now ((k, r) # recs) =
     (if now < last_observed_wall_seconds r then (Err ClockRegressed, (k, r) # recs)
      else let r' = r\<lparr>last_observed_wall_seconds := now\<rparr>;
               (res, recs') = due_loop now recs
           in (case res of
                 Inl e \<Rightarrow> Err e
               | Inr keys \<Rightarrow> Ok (if now \<ge> next_run_wall_seconds r' then sr_key r' # keys else keys),
               (k, r') # recs'))"

definition due ::
  "'s SchedulerEngine \<Rightarrow> int \<Rightarrow> (SchedulerError, ScheduleKey list) rresult \<times> 's SchedulerEngine" where
  "due eng now =
     (case validate_wall_time now of
        Inl e \<Rightarrow> (Err e, eng)
      | Inr _ \<Rightarrow>
          let (res, recs) = due_loop now (se_records eng)
          in (res, eng\<lparr>se_records := recs\<rparr>))"

text \<open>FNV-1a over the bytes of the key. Under a valid policy the jitter is at most half the interval,
  so \<open>max * 2 + 1\<close> stays within \<open>i64\<close>; its cast to \<open>u32\<close> is modular.\<close>

definition fnv_step :: "char \<Rightarrow> u32 \<Rightarrow> u32" where
  "fnv_step byte hash = (hash XOR of_char byte) * 16777619"

definition stable_jitter :: "string \<Rightarrow> int \<Rightarrow> int" where
  "stable_jitter key max_jitter =
     (if max_jitter = 0 then 0
      else let hash = fold fnv_step key 2166136261;
               span = (word_of_int (max_jitter * 2 + 1) :: u32)
           in uint (hash mod span) - max_jitter)"

definition sat_succ :: "u32 \<Rightarrow> u32" where
  "sat_succ n = (if n = -1 then -1 else n + 1)"

definition update ::
  "'s save_op \<Rightarrow> 's SchedulerEngine \<Rightarrow> ScheduleKey \<Rightarrow> int \<Rightarrow> bool
   \<Rightarrow> (SchedulerError, unit) rresult \<times> 's SchedulerEngine" where
  "update save_rec eng key now failure =
     (case validate_wall_time now of
        Inl e \<Rightarrow> (Err e, eng)
      | Inr _ \<Rightarrow>
          (case bt_get (se_records eng) key of
             None \<Rightarrow> (Err MissingRecord, eng)
           | Some r \<Rightarrow>
               if now < last_observed_wall_seconds r then (Err ClockRegressed, eng)
               else
                 let count = (if failure then min (sat_succ (failure_count r)) MAX_FAILURES else 0);
                     base = (if failure
                             then let exponent = min (sat_sub count 1) 6
                                  in min (i64_sat_mul (failure_backoff_seconds (se_policy eng))
                                           (2 ^ unat exponent))
                                         (max_backoff_seconds (se_policy eng))
                             else interval_seconds (se_policy eng));
                     jitter = stable_jitter key (jitter_seconds (se_policy eng));
                     r' = r\<lparr>last_observed_wall_seconds := now, failure_count := count,
                            next_run_wall_seconds := i64_sat_add (i64_sat_add now base) jitter\<rparr>;
                     eng' = eng\<lparr>se_records := bt_insert key r' (se_records eng)\<rparr>
                 in case save_rec r' (se_store eng') of
                      (res, st) \<Rightarrow> (res, eng'\<lparr>se_store := st\<rparr>)))"

definition mark_success ::
  "'s save_op \<Rightarrow> 's SchedulerEngine \<Rightarrow> ScheduleKey \<Rightarrow> int
   \<Rightarrow> (SchedulerError, unit) rresult \<times> 's SchedulerEngine" where
  "mark_success save_rec eng key now = update save_rec eng key now False"

definition mark_failure ::
  "'s save_op \<Rightarrow> 's SchedulerEngine \<Rightarrow> ScheduleKey \<Rightarrow> int
   \<Rightarrow> (SchedulerError, unit) rresult \<times> 's SchedulerEngine" where
  "mark_failure save_rec eng key now = update save_rec eng key now True"

definition engine_record :: "'s SchedulerEngine \<Rightarrow> ScheduleKey \<Rightarrow> ScheduleRecord option" where
  "engine_record eng key = bt_get (se_records eng) key"

definition set_policy :: "'s SchedulerEngine \<Rightarrow> SchedulePolicy \<Rightarrow> 's SchedulerEngine" where
  "set_policy eng policy = eng\<lparr>se_policy := policy\<rparr>"

lemmas schedule_defaults = DEFAULT_INTERVAL_SECONDS_def DEFAULT_FAILURE_BACKOFF_SECONDS_def
  DEFAULT_MAX_BACKOFF_SECONDS_def DEFAULT_JITTER_SECONDS_def schedule_policy_default_def

subsection \<open>Jitter\<close>

lemma stable_jitter_bounds:
  assumes "0 \<le> j"
  shows "\<bar>stable_jitter key j\<bar> \<le> j"
proof (cases "j = 0")
  case False
  define span :: u32 where "span = word_of_int (j * 2 + 1)"
  have span: "uint span = (j * 2 + 1) mod 2 ^ 32"
    unfolding span_def uint_word_of_int by simp
  have "odd ((j * 2 + 1) mod 2 ^ 32)" by (simp add: even_even_mod_4_iff dvd_mod_iff)
  then have "uint span \<noteq> 0" unfolding span by (metis even_zero)
  moreover have "0 \<le> uint span" by simp
  ultimately have pos: "0 < uint span" by linarith
  have le: "uint span \<le> j * 2 + 1" unfolding span using assms by (intro zmod_le_nonneg_dividend) simp
  define h :: u32 where "h = fold fnv_step key 2166136261"
  have "uint (h mod span) = uint h mod uint span" by (simp add: uint_mod)
  then have "0 \<le> uint (h mod span)" "uint (h mod span) < uint span"
    using pos by simp_all
  then have "\<bar>uint (h mod span) - j\<bar> \<le> j" using le by linarith
  then show ?thesis using False by (simp add: stable_jitter_def h_def span_def Let_def)
qed (simp add: stable_jitter_def)

subsection \<open>Functional behaviour\<close>

text \<open>Every record is filed under its own key.\<close>

definition engine_wf :: "'s SchedulerEngine \<Rightarrow> bool" where
  "engine_wf eng \<longleftrightarrow> bt_wf (se_records eng) \<and> (\<forall>(k, r)\<in>set (se_records eng). sr_key r = k)"

lemma engine_wf_get: "engine_wf eng \<Longrightarrow> bt_get (se_records eng) k = Some r \<Longrightarrow> sr_key r = k"
  by (auto simp: engine_wf_def bt_get_Some_iff)

lemma set_bt_insert: "set (bt_insert k v m) \<subseteq> insert (k, v) (set m)"
  by (induction k v m rule: bt_insert.induct) auto

lemma engine_wf_insert:
  assumes "engine_wf eng" "sr_key r = k"
  shows "engine_wf (eng\<lparr>se_records := bt_insert k r (se_records eng)\<rparr>)"
  using assms set_bt_insert [of k r "se_records eng"] by (auto simp: engine_wf_def bt_wf_insert)

lemma engine_wf_store [simp]: "engine_wf (eng\<lparr>se_store := st\<rparr>) = engine_wf eng"
  by (simp add: engine_wf_def)

lemma engine_wf_policy [simp]: "engine_wf (set_policy eng p) = engine_wf eng"
  by (simp add: engine_wf_def set_policy_def)

lemma engine_wf_load: "engine_load load_recs st policy = Ok eng \<Longrightarrow> engine_wf eng"
proof -
  assume "engine_load load_recs st policy = Ok eng"
  then obtain recs st' where eng: "eng = \<lparr>se_store = st', se_policy = policy,
      se_records = bt_collect (map (\<lambda>r. (sr_key r, r)) recs)\<rparr>"
    by (auto simp: engine_load_def split: prod.splits sum.splits)
  have "sr_key r = k" if "(k, r) \<in> set (bt_collect (map (\<lambda>r. (sr_key r, r)) recs))" for k r
  proof -
    have "bt_get (bt_collect (map (\<lambda>r. (sr_key r, r)) recs)) k = Some r"
      using that by (simp add: bt_get_Some_iff)
    then show ?thesis by (auto simp: bt_get_collect rev_map dest!: map_of_SomeD)
  qed
  then show "engine_wf eng" by (auto simp: engine_wf_def eng)
qed

lemma ensure_wf:
  assumes "engine_wf eng"
  shows "engine_wf (snd (ensure save_rec eng key now))"
  using engine_wf_insert [OF assms, of "\<lparr>sr_key = key, next_run_wall_seconds = now, failure_count = 0,
      last_observed_wall_seconds = now\<rparr>" key] assms
  by (auto simp: ensure_def Let_def engine_wf_def split: sum.splits option.splits prod.splits)

lemma due_loop_keys: "map fst (snd (due_loop now recs)) = map fst recs"
  by (induction now recs rule: due_loop.induct) (auto simp: Let_def split: prod.splits sum.splits)

lemma due_loop_get:
  "bt_get (snd (due_loop now recs)) k = None \<longleftrightarrow> bt_get recs k = None"
  "bt_get (snd (due_loop now recs)) k = Some r' \<Longrightarrow>
     \<exists>r. bt_get recs k = Some r \<and> (r' = r \<or> r' = r\<lparr>last_observed_wall_seconds := now\<rparr>)"
  by (induction now recs rule: due_loop.induct)
    (auto simp: Let_def bt_get_def split: prod.splits sum.splits if_splits)

lemma due_wf: "engine_wf eng \<Longrightarrow> engine_wf (snd (due eng now))"
proof -
  assume wf: "engine_wf eng"
  let ?recs = "snd (due_loop now (se_records eng))"
  have "bt_wf ?recs" using wf due_loop_keys [of now "se_records eng"]
    by (simp add: engine_wf_def bt_wf_def bt_keys_def)
  moreover have "sr_key r = k" if "(k, r) \<in> set ?recs" for k r
  proof -
    have "bt_get ?recs k = Some r" using that \<open>bt_wf ?recs\<close> by (simp add: bt_get_Some_iff)
    with due_loop_get(2) engine_wf_get [OF wf] show ?thesis by fastforce
  qed
  ultimately show "engine_wf (snd (due eng now))"
    using wf by (auto simp: due_def engine_wf_def Let_def split: sum.splits prod.splits)
qed

text \<open>What \<open>due\<close> returns: it fails exactly when the clock is behind some record, and otherwise names
  the keys whose time has come, in the order of the map.\<close>

lemma due_loop_result:
  "fst (due_loop now recs) =
     (if list_all (\<lambda>(k, r). last_observed_wall_seconds r \<le> now) recs
      then Ok (map (sr_key \<circ> snd) (filter (\<lambda>(k, r). next_run_wall_seconds r \<le> now) recs))
      else Err ClockRegressed)"
  by (induction now recs rule: due_loop.induct)
    (auto simp: Let_def split: prod.splits sum.splits if_splits)

lemma due_loop_Ok_get:
  assumes "list_all (\<lambda>(k, r). last_observed_wall_seconds r \<le> now) recs"
  shows "bt_get (snd (due_loop now recs)) k =
    map_option (\<lambda>r. r\<lparr>last_observed_wall_seconds := now\<rparr>) (bt_get recs k)"
  using assms
  by (induction now recs rule: due_loop.induct) (auto simp: Let_def bt_get_def split: prod.splits)

lemma due_result:
  assumes "engine_wf eng" "0 \<le> now"
  shows "fst (due eng now) =
     (if \<exists>k r. engine_record eng k = Some r \<and> now < last_observed_wall_seconds r
      then Err ClockRegressed
      else Ok (filter (\<lambda>k. \<exists>r. engine_record eng k = Some r \<and> next_run_wall_seconds r \<le> now)
                 (bt_keys (se_records eng))))"
proof -
  let ?recs = "se_records eng"
  have due: "due eng now = (let (res, recs) = due_loop now ?recs in (res, eng\<lparr>se_records := recs\<rparr>))"
    using assms(2) by (simp add: due_def validate_wall_time_def)
  have wf: "bt_wf ?recs" "\<forall>(k, r)\<in>set ?recs. sr_key r = k" using assms(1) by (auto simp: engine_wf_def)
  have all: "list_all (\<lambda>(k, r). last_observed_wall_seconds r \<le> now) ?recs \<longleftrightarrow>
      \<not> (\<exists>k r. engine_record eng k = Some r \<and> now < last_observed_wall_seconds r)"
    using wf(1) by (auto simp: list_all_iff engine_record_def bt_get_Some_iff not_less)
  have "map (sr_key \<circ> snd) (filter (\<lambda>(k, r). next_run_wall_seconds r \<le> now) ?recs) =
      map fst (filter (\<lambda>(k, r). next_run_wall_seconds r \<le> now) ?recs)"
    using wf(2) by auto
  also have "\<dots> = filter (\<lambda>k. \<exists>r. engine_record eng k = Some r \<and> next_run_wall_seconds r \<le> now) (map fst ?recs)"
    unfolding filter_map comp_def
    by (intro arg_cong [of _ _ "map fst"] filter_cong)
      (use wf(1) in \<open>auto simp: engine_record_def bt_get_Some_iff [symmetric]\<close>)
  finally have keys: "map (sr_key \<circ> snd) (filter (\<lambda>(k, r). next_run_wall_seconds r \<le> now) ?recs) =
      filter (\<lambda>k. \<exists>r. engine_record eng k = Some r \<and> next_run_wall_seconds r \<le> now) (map fst ?recs)" .
  obtain res recs where loop: "due_loop now ?recs = (res, recs)" by (cases "due_loop now ?recs")
  have res: "res = (if list_all (\<lambda>(k, r). last_observed_wall_seconds r \<le> now) ?recs
      then Ok (filter (\<lambda>k. \<exists>r. engine_record eng k = Some r \<and> next_run_wall_seconds r \<le> now) (map fst ?recs))
      else Err ClockRegressed)"
    using due_loop_result [of now ?recs] unfolding keys loop by simp
  show ?thesis unfolding res all by (simp add: due loop bt_keys_def res all)
qed

lemma due_record:
  assumes "engine_wf eng" "0 \<le> now" "is_ok (fst (due eng now))"
  shows "engine_record (snd (due eng now)) k =
    map_option (\<lambda>r. r\<lparr>last_observed_wall_seconds := now\<rparr>) (engine_record eng k)"
proof -
  obtain res recs where loop: "due_loop now (se_records eng) = (res, recs)"
    by (cases "due_loop now (se_records eng)")
  then have "list_all (\<lambda>(k, r). last_observed_wall_seconds r \<le> now) (se_records eng)"
    using assms(2,3) due_loop_result [of now "se_records eng"]
    by (auto simp: due_def validate_wall_time_def split: if_splits)
  from due_loop_Ok_get [OF this, of k] loop assms(2) show ?thesis
    by (simp add: due_def validate_wall_time_def engine_record_def)
qed

text \<open>The record a mark writes.\<close>

definition marked_record :: "SchedulePolicy \<Rightarrow> ScheduleRecord \<Rightarrow> int \<Rightarrow> bool \<Rightarrow> ScheduleRecord" where
  "marked_record policy r now failure =
     (let count = (if failure then min (sat_succ (failure_count r)) MAX_FAILURES else 0);
          base = (if failure
                  then min (i64_sat_mul (failure_backoff_seconds policy) (2 ^ min (unat count - 1) 6))
                           (max_backoff_seconds policy)
                  else interval_seconds policy)
      in r\<lparr>last_observed_wall_seconds := now, failure_count := count,
           next_run_wall_seconds :=
             i64_sat_add (i64_sat_add now base) (stable_jitter (sr_key r) (jitter_seconds policy))\<rparr>)"

lemma unat_min_6: "unat (min w 6) = min (unat w) 6" for w :: u32
  by (simp add: min_def word_le_nat_alt)

lemma update_eq:
  assumes "engine_wf eng"
  shows "update save_rec eng key now failure =
    (if now < 0 then (Err InvalidWallTime, eng)
     else case bt_get (se_records eng) key of
       None \<Rightarrow> (Err MissingRecord, eng)
     | Some r \<Rightarrow>
         if now < last_observed_wall_seconds r then (Err ClockRegressed, eng)
         else let r' = marked_record (se_policy eng) r now failure;
                  (res, st) = save_rec r' (se_store eng)
              in (res, eng\<lparr>se_records := bt_insert key r' (se_records eng), se_store := st\<rparr>))"
proof (cases "bt_get (se_records eng) key")
  case (Some r)
  have "sr_key r = key" using engine_wf_get [OF assms Some] .
  with Some show ?thesis
    by (simp add: update_def validate_wall_time_def marked_record_def Let_def unat_min_6 unat_sat_sub
        split: prod.split)
qed (simp add: update_def validate_wall_time_def)

lemma next_run_marked:
  "next_run_wall_seconds (marked_record p r now failure) =
     i64_sat_add (i64_sat_add now
       (if failure
        then min (i64_sat_mul (failure_backoff_seconds p)
                   (2 ^ min (unat (failure_count (marked_record p r now failure)) - 1) 6))
                 (max_backoff_seconds p)
        else interval_seconds p)) (stable_jitter (sr_key r) (jitter_seconds p))"
  by (simp add: marked_record_def Let_def)

lemma marked_record_key [simp]: "sr_key (marked_record p r now f) = sr_key r"
  by (simp add: marked_record_def Let_def)

lemma update_wf: "engine_wf eng \<Longrightarrow> engine_wf (snd (update save_rec eng key now failure))"
proof -
  assume wf: "engine_wf eng"
  have "engine_wf (eng\<lparr>se_records := bt_insert key (marked_record (se_policy eng) r now failure) (se_records eng)\<rparr>)"
    if "bt_get (se_records eng) key = Some r" for r
    using engine_wf_get [OF wf that] by (intro engine_wf_insert wf) simp
  then show ?thesis using wf by (auto simp: update_eq Let_def split: option.split prod.split)
qed

subsection \<open>The contract of a store\<close>

text \<open>A store holds one record per key: a save that succeeds replaces the record of its key, a save
  that fails leaves the contents, and a load returns them. An engine over such a store agrees with it
  on when each key runs next and how often it failed; what it observed of the clock it keeps to
  itself between saves.\<close>

definition schedule_core :: "ScheduleRecord \<Rightarrow> int \<times> u32" where
  "schedule_core r = (next_run_wall_seconds r, failure_count r)"

locale schedule_store =
  fixes load_recs :: "'s load_op" and save_rec :: "'s save_op"
    and contents :: "'s \<Rightarrow> ScheduleKey \<Rightarrow> ScheduleRecord option" and store_wf :: "'s \<Rightarrow> bool"
  assumes save_wf: "store_wf st \<Longrightarrow> store_wf (snd (save_rec r st))"
    and save_ok: "store_wf st \<Longrightarrow> save_rec r st = (Ok u, st') \<Longrightarrow> contents st' = (contents st)(sr_key r \<mapsto> r)"
    and save_err: "store_wf st \<Longrightarrow> save_rec r st = (Err e, st') \<Longrightarrow> contents st' = contents st"
    and load_ok: "store_wf st \<Longrightarrow> load_recs st = (Ok recs, st') \<Longrightarrow> store_wf st' \<and> contents st' = contents st
      \<and> (\<forall>k. map_of (rev (map (\<lambda>r. (sr_key r, r)) recs)) k = contents st k)"
begin

definition agrees :: "'s SchedulerEngine \<Rightarrow> bool" where
  "agrees eng \<longleftrightarrow> engine_wf eng \<and> store_wf (se_store eng)
     \<and> (\<forall>k. map_option schedule_core (bt_get (se_records eng) k)
          = map_option schedule_core (contents (se_store eng) k))"

lemma load_agrees:
  assumes "store_wf st" "engine_load load_recs st policy = Ok eng"
  shows "agrees eng \<and> (\<forall>k. bt_get (se_records eng) k = contents st k)"
proof -
  obtain recs st' where "load_recs st = (Ok recs, st')" "eng = \<lparr>se_store = st', se_policy = policy,
      se_records = bt_collect (map (\<lambda>r. (sr_key r, r)) recs)\<rparr>"
    using assms(2) by (auto simp: engine_load_def split: prod.splits sum.splits)
  with load_ok [OF assms(1) this(1)] engine_wf_load [OF assms(2)] show ?thesis
    by (auto simp: agrees_def bt_get_collect)
qed

text \<open>Writing one record to memory and to the store.\<close>

lemma insert_agrees:
  assumes "agrees eng" "save_rec r (se_store eng) = (Ok u, st)" "sr_key r = k"
  shows "agrees (eng\<lparr>se_records := bt_insert k r (se_records eng), se_store := st\<rparr>)"
proof -
  have wf: "engine_wf eng" "store_wf (se_store eng)" using assms(1) by (simp_all add: agrees_def)
  have "store_wf st" using save_wf [OF wf(2), of r] assms(2) by simp
  moreover have "engine_wf (eng\<lparr>se_records := bt_insert k r (se_records eng), se_store := st\<rparr>)"
    using engine_wf_insert [OF wf(1) assms(3)] by (simp add: engine_wf_def)
  ultimately show ?thesis
    using assms(1,3) save_ok [OF wf(2) assms(2)] wf(1)
    by (auto simp: agrees_def bt_get_insert engine_wf_def)
qed

lemma store_agrees:
  assumes "agrees eng" "save_rec r (se_store eng) = (Err e, st)"
  shows "agrees (eng\<lparr>se_store := st\<rparr>)"
proof -
  have wf: "store_wf (se_store eng)" using assms(1) by (simp add: agrees_def)
  have "store_wf st" using save_wf [OF wf, of r] assms(2) by simp
  with assms(1) save_err [OF wf assms(2)] show ?thesis by (simp add: agrees_def)
qed

text \<open>\<open>ensure\<close> and \<open>due\<close> keep the agreement whether they succeed or not.\<close>

lemma ensure_agrees:
  assumes "agrees eng"
  shows "agrees (snd (ensure save_rec eng key now))"
proof -
  let ?r = "\<lparr>sr_key = key, next_run_wall_seconds = now, failure_count = 0, last_observed_wall_seconds = now\<rparr>"
  show ?thesis
  proof (cases "save_rec ?r (se_store eng)")
    case (Pair res st)
    then show ?thesis
      using assms insert_agrees [OF assms, of ?r _ st key] store_agrees [OF assms, of ?r _ st]
      by (cases res) (auto simp: ensure_def Let_def split: sum.split option.split)
  qed
qed

lemma due_agrees:
  assumes "agrees eng"
  shows "agrees (snd (due eng now))"
proof -
  let ?recs = "snd (due_loop now (se_records eng))"
  have "map_option schedule_core (bt_get ?recs k) = map_option schedule_core (bt_get (se_records eng) k)" for k
    using due_loop_get [of now "se_records eng" k]
    by (cases "bt_get ?recs k") (auto simp: schedule_core_def)
  then show ?thesis
    using assms due_wf [of eng now]
    by (auto simp: agrees_def due_def Let_def split: sum.splits prod.splits)
qed

lemma update_agrees:
  assumes "agrees eng" "fst (update save_rec eng key now failure) \<noteq> Err PersistenceFailed"
    and "\<And>r st e st'. save_rec r st = (Err e, st') \<Longrightarrow> e = PersistenceFailed"
  shows "agrees (snd (update save_rec eng key now failure))"
proof -
  have wf: "engine_wf eng" using assms(1) by (simp add: agrees_def)
  show ?thesis
  proof (cases "bt_get (se_records eng) key")
    case (Some r)
    let ?r = "marked_record (se_policy eng) r now failure"
    show ?thesis
    proof (cases "save_rec ?r (se_store eng)")
      case (Pair res st)
      have "sr_key ?r = key" using engine_wf_get [OF wf Some] by simp
      with Some Pair assms show ?thesis
        using insert_agrees [OF assms(1), of ?r _ st key]
        by (cases res) (auto simp: update_eq [OF wf] split: if_splits)
    qed
  qed (use assms(1) in \<open>simp add: update_eq [OF wf]\<close>)
qed

end

subsection \<open>The in-memory store\<close>

definition mem_wf :: "InMemoryScheduleStore \<Rightarrow> bool" where
  "mem_wf st \<longleftrightarrow> bt_wf st \<and> (\<forall>(k, r)\<in>set st. sr_key r = k)"

lemma mem_wf_save: "mem_wf st \<Longrightarrow> mem_wf (snd (mem_save r st))"
  using set_bt_insert [of "sr_key r" r st] by (auto simp: mem_wf_def mem_save_def bt_wf_insert)

lemma mem_load_contents:
  assumes "mem_wf st"
  shows "map_of (rev (map (\<lambda>r. (sr_key r, r)) (map snd st))) k = bt_get st k"
proof -
  have "map (\<lambda>r. (sr_key r, r)) (map snd st) = st"
    using assms by (auto simp: mem_wf_def intro!: map_idI)
  moreover have "map_of (rev st) k = map_of st k"
  proof (cases "map_of st k")
    case None
    then have "map_of (rev st) k = None" by (simp add: map_of_eq_None_iff)
    with None show ?thesis by simp
  next
    case (Some v)
    have "distinct (map fst (rev st))"
      using assms by (simp add: mem_wf_def bt_wf_def bt_keys_def rev_map [symmetric])
    moreover have "(k, v) \<in> set (rev st)" using map_of_SomeD [OF Some] by simp
    ultimately show ?thesis using Some by (simp add: map_of_is_SomeI)
  qed
  ultimately show ?thesis by (simp only: bt_get_def)
qed

interpretation mem_store: schedule_store mem_load mem_save bt_get mem_wf
proof
  show "mem_wf st \<Longrightarrow> mem_wf (snd (mem_save r st))" for st r by (rule mem_wf_save)
  show "bt_get st' = (bt_get st)(sr_key r \<mapsto> r)"
    if "mem_wf st" "mem_save r st = (Ok u, st')" for st r u st'
    using that by (auto simp: mem_save_def mem_wf_def bt_get_insert)
  show "bt_get st' = bt_get st" if "mem_wf st" "mem_save r st = (Err e, st')" for st r e st'
    using that by (simp add: mem_save_def)
  show "mem_wf st' \<and> bt_get st' = bt_get st \<and>
      (\<forall>k. map_of (rev (map (\<lambda>r. (sr_key r, r)) recs)) k = bt_get st k)"
    if "mem_wf st" "mem_load st = (Ok recs, st')" for st recs st'
    using that mem_load_contents by (auto simp: mem_load_def simp del: map_map)
qed

text \<open>The calls a client makes on an engine.\<close>

datatype EngineCall =
    Call_ensure ScheduleKey int
  | Call_due int
  | Call_mark ScheduleKey int bool
  | Call_policy SchedulePolicy

fun engine_call :: "'s save_op \<Rightarrow> EngineCall \<Rightarrow> 's SchedulerEngine \<Rightarrow> 's SchedulerEngine" where
  "engine_call save_rec (Call_ensure key now) eng = snd (ensure save_rec eng key now)"
| "engine_call save_rec (Call_due now) eng = snd (due eng now)"
| "engine_call save_rec (Call_mark key now failure) eng = snd (update save_rec eng key now failure)"
| "engine_call save_rec (Call_policy p) eng = set_policy eng p"

lemma mem_update_not_failed: "fst (update mem_save eng key now failure) \<noteq> Err PersistenceFailed"
  by (auto simp: update_def validate_wall_time_def mem_save_def Let_def split: option.splits)

lemma engine_call_agrees:
  assumes "mem_store.agrees eng"
  shows "mem_store.agrees (engine_call mem_save call eng)"
proof (cases call)
  case (Call_ensure key now)
  then show ?thesis using mem_store.ensure_agrees [OF assms] by simp
next
  case (Call_due now)
  then show ?thesis using mem_store.due_agrees [OF assms] by simp
next
  case (Call_mark key now failure)
  then show ?thesis
    using mem_store.update_agrees [OF assms mem_update_not_failed] by (simp add: mem_save_def)
next
  case (Call_policy p)
  then show ?thesis using assms by (simp add: mem_store.agrees_def set_policy_def engine_wf_def)
qed

subsection \<open>Consecutive results\<close>

definition run_marks ::
  "'s save_op \<Rightarrow> ScheduleKey \<Rightarrow> 's SchedulerEngine \<Rightarrow> (bool \<times> int) list \<Rightarrow> 's SchedulerEngine" where
  "run_marks save_rec key eng marks =
     foldl (\<lambda>eng (failure, now). snd (update save_rec eng key now failure)) eng marks"

text \<open>How many failures end a sequence of results.\<close>

definition failure_run :: "(bool \<times> int) list \<Rightarrow> nat" where
  "failure_run marks = length (takeWhile fst (rev marks))"

lemma failure_run_snoc:
  "failure_run (marks @ [(failure, now)]) = (if failure then Suc (failure_run marks) else 0)"
  by (simp add: failure_run_def)

lemma update_policy [simp]: "se_policy (snd (update save_rec eng key now failure)) = se_policy eng"
  by (auto simp: update_def Let_def split: sum.splits option.splits prod.splits)

lemma run_marks_wf:
  "engine_wf eng \<Longrightarrow> engine_wf (run_marks save_rec key eng marks)
     \<and> se_policy (run_marks save_rec key eng marks) = se_policy eng"
  by (induction marks rule: rev_induct) (auto simp: run_marks_def update_wf)

lemma update_get:
  assumes "engine_wf eng" "bt_get (se_records eng) key = Some r" "0 \<le> now"
    "last_observed_wall_seconds r \<le> now"
  shows "bt_get (se_records (snd (update save_rec eng key now failure))) key =
    Some (marked_record (se_policy eng) r now failure)"
  using assms by (auto simp: update_eq Let_def bt_get_insert engine_wf_def split: prod.split)

lemma failure_count_step:
  assumes "unat (failure_count r) = min n 16"
  shows "unat (failure_count (marked_record p r now failure)) = (if failure then min (Suc n) 16 else 0)"
proof -
  have "failure_count r \<noteq> -1" using assms by (auto simp: unsigned_minus_1_eq_mask mask_eq_exp_minus_1)
  then have "unat (sat_succ (failure_count r)) = Suc (min n 16)"
    using assms unatSuc [of "failure_count r"] by (simp add: sat_succ_def add_eq_0_iff add.commute)
  then show ?thesis
    by (simp add: marked_record_def Let_def MAX_FAILURES_def min_def word_le_nat_alt)
qed

lemma run_marks_record:
  assumes "engine_wf eng" "bt_get (se_records eng) key = Some r" "failure_count r = 0"
    and "sorted (last_observed_wall_seconds r # map snd marks)" "0 \<le> last_observed_wall_seconds r"
  shows "\<exists>r'. bt_get (se_records (run_marks save_rec key eng marks)) key = Some r'
    \<and> unat (failure_count r') = min (failure_run marks) 16
    \<and> last_observed_wall_seconds r' \<in> insert (last_observed_wall_seconds r) (snd ` set marks)"
  using assms(4)
proof (induction marks rule: rev_induct)
  case Nil
  then show ?case using assms by (simp add: run_marks_def failure_run_def)
next
  case (snoc mark marks)
  obtain failure now where mark: "mark = (failure, now)" by (cases mark)
  from snoc obtain r' where r':
    "bt_get (se_records (run_marks save_rec key eng marks)) key = Some r'"
    "unat (failure_count r') = min (failure_run marks) 16"
    "last_observed_wall_seconds r' \<in> insert (last_observed_wall_seconds r) (snd ` set marks)"
    by (auto simp: sorted_append)
  have "0 \<le> now" "last_observed_wall_seconds r' \<le> now"
    using snoc.prems r'(3) assms(5) mark by (auto simp: sorted_append)
  note step = update_get [OF conjunct1 [OF run_marks_wf [OF assms(1)]] r'(1) this]
  then show ?case
    using failure_count_step [OF r'(2)]
    by (simp add: run_marks_def mark failure_run_snoc) (simp add: marked_record_def Let_def)
qed

subsection \<open>Properties\<close>

text \<open>C28. Back-off: after any series of recorded results on a key whose count was zero (the clock not
  going back, whatever the store answers), the failure count is the number of failures that end the
  series, capped at 16; after a failure the next run is the base back-off doubled per further failure,
  at most six times, capped by the policy, and after a success it is the interval, shifted in both
  cases by the key's own jitter, which is at most the policy's.\<close>

theorem backoff_counts_trailing_failures:
  assumes "engine_wf eng" "bt_get (se_records eng) key = Some r" "failure_count r = 0"
    and "sorted (last_observed_wall_seconds r # map snd (marks @ [(failure, now)]))"
    and "0 \<le> last_observed_wall_seconds r" "0 \<le> jitter_seconds (se_policy eng)"
    and "n = failure_run (marks @ [(failure, now)])"
  shows "\<exists>r' jitter. engine_record (run_marks save_rec key eng (marks @ [(failure, now)])) key = Some r'
    \<and> unat (failure_count r') = min n 16
    \<and> \<bar>jitter\<bar> \<le> jitter_seconds (se_policy eng)
    \<and> next_run_wall_seconds r' = i64_sat_add (i64_sat_add now
         (if failure then min (i64_sat_mul (failure_backoff_seconds (se_policy eng)) (2 ^ min (n - 1) 6))
                              (max_backoff_seconds (se_policy eng))
          else interval_seconds (se_policy eng))) jitter"
proof -
  have sorted: "sorted (last_observed_wall_seconds r # map snd marks)"
    using assms(4) by (simp add: sorted_append)
  obtain q where q: "bt_get (se_records (run_marks save_rec key eng marks)) key = Some q"
      "unat (failure_count q) = min (failure_run marks) 16"
      "last_observed_wall_seconds q \<in> insert (last_observed_wall_seconds r) (snd ` set marks)"
    using run_marks_record [OF assms(1-3) sorted assms(5)] by blast
  have now: "0 \<le> now" "last_observed_wall_seconds q \<le> now"
    using assms(4,5) q(3) by (auto simp: sorted_append)
  note wf = run_marks_wf [OF assms(1), of save_rec key marks]
  let ?r = "marked_record (se_policy eng) q now failure"
  have rec: "engine_record (run_marks save_rec key eng (marks @ [(failure, now)])) key = Some ?r"
    using update_get [OF conjunct1 [OF wf] q(1) now] wf by (simp add: engine_record_def run_marks_def)
  have count: "unat (failure_count ?r) = min n 16"
    using failure_count_step [OF q(2)] assms(7) by (simp add: failure_run_snoc)
  have "min (unat (failure_count ?r) - 1) 6 = min (n - 1) 6" using count by simp
  then have "next_run_wall_seconds ?r = i64_sat_add (i64_sat_add now
         (if failure then min (i64_sat_mul (failure_backoff_seconds (se_policy eng)) (2 ^ min (n - 1) 6))
                              (max_backoff_seconds (se_policy eng))
          else interval_seconds (se_policy eng)))
      (stable_jitter (sr_key q) (jitter_seconds (se_policy eng)))"
    by (simp only: next_run_marked)
  with rec count stable_jitter_bounds [OF assms(6)] show ?thesis by blast
qed

definition sample_engine :: "InMemoryScheduleStore SchedulerEngine" where
  "sample_engine = \<lparr>se_store = [], se_policy = schedule_policy_default,
     se_records = [(''a'', \<lparr>sr_key = ''a'', next_run_wall_seconds = 0, failure_count = 0,
                            last_observed_wall_seconds = 0\<rparr>)]\<rparr>"

theorem backoff_counts_trailing_failures_witness:
  "\<exists>r' jitter. engine_record (run_marks mem_save ''a'' sample_engine ([(False, 5), (True, 10)] @ [(True, 20)])) ''a'' = Some r'
    \<and> unat (failure_count r') = 2 \<and> \<bar>jitter\<bar> \<le> 900
    \<and> next_run_wall_seconds r' = i64_sat_add (i64_sat_add 20 (min (i64_sat_mul 3600 2) 86400)) jitter"
proof -
  have "engine_wf sample_engine" by (simp add: sample_engine_def engine_wf_def bt_wf_def bt_keys_def)
  moreover obtain r where "bt_get (se_records sample_engine) ''a'' = Some r" "failure_count r = 0"
      "last_observed_wall_seconds r = 0"
    by (simp add: sample_engine_def bt_get_def)
  ultimately show ?thesis
    using backoff_counts_trailing_failures [of sample_engine "''a''" r "[(False, 5), (True, 10)]" True 20 2 mem_save]
    by (simp add: sample_engine_def schedule_defaults failure_run_def)
qed

text \<open>C29. \<open>due\<close> fails exactly when the clock is behind the last reading some record holds; otherwise
  it names, in key order, exactly the keys whose next run is not in the future, and changes nothing
  of a record but the clock reading.\<close>

theorem due_names_exactly_the_due_keys:
  assumes "engine_wf eng" "0 \<le> now"
  shows "fst (due eng now) =
     (if \<exists>k r. engine_record eng k = Some r \<and> now < last_observed_wall_seconds r
      then Err ClockRegressed
      else Ok (filter (\<lambda>k. \<exists>r. engine_record eng k = Some r \<and> next_run_wall_seconds r \<le> now)
                 (bt_keys (se_records eng))))
   \<and> (is_ok (fst (due eng now)) \<longrightarrow>
        engine_record (snd (due eng now)) k =
          map_option (\<lambda>r. r\<lparr>last_observed_wall_seconds := now\<rparr>) (engine_record eng k))"
  using due_result [OF assms] due_record [OF assms] by blast

theorem due_names_exactly_the_due_keys_witness:
  "fst (due sample_engine 7) = Ok [''a'']"
  using due_names_exactly_the_due_keys [of sample_engine 7 "''a''"]
  by (auto simp: sample_engine_def engine_wf_def bt_wf_def bt_keys_def engine_record_def bt_get_def
      split: if_splits)



end
