(* ===== verification/Auto_Update.thy ===== *)
theory Auto_Update
  imports Scheduler Sources
begin

section \<open>Update schedules\<close>

text \<open>
  nethopd/src/auto_update.rs: the schedule of one resource, the schedule of the subscription sources
  and the schedules that are switched off. \<open>SystemTime::now()\<close> is an argument, the nanoseconds since
  the epoch (negative before it); the operations that read the clock take that reading.
\<close>

definition CORE_VERSION_SCHEDULE_KEY :: string where
  "CORE_VERSION_SCHEDULE_KEY = ''resource:sing-box-version''"

definition RULE_SET_SCHEDULE_KEY :: string where
  "RULE_SET_SCHEDULE_KEY = ''resource:rulesets''"

definition wall_seconds :: "int \<Rightarrow> (SchedulerError, int) rresult" where
  "wall_seconds clock =
     (if clock < 0 then Err InvalidWallTime
      else let secs = clock div 1000000000
           in if secs \<le> i64_max then Ok secs else Err InvalidWallTime)"

text \<open>\<open>Duration::from_secs(next.saturating_sub(now).try_into().unwrap_or(0))\<close>.\<close>

definition wakeup_duration :: "int \<Rightarrow> ScheduleRecord \<Rightarrow> duration" where
  "wakeup_duration now r =
     (let d = i64_sat_sub (next_run_wall_seconds r) now in from_secs (if 0 \<le> d then nat d else 0))"

subsection \<open>The schedule of a resource\<close>

record 's PersistentResourceSchedule =
  rs_engine :: "'s SchedulerEngine"
  rs_key :: ScheduleKey

definition resource_load ::
  "'s load_op \<Rightarrow> 's save_op \<Rightarrow> 's \<Rightarrow> string \<Rightarrow> int
   \<Rightarrow> (SchedulerError, 's PersistentResourceSchedule) rresult" where
  "resource_load load_recs save_rec st key clock =
     and_then (engine_load load_recs st schedule_policy_default) (\<lambda>eng.
     and_then (schedule_key_new key) (\<lambda>key.
     and_then (wall_seconds clock) (\<lambda>now.
       case ensure save_rec eng key now of
         (Inl e, _) \<Rightarrow> Err e
       | (Inr _, eng) \<Rightarrow> Ok \<lparr>rs_engine = eng, rs_key = key\<rparr>)))"

definition resource_next_wakeup_in :: "'s PersistentResourceSchedule \<Rightarrow> int \<Rightarrow> duration option" where
  "resource_next_wakeup_in s clock =
     (case wall_seconds clock of
        Inl _ \<Rightarrow> None
      | Inr now \<Rightarrow> map_option (wakeup_duration now) (engine_record (rs_engine s) (rs_key s)))"

definition resource_take_due ::
  "'s PersistentResourceSchedule \<Rightarrow> int
   \<Rightarrow> (SchedulerError, bool) rresult \<times> 's PersistentResourceSchedule" where
  "resource_take_due s clock =
     (case wall_seconds clock of
        Inl e \<Rightarrow> (Err e, s)
      | Inr now \<Rightarrow>
          (case due (rs_engine s) now of
             (Inl e, eng) \<Rightarrow> (Err e, s\<lparr>rs_engine := eng\<rparr>)
           | (Inr keys, eng) \<Rightarrow> (Ok (list_ex (\<lambda>key. key = rs_key s) keys), s\<lparr>rs_engine := eng\<rparr>)))"

definition resource_record_result ::
  "'s save_op \<Rightarrow> 's PersistentResourceSchedule \<Rightarrow> bool \<Rightarrow> int
   \<Rightarrow> (SchedulerError, unit) rresult \<times> 's PersistentResourceSchedule" where
  "resource_record_result save_rec s succeeded clock =
     (case wall_seconds clock of
        Inl e \<Rightarrow> (Err e, s)
      | Inr now \<Rightarrow>
          (case (if succeeded then mark_success save_rec (rs_engine s) (rs_key s) now
                 else mark_failure save_rec (rs_engine s) (rs_key s) now) of
             (res, eng) \<Rightarrow> (res, s\<lparr>rs_engine := eng\<rparr>)))"

definition core_version_load ::
  "'s load_op \<Rightarrow> 's save_op \<Rightarrow> 's \<Rightarrow> int \<Rightarrow> (SchedulerError, 's PersistentResourceSchedule) rresult" where
  "core_version_load load_recs save_rec st = resource_load load_recs save_rec st CORE_VERSION_SCHEDULE_KEY"

definition rule_set_load ::
  "'s load_op \<Rightarrow> 's save_op \<Rightarrow> 's \<Rightarrow> int \<Rightarrow> (SchedulerError, 's PersistentResourceSchedule) rresult" where
  "rule_set_load load_recs save_rec st = resource_load load_recs save_rec st RULE_SET_SCHEDULE_KEY"

subsection \<open>The schedule of the sources\<close>

record 's PersistentUpdateSchedule =
  us_engine :: "'s SchedulerEngine"
  us_on :: bool
  us_keys :: "ScheduleKey list"
  us_pending :: "ScheduleKey list"

definition update_schedule_load ::
  "'s load_op \<Rightarrow> 's \<Rightarrow> (SchedulerError, 's PersistentUpdateSchedule) rresult" where
  "update_schedule_load load_recs st =
     and_then (engine_load load_recs st schedule_policy_default)
       (\<lambda>eng. Ok \<lparr>us_engine = eng, us_on = False, us_keys = [], us_pending = []\<rparr>)"

fun ensure_all ::
  "'s save_op \<Rightarrow> 's SchedulerEngine \<Rightarrow> ScheduleKey list \<Rightarrow> int
   \<Rightarrow> (SchedulerError, unit) rresult \<times> 's SchedulerEngine" where
  "ensure_all save_rec eng [] now = (Ok (), eng)"
| "ensure_all save_rec eng (key # keys) now =
     (case ensure save_rec eng key now of
        (Inl e, eng) \<Rightarrow> (Err e, eng)
      | (Inr _, eng) \<Rightarrow> ensure_all save_rec eng keys now)"

definition configured_policy :: "u16 \<Rightarrow> (SchedulerError, SchedulePolicy) rresult" where
  "configured_policy interval_hours =
     (let interval = uint interval_hours * 60 * 60
      in schedule_policy_new interval (60 * 60) (min interval (24 * 60 * 60))
           (min (15 * 60) (interval div 2)))"

definition configure ::
  "'s save_op \<Rightarrow> 's PersistentUpdateSchedule \<Rightarrow> bool \<Rightarrow> u16 \<Rightarrow> SourceConfig \<Rightarrow> int
   \<Rightarrow> (SchedulerError, unit) rresult \<times> 's PersistentUpdateSchedule" where
  "configure save_rec s enabled interval_hours sources clock =
     (case configured_policy interval_hours of
        Inl e \<Rightarrow> (Err e, s)
      | Inr policy \<Rightarrow>
          let s = s\<lparr>us_engine := set_policy (us_engine s) policy, us_on := enabled, us_pending := []\<rparr>
          in case collect_results (\<lambda>source. schedule_key_new (sd_id source)) (active_sources sources) of
               Inl e \<Rightarrow> (Err e, s)
             | Inr keys \<Rightarrow>
                 let s = s\<lparr>us_keys := keys\<rparr>
                 in case wall_seconds clock of
                      Inl e \<Rightarrow> (Err e, s)
                    | Inr now \<Rightarrow>
                        (case ensure_all save_rec (us_engine s) keys now of
                           (res, eng) \<Rightarrow> (res, s\<lparr>us_engine := eng\<rparr>)))"

definition filter_map :: "('a \<Rightarrow> 'b option) \<Rightarrow> 'a list \<Rightarrow> 'b list" where
  "filter_map f xs = concat (map (\<lambda>x. option_list (f x)) xs)"

definition list_min :: "'a::linorder list \<Rightarrow> 'a option" where
  "list_min xs = (case xs of [] \<Rightarrow> None | x # ys \<Rightarrow> Some (fold min ys x))"

definition next_wakeup_in :: "'s PersistentUpdateSchedule \<Rightarrow> int \<Rightarrow> duration option" where
  "next_wakeup_in s clock =
     (if \<not> us_on s \<or> us_keys s = [] \<or> us_pending s \<noteq> [] then None
      else case wall_seconds clock of
        Inl _ \<Rightarrow> None
      | Inr now \<Rightarrow>
          list_min (map (wakeup_duration now) (filter_map (engine_record (us_engine s)) (us_keys s))))"

definition take_due ::
  "'s PersistentUpdateSchedule \<Rightarrow> int \<Rightarrow> (SchedulerError, bool) rresult \<times> 's PersistentUpdateSchedule"
  where
  "take_due s clock =
     (if \<not> us_on s \<or> us_keys s = [] \<or> us_pending s \<noteq> [] then (Ok False, s)
      else case wall_seconds clock of
        Inl e \<Rightarrow> (Err e, s)
      | Inr now \<Rightarrow>
          (case due (us_engine s) now of
             (Inl e, eng) \<Rightarrow> (Err e, s\<lparr>us_engine := eng\<rparr>)
           | (Inr keys, eng) \<Rightarrow>
               let pending = filter (\<lambda>key. key \<in> set (us_keys s)) keys
               in (Ok (pending \<noteq> []), s\<lparr>us_engine := eng, us_pending := pending\<rparr>)))"

text \<open>The loop over \<open>pending.drain(..)\<close>; leaving it early drops what is left of the drained vector.\<close>

fun mark_all ::
  "'s save_op \<Rightarrow> 's SchedulerEngine \<Rightarrow> ScheduleKey list \<Rightarrow> int \<Rightarrow> bool
   \<Rightarrow> (SchedulerError, unit) rresult \<times> 's SchedulerEngine" where
  "mark_all save_rec eng [] now succeeded = (Ok (), eng)"
| "mark_all save_rec eng (key # keys) now succeeded =
     (case (if succeeded then mark_success save_rec eng key now else mark_failure save_rec eng key now) of
        (Inl e, eng) \<Rightarrow> (Err e, eng)
      | (Inr _, eng) \<Rightarrow> mark_all save_rec eng keys now succeeded)"

definition record_result ::
  "'s save_op \<Rightarrow> 's PersistentUpdateSchedule \<Rightarrow> bool \<Rightarrow> int
   \<Rightarrow> (SchedulerError, unit) rresult \<times> 's PersistentUpdateSchedule" where
  "record_result save_rec s succeeded clock =
     (case wall_seconds clock of
        Inl e \<Rightarrow> (Err e, s)
      | Inr now \<Rightarrow>
          (case mark_all save_rec (us_engine s) (us_pending s) now succeeded of
             (res, eng) \<Rightarrow> (res, s\<lparr>us_engine := eng, us_pending := []\<rparr>)))"

text \<open>The schedules that are not available answer without a state.\<close>

definition unavailable_next_wakeup_in :: "duration option" where
  "unavailable_next_wakeup_in = None"

definition unavailable_take_due :: "(SchedulerError, bool) rresult" where
  "unavailable_take_due = Ok False"

definition unavailable_record_result :: "bool \<Rightarrow> (SchedulerError, unit) rresult" where
  "unavailable_record_result succeeded = Ok ()"

subsection \<open>Clock readings\<close>

definition clock_at :: "int \<Rightarrow> int" where
  "clock_at secs = secs * 1000000000"

lemma wall_seconds_at: "0 \<le> t \<Longrightarrow> t \<le> i64_max \<Longrightarrow> wall_seconds (clock_at t) = Ok t"
  by (simp add: wall_seconds_def clock_at_def)

text \<open>The readings at which an engine answers: the clock is in range and not behind any record, and no
  record has a negative time.\<close>

definition clock_ready :: "'s SchedulerEngine \<Rightarrow> int \<Rightarrow> bool" where
  "clock_ready eng t \<longleftrightarrow> engine_wf eng \<and> 0 \<le> t \<and> t \<le> i64_max
     \<and> (\<forall>k r. engine_record eng k = Some r \<longrightarrow> last_observed_wall_seconds r \<le> t
          \<and> 0 \<le> next_run_wall_seconds r \<and> next_run_wall_seconds r \<le> i64_max)"

lemma from_secs_le_iff: "from_secs a \<le> from_secs b \<longleftrightarrow> a \<le> b"
  by (simp add: from_secs_def)

lemma wakeup_duration_le:
  assumes "0 \<le> now" "now \<le> t" "t \<le> i64_max" "0 \<le> next_run_wall_seconds r" "next_run_wall_seconds r \<le> i64_max"
  shows "wakeup_duration now r \<le> from_secs (nat (t - now)) \<longleftrightarrow> next_run_wall_seconds r \<le> t"
  using assms by (auto simp: wakeup_duration_def Let_def i64_defs from_secs_le_iff nat_le_iff)

lemma due_ready:
  assumes "clock_ready eng t"
  shows "fst (due eng t) = Ok (filter (\<lambda>k. \<exists>r. engine_record eng k = Some r \<and> next_run_wall_seconds r \<le> t)
    (bt_keys (se_records eng)))"
proof -
  have "\<not> (\<exists>k r. engine_record eng k = Some r \<and> t < last_observed_wall_seconds r)"
    using assms by (auto simp: clock_ready_def not_less)
  then show ?thesis using assms due_result [of eng t] by (simp only: clock_ready_def if_False)
qed

lemma list_min_le_iff: "list_min xs = Some m \<Longrightarrow> m \<le> b \<longleftrightarrow> (\<exists>x\<in>set xs. x \<le> b)"
proof (cases xs)
  case (Cons x ys)
  moreover assume "list_min xs = Some m"
  ultimately have "m = Min (set xs)"
    by (simp add: list_min_def Min.set_eq_fold [symmetric])
  then show ?thesis using Cons by (simp add: Min_le_iff)
qed (simp add: list_min_def)

lemma set_filter_map: "set (filter_map f xs) = {y. \<exists>x\<in>set xs. f x = Some y}"
  by (auto simp: filter_map_def option_list_def split: option.splits)

subsection \<open>Waking up\<close>

text \<open>The contract of a schedule towards the worker's loop, which sleeps for the announced duration and
  then asks what is due: the announced duration is exactly the time until something is due.\<close>

locale runtime_schedule =
  fixes wakeup :: "'s \<Rightarrow> int \<Rightarrow> duration option"
    and take :: "'s \<Rightarrow> int \<Rightarrow> (SchedulerError, bool) rresult \<times> 's"
    and ready :: "'s \<Rightarrow> int \<Rightarrow> bool"
  assumes ready_range: "ready s t \<Longrightarrow> 0 \<le> t \<and> t \<le> i64_max"
    and wakeup_exact: "wakeup s (clock_at now) = Some d \<Longrightarrow> 0 \<le> now \<Longrightarrow> now \<le> t \<Longrightarrow> ready s t \<Longrightarrow>
      fst (take s (clock_at t)) = Ok (d \<le> from_secs (nat (t - now)))"
begin

text \<open>Sleeping as long as announced is enough, and nothing is due at an earlier second.\<close>

lemma sleep_enough:
  assumes "wakeup s (clock_at now) = Some (from_secs n)" "0 \<le> now" "ready s (now + int n)"
  shows "fst (take s (clock_at (now + int n))) = Ok True"
  using wakeup_exact [OF assms(1,2) _ assms(3)] by simp

lemma not_before:
  assumes "wakeup s (clock_at now) = Some (from_secs n)" "0 \<le> now" "m < n" "ready s (now + int m)"
  shows "fst (take s (clock_at (now + int m))) = Ok False"
  using wakeup_exact [OF assms(1,2) _ assms(4)] assms(3) by (simp add: from_secs_le_iff)

end

definition resource_ready :: "'s PersistentResourceSchedule \<Rightarrow> int \<Rightarrow> bool" where
  "resource_ready s t \<longleftrightarrow> clock_ready (rs_engine s) t"

definition update_ready :: "'s PersistentUpdateSchedule \<Rightarrow> int \<Rightarrow> bool" where
  "update_ready s t \<longleftrightarrow> clock_ready (us_engine s) t"

lemma fst_due_cases:
  assumes "fst (due eng now) = Ok keys"
  obtains eng' where "due eng now = (Ok keys, eng')"
  using assms by (cases "due eng now") auto

lemma in_bt_keys: "k \<in> set (bt_keys (se_records eng)) \<longleftrightarrow> (\<exists>r. engine_record eng k = Some r)"
  using bt_get_None_iff [of "se_records eng" k] by (auto simp: engine_record_def)

lemma resource_wakeup_exact:
  assumes "resource_next_wakeup_in s (clock_at now) = Some d" "0 \<le> now" "now \<le> t" "resource_ready s t"
  shows "fst (resource_take_due s (clock_at t)) = Ok (d \<le> from_secs (nat (t - now)))"
proof -
  have ready: "clock_ready (rs_engine s) t" and t: "0 \<le> t" "t \<le> i64_max"
    using assms(4) by (auto simp: resource_ready_def clock_ready_def)
  obtain r where r: "engine_record (rs_engine s) (rs_key s) = Some r" "d = wakeup_duration now r"
    using assms(1,2,3) t by (auto simp: resource_next_wakeup_in_def wall_seconds_at)
  have "d \<le> from_secs (nat (t - now)) \<longleftrightarrow> next_run_wall_seconds r \<le> t"
    using wakeup_duration_le [OF assms(2,3) t(2), of r] ready r by (auto simp: clock_ready_def)
  moreover obtain eng' where "due (rs_engine s) t = (Ok (filter (\<lambda>k. \<exists>r. engine_record (rs_engine s) k = Some r
      \<and> next_run_wall_seconds r \<le> t) (bt_keys (se_records (rs_engine s)))), eng')"
    using fst_due_cases [OF due_ready [OF ready]] .
  ultimately show ?thesis
    using r t by (auto simp: resource_take_due_def wall_seconds_at list_ex_iff in_bt_keys)
qed

lemma update_wakeup_exact:
  assumes "next_wakeup_in s (clock_at now) = Some d" "0 \<le> now" "now \<le> t" "update_ready s t"
  shows "fst (take_due s (clock_at t)) = Ok (d \<le> from_secs (nat (t - now)))"
proof -
  have ready: "clock_ready (us_engine s) t" and t: "0 \<le> t" "t \<le> i64_max"
    using assms(4) by (auto simp: update_ready_def clock_ready_def)
  let ?recs = "filter_map (engine_record (us_engine s)) (us_keys s)"
  have on: "us_on s" "us_keys s \<noteq> []" "us_pending s = []"
    and d: "list_min (map (wakeup_duration now) ?recs) = Some d"
    using assms(1,2,3) t by (auto simp: next_wakeup_in_def wall_seconds_at split: if_splits)
  have "d \<le> from_secs (nat (t - now)) \<longleftrightarrow> (\<exists>r\<in>set ?recs. next_run_wall_seconds r \<le> t)"
    using list_min_le_iff [OF d] wakeup_duration_le [OF assms(2,3) t(2)] ready
    by (auto simp: set_filter_map clock_ready_def)
  moreover obtain eng' where "due (us_engine s) t = (Ok (filter (\<lambda>k. \<exists>r. engine_record (us_engine s) k = Some r
      \<and> next_run_wall_seconds r \<le> t) (bt_keys (se_records (us_engine s)))), eng')"
    using fst_due_cases [OF due_ready [OF ready]] .
  ultimately show ?thesis
    using on t by (auto simp: take_due_def wall_seconds_at set_filter_map in_bt_keys filter_empty_conv)
qed

interpretation resource_schedule: runtime_schedule resource_next_wakeup_in resource_take_due resource_ready
  by unfold_locales (auto simp: resource_wakeup_exact resource_ready_def clock_ready_def)

interpretation update_schedule: runtime_schedule next_wakeup_in take_due update_ready
  by unfold_locales (auto simp: update_wakeup_exact update_ready_def clock_ready_def)

subsection \<open>Policies of the configuration\<close>

lemma uint_positive:
  fixes w :: "'a::len word"
  assumes "w \<noteq> 0"
  shows "1 \<le> uint w"
proof -
  have "uint w \<noteq> 0" using assms by (simp add: uint_0_iff)
  with uint_ge_0 [of w] show ?thesis by linarith
qed

lemma configured_policy_Ok:
  "configured_policy h = Ok p \<longleftrightarrow> h \<noteq> 0
     \<and> p = \<lparr>interval_seconds = uint h * 3600, failure_backoff_seconds = 3600,
           max_backoff_seconds = min (uint h * 3600) 86400, jitter_seconds = 900\<rparr>"
proof (cases "h = 0")
  case False
  then have "1 \<le> uint h" by (rule uint_positive)
  then have "\<not> uint h * 3600 \<le> 0" "\<not> min (uint h * 3600) 86400 < 3600"
      "min 900 (uint h * 3600 div 2) = 900"
    by auto
  with False show ?thesis
    by (auto simp: configured_policy_def schedule_policy_new_def Let_def)
qed (simp add: configured_policy_def schedule_policy_new_def)

lemma clamp_ge: "in_i64 a \<Longrightarrow> a \<le> x \<Longrightarrow> a \<le> i64_clamp x"
  by (simp add: i64_defs)

text \<open>Under such a policy a recorded result moves the next run at least 45 minutes ahead.\<close>

lemma marked_record_later:
  assumes "configured_policy h = Ok p" "0 \<le> now" "now \<le> 2 ^ 62"
  shows "now + 2700 \<le> next_run_wall_seconds (marked_record p r now failure)"
proof -
  have h: "1 \<le> uint h" "uint h < 2 ^ 16"
    using assms(1) uint_bounded [of h] by (simp_all add: configured_policy_Ok uint_positive)
  have p: "interval_seconds p = uint h * 3600" "failure_backoff_seconds p = 3600"
      "max_backoff_seconds p = min (uint h * 3600) 86400" "jitter_seconds p = 900"
    using assms(1) by (simp_all add: configured_policy_Ok)
  define base where "base = (if failure then min (i64_sat_mul (failure_backoff_seconds p)
      (2 ^ min (unat (failure_count (marked_record p r now failure)) - 1) 6)) (max_backoff_seconds p)
    else interval_seconds p)"
  have "3600 \<le> i64_sat_mul 3600 (2 ^ e)" for e :: nat
    unfolding i64_sat_mul_def by (rule clamp_ge) (simp_all add: i64_defs)
  then have base: "3600 \<le> base" "base \<le> 2 ^ 28" using h by (auto simp: base_def p)
  have jitter: "- 900 \<le> stable_jitter (sr_key r) 900" "stable_jitter (sr_key r) 900 \<le> 900"
    using stable_jitter_bounds [of 900 "sr_key r"] by simp_all
  have "in_i64 (now + base)" "in_i64 (now + base + stable_jitter (sr_key r) 900)"
    using base jitter assms(2,3) by (simp_all add: in_i64_def i64_min_def i64_max_def)
  then show ?thesis
    using base jitter unfolding next_run_marked base_def [symmetric] p(4) i64_sat_add_def
    by (simp add: i64_clamp_id)
qed

lemma update_Ok_get:
  assumes "engine_wf eng" "update save_rec eng key now failure = (Ok u, eng')"
  obtains r where "engine_record eng' = (engine_record eng)(key \<mapsto> marked_record (se_policy eng) r now failure)"
    "engine_wf eng'" "se_policy eng' = se_policy eng"
proof -
  have wf: "engine_wf eng'" "se_policy eng' = se_policy eng"
    using update_wf [OF assms(1), of save_rec key now failure] assms(2)
      update_policy [of save_rec eng key now failure] by simp_all
  have "bt_wf (se_records eng)" using assms(1) by (simp add: engine_wf_def)
  with assms(2) show thesis
    by (auto intro!: that wf simp: update_eq [OF assms(1)] Let_def engine_record_def bt_get_insert
        split: if_splits option.splits prod.splits)
qed

lemma mark_all_later:
  assumes "mark_all save_rec eng keys now succeeded = (Ok u, eng')" "engine_wf eng"
    and "configured_policy h = Ok (se_policy eng)" "0 \<le> now" "now \<le> 2 ^ 62"
  shows "\<forall>k\<in>set keys \<union> {k. \<exists>r. engine_record eng k = Some r \<and> now + 2700 \<le> next_run_wall_seconds r}.
    \<exists>r. engine_record eng' k = Some r \<and> now + 2700 \<le> next_run_wall_seconds r"
  using assms(1-3)
proof (induction keys arbitrary: eng)
  case (Cons key keys)
  obtain eng1 where step: "update save_rec eng key now (\<not> succeeded) = (Ok (), eng1)"
    and rest: "mark_all save_rec eng1 keys now succeeded = (Ok u, eng')"
    using Cons.prems(1) by (auto simp: mark_success_def mark_failure_def split: prod.splits sum.splits if_splits)
  from Cons.prems(2) step show ?case
  proof (rule update_Ok_get)
    fix r
    assume rec: "engine_record eng1 = (engine_record eng)(key \<mapsto> marked_record (se_policy eng) r now (\<not> succeeded))"
      and wf: "engine_wf eng1" "se_policy eng1 = se_policy eng"
    have "now + 2700 \<le> next_run_wall_seconds (marked_record (se_policy eng) r now (\<not> succeeded))"
      using marked_record_later [OF Cons.prems(3) assms(4,5)] .
    with Cons.IH [OF rest wf(1)] wf(2) Cons.prems(3) rec show ?thesis by auto
  qed
qed simp

lemma ensure_Ok_get:
  assumes "engine_wf eng" "ensure save_rec eng key now = (Ok r, eng')"
  shows "engine_record eng' key \<noteq> None \<and> (\<forall>k. engine_record eng k \<noteq> None \<longrightarrow> engine_record eng' k \<noteq> None)
    \<and> se_policy eng' = se_policy eng"
  using assms
  by (auto simp: ensure_def Let_def engine_record_def engine_wf_def bt_get_insert
      split: sum.splits option.splits prod.splits if_splits)

lemma ensure_all_Ok:
  assumes "ensure_all save_rec eng keys now = (Ok u, eng')" "engine_wf eng"
  shows "(\<forall>k\<in>set keys \<union> {k. engine_record eng k \<noteq> None}. engine_record eng' k \<noteq> None)
    \<and> se_policy eng' = se_policy eng"
  using assms
proof (induction keys arbitrary: eng)
  case (Cons key keys)
  obtain r eng1 where step: "ensure save_rec eng key now = (Ok r, eng1)"
    and rest: "ensure_all save_rec eng1 keys now = (Ok u, eng')"
    using Cons.prems(1) by (auto split: prod.splits sum.splits)
  have "engine_wf eng1" using ensure_wf [OF Cons.prems(2), of save_rec key now] step by simp
  with Cons.IH [OF rest] ensure_Ok_get [OF Cons.prems(2) step] show ?case by auto
qed simp

subsection \<open>Properties\<close>

text \<open>C31. The source schedule's announced wake-up is exact: when it announces n seconds, asking n seconds
  later finds something due, and asking at any earlier second finds nothing, as long as no clock
  reading is behind a record.\<close>

theorem update_wakeup_is_exact:
  assumes "next_wakeup_in s (clock_at now) = Some (from_secs n)" "0 \<le> now"
    and "m \<le> n" "update_ready s (now + int m)"
  shows "fst (take_due s (clock_at (now + int m))) = Ok (m = n)"
proof (cases "m = n")
  case True
  then show ?thesis using update_schedule.sleep_enough [OF assms(1,2)] assms(4) by simp
next
  case False
  then show ?thesis using update_schedule.not_before [OF assms(1,2) _ assms(4)] assms(3) by simp
qed

definition sample_schedule :: "InMemoryScheduleStore PersistentUpdateSchedule" where
  "sample_schedule = \<lparr>us_engine = sample_engine\<lparr>se_records := [(''a'', \<lparr>sr_key = ''a'',
      next_run_wall_seconds = 90, failure_count = 0, last_observed_wall_seconds = 0\<rparr>)]\<rparr>,
    us_on = True, us_keys = [''a''], us_pending = []\<rparr>"

lemma sample_schedule_ready:
  "update_ready sample_schedule 90"
  "next_wakeup_in sample_schedule (clock_at 50) = Some (from_secs 40)"
  by (simp_all add: update_ready_def clock_ready_def sample_schedule_def sample_engine_def engine_wf_def
      bt_wf_def bt_keys_def engine_record_def bt_get_def i64_defs next_wakeup_in_def wall_seconds_def
      clock_at_def filter_map_def option_list_def list_min_def wakeup_duration_def)

theorem update_wakeup_is_exact_witness:
  "fst (take_due sample_schedule (clock_at (50 + int 40))) = Ok ((40::nat) = 40)"
  by (rule update_wakeup_is_exact [where n = 40]) (simp_all add: sample_schedule_ready)

text \<open>C32. Recording a result under a configured policy empties the pending list and moves the next run
  of every key that was pending at least 45 minutes past the recording, after success and after
  failure, so that the loop cannot spin.\<close>

theorem recorded_keys_run_later:
  assumes "record_result save_rec s succeeded (clock_at now) = (Ok (), s')"
    and "engine_wf (us_engine s)" "configured_policy hours = Ok (se_policy (us_engine s))"
    and "0 \<le> now" "now \<le> 2 ^ 62"
  shows "us_pending s' = [] \<and> (\<forall>k\<in>set (us_pending s).
    \<exists>r. engine_record (us_engine s') k = Some r \<and> now + 2700 \<le> next_run_wall_seconds r)"
proof -
  have "wall_seconds (clock_at now) = Ok now"
    using assms(4,5) by (intro wall_seconds_at) (simp_all add: i64_max_def)
  then obtain eng where "mark_all save_rec (us_engine s) (us_pending s) now succeeded = (Ok (), eng)"
      "s' = s\<lparr>us_engine := eng, us_pending := []\<rparr>"
    using assms(1) by (auto simp: record_result_def split: prod.splits)
  with mark_all_later [OF this(1) assms(2-5)] show ?thesis by auto
qed

theorem recorded_keys_run_later_witness:
  "\<exists>s'. record_result mem_save
      (sample_schedule\<lparr>us_engine := set_policy (us_engine sample_schedule) schedule_policy_default,
                       us_pending := [''a'']\<rparr>) False (clock_at 100) = (Ok (), s')
    \<and> (\<exists>r. engine_record (us_engine s') ''a'' = Some r \<and> 2800 \<le> next_run_wall_seconds r)"
proof -
  let ?s = "sample_schedule\<lparr>us_engine := set_policy (us_engine sample_schedule) schedule_policy_default,
      us_pending := [''a'']\<rparr>"
  have wf: "engine_wf (us_engine ?s)" and policy: "configured_policy 24 = Ok (se_policy (us_engine ?s))"
    by (simp_all add: configured_policy_Ok set_policy_def schedule_defaults sample_schedule_def
        sample_engine_def engine_wf_def bt_wf_def bt_keys_def)
  have "fst (update mem_save (us_engine ?s) ''a'' 100 True) = Ok ()"
    unfolding update_eq [OF wf] mem_save_def Let_def
    by (simp add: sample_schedule_def sample_engine_def set_policy_def bt_get_def)
  then obtain eng where "update mem_save (us_engine ?s) ''a'' 100 True = (Ok (), eng)"
    by (cases "update mem_save (us_engine ?s) ''a'' 100 True") simp
  moreover have "wall_seconds (clock_at 100) = Ok 100" by (simp add: wall_seconds_at i64_max_def)
  ultimately obtain s' where s': "record_result mem_save ?s False (clock_at 100) = (Ok (), s')"
    by (simp add: record_result_def mark_failure_def)
  from recorded_keys_run_later [OF s' wf policy] s' show ?thesis by auto
qed

text \<open>C33. Configuring the source schedule refuses an interval of zero hours and changes nothing then;
  every other interval gives a valid policy. When it succeeds, the keys are the IDs of the active
  sources and each of them has a record.\<close>

theorem configure_covers_active_sources:
  assumes "engine_wf (us_engine s)"
  shows "(hours = 0 \<longrightarrow> configure save_rec s enabled hours sources clock = (Err InvalidPolicy, s))
    \<and> (is_ok (configured_policy hours) \<longleftrightarrow> hours \<noteq> 0)
    \<and> (\<forall>s'. configure save_rec s enabled hours sources clock = (Ok (), s') \<longrightarrow>
         us_keys s' = map sd_id (active_sources sources) \<and> us_on s' = enabled \<and> us_pending s' = []
         \<and> configured_policy hours = Ok (se_policy (us_engine s'))
         \<and> (\<forall>k\<in>set (us_keys s'). engine_record (us_engine s') k \<noteq> None))"
proof (intro conjI allI impI)
  show "configure save_rec s enabled hours sources clock = (Err InvalidPolicy, s)" if "hours = 0"
    using that by (simp add: configure_def configured_policy_def schedule_policy_new_def)
  show "is_ok (configured_policy hours) \<longleftrightarrow> hours \<noteq> 0"
    by (auto simp: is_ok_iff configured_policy_Ok)
next
  fix s'
  assume "configure save_rec s enabled hours sources clock = (Ok (), s')"
  then obtain policy keys now eng where
    policy: "configured_policy hours = Ok policy"
    and keys: "collect_results (\<lambda>source. schedule_key_new (sd_id source)) (active_sources sources) = Ok keys"
    and eng: "ensure_all save_rec (set_policy (us_engine s) policy) keys now = (Ok (), eng)"
    and s': "s' = s\<lparr>us_engine := eng, us_on := enabled, us_pending := [], us_keys := keys\<rparr>"
    by (auto simp: configure_def Let_def split: sum.splits prod.splits)
  have "list_all2 (\<lambda>source k. k = sd_id source) (active_sources sources) keys"
    using keys unfolding collect_results_Inr
    by (rule list_all2_mono) (simp add: schedule_key_new_def split: if_splits)
  then have "keys = map sd_id (active_sources sources)"
    by (induction rule: list_all2_induct) simp_all
  then show "us_keys s' = map sd_id (active_sources sources)" "us_on s' = enabled" "us_pending s' = []"
    by (simp_all add: s')
  have "engine_wf (set_policy (us_engine s) policy)" using assms by simp
  from ensure_all_Ok [OF eng this] show "configured_policy hours = Ok (se_policy (us_engine s'))"
      "\<forall>k\<in>set (us_keys s'). engine_record (us_engine s') k \<noteq> None"
    by (auto simp: s' policy set_policy_def)
qed

theorem configure_covers_active_sources_witness:
  "fst (configure mem_save sample_schedule True 0
     \<lparr>sc_digest = [], sc_config_digest = [], sc_mode = Single, sc_sources = []\<rparr> 0) = Err InvalidPolicy"
  using configure_covers_active_sources [of sample_schedule 0 mem_save True
      "\<lparr>sc_digest = [], sc_config_digest = [], sc_mode = Single, sc_sources = []\<rparr>" 0]
  by (simp add: sample_schedule_def sample_engine_def engine_wf_def bt_wf_def bt_keys_def)

end
