(* ===== verification/Candidate_Pool.thy ===== *)
theory Candidate_Pool
  imports Sources
begin

section \<open>Candidate pools\<close>

text \<open>
  nethopd/src/candidate_pool.rs: which nodes the automatic selection may use. In merge mode the
  sources take turns. A queue and its cursor are the part of the queue from the cursor on; the nodes
  are named by their index in the sorted list of eligible nodes, as in the code, until the end.
\<close>

type_synonym StableNodeId = string

datatype CandidatePoolError = InvalidActiveSources | InvalidLimit | DuplicateNode | EmptyCandidates

record CandidatePoolNode =
  node_id :: StableNodeId
  node_attribution :: "SourceId list"

record SourceContribution =
  ct_source_id :: SourceId
  ct_candidates :: nat

record CandidatePools =
  pool_auto :: "StableNodeId list"
  pool_manual :: "StableNodeId list"
  pool_contributions :: "SourceContribution list"

definition MAX_AUTO_CANDIDATES :: nat where
  "MAX_AUTO_CANDIDATES = 64"

definition validate_inputs ::
  "SubscriptionMode \<Rightarrow> SourceId list \<Rightarrow> CandidatePoolNode list \<Rightarrow> nat \<Rightarrow> (CandidatePoolError, unit) rresult"
  where
  "validate_inputs mode active_ids nodes max_candidates =
     (if active_ids = []
         \<or> length active_ids > MAX_SOURCES
         \<or> length (remdups active_ids) \<noteq> length active_ids
         \<or> mode = Single \<and> length active_ids \<noteq> 1
      then Err InvalidActiveSources
      else if \<not> (1 \<le> max_candidates \<and> max_candidates \<le> MAX_AUTO_CANDIDATES) then Err InvalidLimit
      else if length (remdups (map node_id nodes)) \<noteq> length nodes then Err DuplicateNode
      else Ok ())"

text \<open>The indices of the nodes of one source, in order: what the two nested loops push on its queue.\<close>

definition source_queue :: "CandidatePoolNode list \<Rightarrow> SourceId \<Rightarrow> nat list" where
  "source_queue nodes source_id =
     filter (\<lambda>i. source_id \<in> set (node_attribution (nodes ! i))) [0..<length nodes]"

text \<open>The inner loop: skip visited nodes, take the first other one.\<close>

fun pull :: "bool list \<Rightarrow> nat list \<Rightarrow> nat option \<times> nat list" where
  "pull visited [] = (None, [])"
| "pull visited (node_index # queue) =
     (if visited ! node_index then pull visited queue else (Some node_index, queue))"

text \<open>One round over the sources, left when the selection is full. It returns the queues, the
  contributions, the visited nodes, the selection and whether it selected anything.\<close>

fun sweep ::
  "nat \<Rightarrow> nat list list \<Rightarrow> nat list \<Rightarrow> bool list \<Rightarrow> nat list
   \<Rightarrow> nat list list \<times> nat list \<times> bool list \<times> nat list \<times> bool" where
  "sweep max_candidates (queue # queues) (num # nums) visited selected =
     (case pull visited queue of
        (None, queue) \<Rightarrow>
          if length selected = max_candidates
          then (queue # queues, num # nums, visited, selected, False)
          else (case sweep max_candidates queues nums visited selected of
                  (queues, nums, visited, selected, progressed) \<Rightarrow>
                    (queue # queues, num # nums, visited, selected, progressed))
      | (Some node_index, queue) \<Rightarrow>
          let visited = visited[node_index := True];
              selected = selected @ [node_index];
              num = num + 1
          in if length selected = max_candidates
             then (queue # queues, num # nums, visited, selected, True)
             else (case sweep max_candidates queues nums visited selected of
                     (queues, nums, visited, selected, progressed) \<Rightarrow>
                       (queue # queues, num # nums, visited, selected, True)))"
| "sweep max_candidates queues nums visited selected = (queues, nums, visited, selected, False)"

lemma sweep_length:
  assumes "sweep m queues nums visited selected = (queues', nums', visited', selected', progressed)"
  shows "length selected \<le> length selected' \<and> (progressed \<longrightarrow> length selected < length selected')"
  using assms
  by (induction m queues nums visited selected arbitrary: queues' nums' visited' selected' progressed
      rule: sweep.induct)
    (fastforce simp: Let_def split: prod.splits option.splits if_splits)+

function round_robin_loop ::
  "nat \<Rightarrow> nat list list \<Rightarrow> nat list \<Rightarrow> bool list \<Rightarrow> nat list \<Rightarrow> nat list \<times> nat list" where
  "round_robin_loop max_candidates queues nums visited selected =
     (if length selected < max_candidates
      then case sweep max_candidates queues nums visited selected of
             (queues, nums, visited, selected, progressed) \<Rightarrow>
               if progressed then round_robin_loop max_candidates queues nums visited selected
               else (selected, nums)
      else (selected, nums))"
  by auto
termination
  by (relation "measure (\<lambda>(m, _, _, _, selected). m - length selected)")
    (auto dest!: sweep_length [OF sym])

declare round_robin_loop.simps [simp del]

definition round_robin ::
  "SourceId list \<Rightarrow> CandidatePoolNode list \<Rightarrow> nat \<Rightarrow> StableNodeId list \<times> nat list" where
  "round_robin active_ids nodes max_candidates =
     (case round_robin_loop max_candidates (map (source_queue nodes) active_ids)
             (map (\<lambda>_. 0) active_ids) (map (\<lambda>_. False) nodes) [] of
        (selected, nums) \<Rightarrow> (map (\<lambda>i. node_id (nodes ! i)) selected, nums))"

definition contributions_of :: "SourceId list \<Rightarrow> nat list \<Rightarrow> SourceContribution list" where
  "contributions_of ids nums =
     map (\<lambda>(sid, num). \<lparr>ct_source_id = sid, ct_candidates = num\<rparr>) (zip ids nums)"

definition eligible_nodes :: "SourceId list \<Rightarrow> CandidatePoolNode list \<Rightarrow> CandidatePoolNode list" where
  "eligible_nodes active_ids nodes =
     sort_key node_id
       (filter (\<lambda>node. list_ex (\<lambda>source_id. source_id \<in> set (node_attribution node)) active_ids)
         nodes)"

definition build_candidate_pools ::
  "SubscriptionMode \<Rightarrow> SourceId list \<Rightarrow> CandidatePoolNode list \<Rightarrow> nat
   \<Rightarrow> (CandidatePoolError, CandidatePools) rresult" where
  "build_candidate_pools mode active_ids nodes max_candidates =
     and_then (validate_inputs mode active_ids nodes max_candidates) (\<lambda>_.
       let eligible = eligible_nodes active_ids nodes
       in if eligible = [] then Err EmptyCandidates
          else
            let manual = map node_id eligible;
                (auto_pool, nums) =
                  (case mode of
                     Single \<Rightarrow>
                       let selected = map node_id (take max_candidates eligible)
                       in (selected, (map (\<lambda>_. 0) active_ids)[0 := length selected])
                   | Merge \<Rightarrow> round_robin active_ids eligible max_candidates)
            in Ok \<lparr>pool_auto = auto_pool, pool_manual = manual,
                   pool_contributions = contributions_of active_ids nums\<rparr>)"

subsection \<open>A round\<close>

lemma pull_None: "pull visited queue = (None, queue') \<Longrightarrow> queue' = [] \<and> list_all (\<lambda>i. visited ! i) queue"
  by (induction visited queue rule: pull.induct) (auto split: if_splits)

lemma pull_Some:
  "pull visited queue = (Some i, queue') \<Longrightarrow>
     \<not> visited ! i \<and> (\<exists>skipped. queue = skipped @ i # queue' \<and> list_all (\<lambda>i. visited ! i) skipped)"
proof (induction visited queue rule: pull.induct)
  case (2 visited j queue)
  show ?case
  proof (cases "visited ! j")
    case True
    with 2 obtain skipped where "\<not> visited ! i" "queue = skipped @ i # queue'"
        "list_all (\<lambda>i. visited ! i) skipped"
      by auto
    with True show ?thesis by (auto intro!: exI [of _ "j # skipped"])
  qed (use 2 in simp)
qed simp

text \<open>The flags mark exactly the selected nodes, and no node is selected twice.\<close>

definition marks :: "nat \<Rightarrow> bool list \<Rightarrow> nat list \<Rightarrow> bool" where
  "marks n visited selected \<longleftrightarrow>
     length visited = n \<and> distinct selected \<and> set selected \<subseteq> {..<n}
     \<and> (\<forall>i<n. visited ! i \<longleftrightarrow> i \<in> set selected)"

lemma marks_select:
  "marks n visited selected \<Longrightarrow> i < n \<Longrightarrow> \<not> visited ! i \<Longrightarrow>
     marks n (visited[i := True]) (selected @ [i])"
  by (auto simp: marks_def nth_list_update)

text \<open>Of a queue, a round consumes a part whose nodes are all selected.\<close>

definition consumed :: "nat list \<Rightarrow> nat list \<Rightarrow> nat list \<Rightarrow> bool" where
  "consumed selected queue queue' \<longleftrightarrow> (\<exists>part. queue = part @ queue' \<and> set part \<subseteq> set selected)"

lemma consumed_refl [simp]: "consumed selected queue queue"
  by (simp add: consumed_def)

lemma consumed_trans:
  "consumed selected q q' \<Longrightarrow> consumed selected' q' q'' \<Longrightarrow> set selected \<subseteq> set selected'
     \<Longrightarrow> consumed selected' q q''"
proof -
  assume "consumed selected q q'" "consumed selected' q' q''" "set selected \<subseteq> set selected'"
  then obtain part part' where "q = part @ q'" "q' = part' @ q''" "set part \<subseteq> set selected'"
      "set part' \<subseteq> set selected'"
    by (auto simp: consumed_def)
  then show ?thesis by (auto simp: consumed_def intro!: exI [of _ "part @ part'"])
qed

lemma consumed_Nil: "consumed selected [] q \<longleftrightarrow> q = []"
  by (auto simp: consumed_def)

text \<open>What a round does. The last clause is the turn-taking: a round that was not cut short gave each
  source one more node or found its queue empty.\<close>

definition round_ok ::
  "nat \<Rightarrow> nat \<Rightarrow> nat list list \<Rightarrow> nat list \<Rightarrow> nat list
   \<Rightarrow> nat list list \<times> nat list \<times> bool list \<times> nat list \<times> bool \<Rightarrow> bool" where
  "round_ok n m queues nums selected =
     (\<lambda>(queues', nums', visited', selected', progressed).
        marks n visited' selected'
        \<and> set selected \<subseteq> set selected' \<and> length selected' \<le> m
        \<and> list_all2 (consumed selected') queues queues'
        \<and> length nums' = length nums
        \<and> sum_list nums' + length selected = sum_list nums + length selected'
        \<and> (\<forall>i<length nums. nums ! i \<le> nums' ! i \<and> nums' ! i \<le> nums ! i + 1)
        \<and> (length selected' < m \<longrightarrow> (\<forall>i<length nums. nums' ! i = nums ! i + 1 \<or> queues' ! i = []))
        \<and> (\<not> progressed \<longrightarrow> selected' = selected \<and> list_all (\<lambda>q. q = []) queues'))"

lemma round_ok_cons:
  assumes rest: "round_ok n m queues nums selected1 (queues', nums', visited', selected', progressed)"
    and "length queues = length nums"
    and "consumed selected1 queue queue'" "set selected \<subseteq> set selected1"
    and "num' + length selected = num + length selected1" "num \<le> num'" "num' \<le> num + 1"
    and "num' = num + 1 \<or> queue' = []"
    and "\<not> progressed' \<longrightarrow> \<not> progressed \<and> selected1 = selected \<and> queue' = []"
  shows "round_ok n m (queue # queues) (num # nums) selected
    (queue' # queues', num' # nums', visited', selected', progressed')"
proof -
  have "consumed selected' queue queue'"
    using consumed_trans [OF assms(3) consumed_refl] rest by (simp add: round_ok_def)
  with assms show ?thesis by (auto simp: round_ok_def nth_Cons split: nat.splits)
qed

lemma list_all2_consumed_refl [simp]: "list_all2 (consumed selected) queues queues"
  by (simp add: list_all2_refl)

lemma round_ok_full:
  assumes "marks n visited (selected @ [i])" "length selected + 1 = m" "consumed (selected @ [i]) queue queue'"
  shows "round_ok n m (queue # queues) (num # nums) selected
    (queue' # queues, (num + 1) # nums, visited, selected @ [i], True)"
  using assms by (auto simp: round_ok_def nth_Cons split: nat.splits)

lemma sweep_ok:
  assumes "marks n visited selected" "length selected < m" "length queues = length nums"
    "\<forall>q\<in>set queues. set q \<subseteq> {..<n}"
  shows "round_ok n m queues nums selected (sweep m queues nums visited selected)"
  using assms
proof (induction m queues nums visited selected rule: sweep.induct)
  case (1 m queue queues num nums visited selected)
  have part: "i \<in> set selected" if "i \<in> set queue" "visited ! i" for i
    using that 1(3,6) by (auto simp: marks_def)
  show ?case
  proof (cases "pull visited queue")
    case (Pair r queue')
    show ?thesis
    proof (cases r)
      case None
      have "queue' = []" "set queue \<subseteq> set selected"
        using pull_None [of visited queue queue'] Pair None part by (auto simp: list_all_iff)
      then have cons: "consumed selected queue queue'" by (simp add: consumed_def)
      obtain qs cs v s p where rest: "sweep m queues nums visited selected = (qs, cs, v, s, p)"
        by (cases "sweep m queues nums visited selected")
      have "round_ok n m queues nums selected (qs, cs, v, s, p)"
        using 1(1) [OF Pair [symmetric] None] 1(3-6) rest by simp
      with \<open>queue' = []\<close> cons 1(4,5) show ?thesis
        using Pair None rest by (auto intro!: round_ok_cons)
    next
      case (Some i)
      obtain skipped where q: "\<not> visited ! i" "queue = skipped @ i # queue'" "list_all (\<lambda>i. visited ! i) skipped"
        using pull_Some [of visited queue i queue'] Pair Some by auto
      let ?v = "visited[i := True]" and ?s = "selected @ [i]"
      have marks: "marks n ?v ?s" using marks_select [OF 1(3)] q 1(6) by auto
      have cons: "consumed ?s queue queue'"
        using q part by (auto simp: consumed_def list_all_iff intro!: exI [of _ "skipped @ [i]"])
      show ?thesis
      proof (cases "length ?s = m")
        case True
        then show ?thesis using Pair Some round_ok_full [OF marks _ cons] by simp
      next
        case False
        obtain qs cs v s p where rest: "sweep m queues nums ?v ?s = (qs, cs, v, s, p)"
          by (cases "sweep m queues nums ?v ?s")
        have "round_ok n m queues nums ?s (qs, cs, v, s, p)"
          using 1(2) [OF Pair [symmetric] Some refl refl refl] False marks 1(4-6) rest by simp
        with cons 1(5) show ?thesis
          using Pair Some rest False by (auto simp: Let_def intro!: round_ok_cons)
      qed
    qed
  qed
qed (auto simp: round_ok_def)

subsection \<open>All rounds\<close>

text \<open>Between rounds, after \<open>r\<close> of them: every source has had \<open>r\<close> turns or an empty queue.\<close>

definition rounds_inv ::
  "nat \<Rightarrow> nat \<Rightarrow> nat list list \<Rightarrow> nat \<Rightarrow> nat list list \<Rightarrow> nat list \<Rightarrow> bool list \<Rightarrow> nat list \<Rightarrow> bool" where
  "rounds_inv n m queues0 r queues nums visited selected \<longleftrightarrow>
     marks n visited selected \<and> length selected \<le> m
     \<and> list_all2 (consumed selected) queues0 queues
     \<and> length nums = length queues \<and> sum_list nums = length selected
     \<and> (\<forall>q\<in>set queues. set q \<subseteq> {..<n})
     \<and> (\<forall>i<length nums. nums ! i \<le> r \<and> (nums ! i = r \<or> queues ! i = []))"

text \<open>What the selection is in the end: complete or full, and fair.\<close>

definition selection_ok :: "nat \<Rightarrow> nat \<Rightarrow> nat list list \<Rightarrow> nat list \<times> nat list \<Rightarrow> bool" where
  "selection_ok n m queues0 =
     (\<lambda>(selected, nums).
        distinct selected \<and> set selected \<subseteq> {..<n} \<and> length selected \<le> m
        \<and> length nums = length queues0 \<and> sum_list nums = length selected
        \<and> (length selected = m \<or> (\<forall>q\<in>set queues0. set q \<subseteq> set selected))
        \<and> (\<exists>r. \<forall>i<length nums. nums ! i \<le> r + 1 \<and> (r \<le> nums ! i \<or> set (queues0 ! i) \<subseteq> set selected)))"

lemma list_all2_consumed_trans:
  assumes "list_all2 (consumed s) xs ys" "list_all2 (consumed s') ys zs" "set s \<subseteq> set s'"
  shows "list_all2 (consumed s') xs zs"
  using assms(1,2) consumed_trans [OF _ _ assms(3)] by (rule list_all2_trans [rotated])

lemma rounds_inv_step:
  assumes inv: "rounds_inv n m queues0 r queues nums visited selected" and "length selected < m"
    and step: "sweep m queues nums visited selected = (queues', nums', visited', selected', progressed)"
  shows "round_ok n m queues nums selected (queues', nums', visited', selected', progressed)"
    and "list_all2 (consumed selected') queues0 queues'"
    and "sum_list nums' = length selected'"
    and "\<forall>i<length nums. nums' ! i \<le> r + 1 \<and> (r \<le> nums' ! i \<or> queues' ! i = [])"
proof -
  show ok: "round_ok n m queues nums selected (queues', nums', visited', selected', progressed)"
    using sweep_ok [of n visited selected m queues nums] assms by (simp add: rounds_inv_def)
  show "list_all2 (consumed selected') queues0 queues'"
    using inv ok list_all2_consumed_trans [of selected queues0 queues selected' queues']
    by (simp add: rounds_inv_def round_ok_def)
  show "sum_list nums' = length selected'" using inv ok by (simp add: rounds_inv_def round_ok_def)
  show "\<forall>i<length nums. nums' ! i \<le> r + 1 \<and> (r \<le> nums' ! i \<or> queues' ! i = [])"
  proof (intro allI impI)
    fix i
    assume i: "i < length nums"
    have rel: "list_all2 (consumed selected') queues queues'" using ok by (simp add: round_ok_def)
    have "i < length queues" using i inv by (simp add: rounds_inv_def)
    from list_all2_nthD [OF rel this] have "consumed selected' (queues ! i) (queues' ! i)" .
    then have "queues ! i = [] \<longrightarrow> queues' ! i = []" by (auto simp: consumed_Nil)
    moreover have "nums ! i \<le> nums' ! i" "nums' ! i \<le> nums ! i + 1" using i ok by (simp_all add: round_ok_def)
    moreover have "nums ! i \<le> r" "nums ! i = r \<or> queues ! i = []" using i inv by (simp_all add: rounds_inv_def)
    ultimately show "nums' ! i \<le> r + 1 \<and> (r \<le> nums' ! i \<or> queues' ! i = [])" by auto
  qed
qed

lemma rounds_inv_next:
  assumes inv: "rounds_inv n m queues0 r queues nums visited selected" and "length selected < m"
    and step: "sweep m queues nums visited selected = (queues', nums', visited', selected', progressed)"
    and "length selected' < m"
  shows "rounds_inv n m queues0 (r + 1) queues' nums' visited' selected'"
proof -
  note facts = rounds_inv_step [OF assms(1-3)]
  have rel: "list_all2 (consumed selected') queues queues'" using facts(1) by (simp add: round_ok_def)
  have len: "length nums = length queues" "length nums' = length nums" "length queues' = length queues"
    using facts(1) inv list_all2_lengthD [OF rel] by (simp_all add: round_ok_def rounds_inv_def)
  have "nums' ! i \<le> r + 1 \<and> (nums' ! i = r + 1 \<or> queues' ! i = [])" if "i < length nums" for i
  proof -
    have "consumed selected' (queues ! i) (queues' ! i)"
      using that len by (intro list_all2_nthD [OF rel]) simp
    then have "queues ! i = [] \<longrightarrow> queues' ! i = []" by (auto simp: consumed_Nil)
    moreover have "nums' ! i = nums ! i + 1 \<or> queues' ! i = []"
      using facts(1) assms(4) that by (simp add: round_ok_def)
    moreover have "nums ! i = r \<or> queues ! i = []" using inv that by (simp add: rounds_inv_def)
    ultimately show ?thesis using facts(4) that by auto
  qed
  moreover have "set q \<subseteq> {..<n}" if mem: "q \<in> set queues'" for q
  proof -
    obtain i where i: "i < length queues" "q = queues' ! i" using mem len(3) by (auto simp: in_set_conv_nth)
    then have "set q \<subseteq> set (queues ! i)"
      using list_all2_nthD [OF rel i(1)] by (auto simp: consumed_def)
    also have "\<dots> \<subseteq> {..<n}" using inv i(1) by (simp add: rounds_inv_def)
    finally show ?thesis .
  qed
  ultimately show ?thesis using facts len unfolding rounds_inv_def round_ok_def by simp
qed

lemma consumed_all: "list_all2 (consumed s) queues0 queues \<Longrightarrow> i < length queues0 \<Longrightarrow> queues ! i = [] \<Longrightarrow>
    set (queues0 ! i) \<subseteq> set s"
  by (fastforce simp: list_all2_conv_all_nth consumed_def)

lemma selection_okI:
  assumes "marks n visited selected" "length selected \<le> m" "list_all2 (consumed selected) queues0 queues"
    "length nums = length queues" "sum_list nums = length selected"
    "length selected = m \<or> list_all (\<lambda>q. q = []) queues"
    "\<forall>i<length nums. nums ! i \<le> r + 1 \<and> (r \<le> nums ! i \<or> queues ! i = [])"
  shows "selection_ok n m queues0 (selected, nums)"
proof -
  have len: "length queues0 = length queues" using assms(3) list_all2_lengthD by blast
  have "set q \<subseteq> set selected" if all: "list_all (\<lambda>q. q = []) queues" and q: "q \<in> set queues0" for q
  proof -
    obtain i where i: "i < length queues0" "q = queues0 ! i" using q by (auto simp: in_set_conv_nth)
    with all len have "queues ! i = []" by (simp add: list_all_length)
    with consumed_all [OF assms(3) i(1)] i(2) show ?thesis by simp
  qed
  moreover have "r \<le> nums ! i \<or> set (queues0 ! i) \<subseteq> set selected" if "i < length nums" for i
    using that assms(4,7) consumed_all [OF assms(3), of i] len by auto
  then have "\<exists>r. \<forall>i<length nums. nums ! i \<le> r + 1 \<and> (r \<le> nums ! i \<or> set (queues0 ! i) \<subseteq> set selected)"
    using assms(7) by blast
  ultimately show ?thesis
    using assms(1,2,4,5,6) len unfolding selection_ok_def marks_def by auto
qed

lemma round_robin_loop_ok:
  assumes "rounds_inv n m queues0 r queues nums visited selected"
  shows "selection_ok n m queues0 (round_robin_loop m queues nums visited selected)"
  using assms
proof (induction m queues nums visited selected arbitrary: r rule: round_robin_loop.induct)
  case (1 m queues nums visited selected)
  show ?case
  proof (cases "length selected < m")
    case False
    then have "selection_ok n m queues0 (selected, nums)"
      using 1(2) by (intro selection_okI [where r = r]) (auto simp: rounds_inv_def)
    with False show ?thesis by (subst round_robin_loop.simps) simp
  next
    case True
    obtain queues' nums' visited' selected' progressed where
      sweep: "sweep m queues nums visited selected = (queues', nums', visited', selected', progressed)"
      by (cases "sweep m queues nums visited selected")
    note step = rounds_inv_step [OF 1(2) True sweep]
    have finish: "selection_ok n m queues0 (selected', nums')" if "length selected' = m \<or> \<not> progressed"
      using step that 1(2)
      by (intro selection_okI [where r = r and queues = queues'])
        (auto simp: round_ok_def rounds_inv_def list_all2_lengthD)
    show ?thesis
    proof (cases "progressed \<and> length selected' < m")
      case cont: True
      have "rounds_inv n m queues0 (r + 1) queues' nums' visited' selected'"
        using cont by (intro rounds_inv_next [OF 1(2) True sweep]) simp
      with 1(1) [OF True sweep [symmetric] refl refl refl] cont
      have "selection_ok n m queues0 (round_robin_loop m queues' nums' visited' selected')" by blast
      with True sweep cont show ?thesis by (subst round_robin_loop.simps) simp
    next
      case False
      then have "length selected' = m \<or> \<not> progressed" using step(1) by (auto simp: round_ok_def)
      moreover have "round_robin_loop m queues' nums' visited' selected' = (selected', nums')"
        if "length selected' = m"
        using that by (subst round_robin_loop.simps) simp
      ultimately have "round_robin_loop m queues nums visited selected = (selected', nums')"
        using True sweep by (subst round_robin_loop.simps) auto
      with finish \<open>length selected' = m \<or> \<not> progressed\<close> show ?thesis by simp
    qed
  qed
qed

subsection \<open>The pools\<close>

lemma source_queue_set:
  "set (source_queue nodes sid) = {i. i < length nodes \<and> sid \<in> set (node_attribution (nodes ! i))}"
  by (auto simp: source_queue_def)

lemma round_robin_ok:
  obtains selected nums where
    "round_robin ids nodes m = (map (\<lambda>i. node_id (nodes ! i)) selected, nums)"
    "selection_ok (length nodes) m (map (source_queue nodes) ids) (selected, nums)"
proof -
  have "rounds_inv (length nodes) m (map (source_queue nodes) ids) 0 (map (source_queue nodes) ids)
      (map (\<lambda>_. 0) ids) (map (\<lambda>_. False) nodes) []"
    by (auto simp: rounds_inv_def marks_def source_queue_set sum_list_0 list_all2_refl)
  note ok = round_robin_loop_ok [OF this]
  show thesis
  proof (cases "round_robin_loop m (map (source_queue nodes) ids) (map (\<lambda>_. 0) ids) (map (\<lambda>_. False) nodes) []")
    case (Pair selected nums)
    with ok show thesis by (intro that [of selected nums]) (simp_all add: round_robin_def)
  qed
qed

lemma eligible_nodes_facts:
  assumes "distinct (map node_id nodes)"
  shows "distinct (map node_id (eligible_nodes ids nodes))"
    and "sorted (map node_id (eligible_nodes ids nodes))"
    and "set (eligible_nodes ids nodes) = {node \<in> set nodes. set (node_attribution node) \<inter> set ids \<noteq> {}}"
proof -
  let ?xs = "filter (\<lambda>node. list_ex (\<lambda>sid. sid \<in> set (node_attribution node)) ids) nodes"
  have "distinct (map node_id ?xs)" using assms by (rule distinct_map_filter)
  then show "distinct (map node_id (eligible_nodes ids nodes))"
    by (simp add: eligible_nodes_def distinct_map)
  show "sorted (map node_id (eligible_nodes ids nodes))" by (simp add: eligible_nodes_def)
  show "set (eligible_nodes ids nodes) = {node \<in> set nodes. set (node_attribution node) \<inter> set ids \<noteq> {}}"
    by (auto simp: eligible_nodes_def list_ex_iff disjoint_iff)
qed

lemma selection_complete:
  assumes "selection_ok (length nodes) m (map (source_queue nodes) ids) (selected, nums)"
    and "\<forall>node\<in>set nodes. set (node_attribution node) \<inter> set ids \<noteq> {}"
  shows "length selected = min m (length nodes)"
proof -
  have sel: "distinct selected" "set selected \<subseteq> {..<length nodes}" "length selected \<le> m"
    using assms(1) by (simp_all add: selection_ok_def)
  have "{..<length nodes} \<subseteq> set selected" if "length selected \<noteq> m"
  proof
    fix i
    assume i: "i \<in> {..<length nodes}"
    then have "nodes ! i \<in> set nodes" by simp
    then obtain sid where "sid \<in> set (node_attribution (nodes ! i))" "sid \<in> set ids" using assms(2) by blast
    then show "i \<in> set selected" using assms(1) that i by (auto simp: selection_ok_def source_queue_set)
  qed
  then have "length selected \<noteq> m \<Longrightarrow> set selected = {..<length nodes}" using sel(2) by blast
  then have full: "length selected \<noteq> m \<Longrightarrow> length selected = length nodes"
    using distinct_card [OF sel(1)] by simp
  have "length selected \<le> length nodes"
    using card_mono [OF _ sel(2)] distinct_card [OF sel(1)] by simp
  with full sel(3) show ?thesis by linarith
qed

lemma validate_inputs_Ok:
  "validate_inputs mode ids nodes m = Ok u \<longleftrightarrow>
     ids \<noteq> [] \<and> length ids \<le> MAX_SOURCES \<and> distinct ids \<and> (mode = Single \<longrightarrow> length ids = 1)
     \<and> 1 \<le> m \<and> m \<le> MAX_AUTO_CANDIDATES \<and> distinct (map node_id nodes)"
proof -
  have len: "length (remdups xs) = length xs \<longleftrightarrow> distinct xs" for xs :: "'a list"
    by (metis card_distinct distinct_card length_remdups_card_conv)
  have "length (remdups (map node_id nodes)) = length nodes \<longleftrightarrow> distinct (map node_id nodes)"
    using len [of "map node_id nodes"] by simp
  then show ?thesis by (auto simp: validate_inputs_def)
qed

text \<open>The two modes in one form: the pools of a build that succeeded.\<close>

lemma single_selection:
  assumes "\<forall>node\<in>set es. sid \<in> set (node_attribution node)" "k = min m (length es)"
  shows "selection_ok (length es) m [source_queue es sid] ([0..<k], [k])"
proof -
  have "set (source_queue es sid) = {..<length es}" using assms(1) by (auto simp: source_queue_set)
  moreover have "k \<le> length es" "k \<le> m" "k = m \<or> k = length es" using assms(2) by linarith+
  moreover have "\<exists>r. \<forall>i<length [k]. [k] ! i \<le> r + 1 \<and> r \<le> [k] ! i" by (rule exI [of _ k]) simp
  ultimately show ?thesis
    unfolding selection_ok_def prod.case by (intro conjI) (fastforce simp: atLeast0LessThan)+
qed

lemma take_as_indices: "map f (take m es) = map (\<lambda>i. f (es ! i)) [0..<min m (length es)]"
  by (rule nth_equalityI) simp_all

lemma build_candidate_pools_Ok:
  assumes "build_candidate_pools mode ids nodes m = Ok pools"
  obtains selected nums where
    "pool_manual pools = map node_id (eligible_nodes ids nodes)"
    "pool_auto pools = map (\<lambda>i. node_id (eligible_nodes ids nodes ! i)) selected"
    "pool_contributions pools = contributions_of ids nums"
    "selection_ok (length (eligible_nodes ids nodes)) m (map (source_queue (eligible_nodes ids nodes)) ids) (selected, nums)"
    "distinct ids" "distinct (map node_id nodes)"
proof -
  let ?es = "eligible_nodes ids nodes"
  have "validate_inputs mode ids nodes m = Ok ()"
    using assms by (auto simp: build_candidate_pools_def and_then_Inr_iff)
  then have valid: "distinct ids" "distinct (map node_id nodes)" "ids \<noteq> []" "mode = Single \<longrightarrow> length ids = 1"
    by (simp_all add: validate_inputs_Ok)
  have pools: "(case mode of Single \<Rightarrow> \<lparr>pool_auto = map node_id (take m ?es), pool_manual = map node_id ?es,
          pool_contributions = contributions_of ids ((map (\<lambda>_. 0) ids)[0 := length (map node_id (take m ?es))])\<rparr>
      | Merge \<Rightarrow> \<lparr>pool_auto = fst (round_robin ids ?es m), pool_manual = map node_id ?es,
          pool_contributions = contributions_of ids (snd (round_robin ids ?es m))\<rparr>) = pools"
    using assms
    by (cases mode)
      (auto simp: build_candidate_pools_def Let_def and_then_Inr_iff split: if_splits prod.splits)
  show thesis
  proof (cases mode)
    case Single
    obtain sid where ids: "ids = [sid]" using valid Single by (cases ids) auto
    define k where "k = min m (length ?es)"
    have "\<forall>node\<in>set ?es. sid \<in> set (node_attribution node)"
      using eligible_nodes_facts(3) [OF valid(2), of ids] by (simp add: ids)
    then have "selection_ok (length ?es) m (map (source_queue ?es) ids) ([0..<k], [k])"
      using single_selection k_def by (simp add: ids)
    moreover have "pool_auto pools = map (\<lambda>i. node_id (?es ! i)) [0..<k]" "pool_manual pools = map node_id ?es"
        "pool_contributions pools = contributions_of ids [k]"
      unfolding pools [symmetric] by (simp_all add: Single k_def ids take_as_indices min.commute)
    ultimately show thesis using valid(1,2) by (intro that)
  next
    case Merge
    obtain selected nums where rr: "round_robin ids ?es m = (map (\<lambda>i. node_id (?es ! i)) selected, nums)"
      "selection_ok (length ?es) m (map (source_queue ?es) ids) (selected, nums)"
      by (rule round_robin_ok)
    moreover have "pool_auto pools = map (\<lambda>i. node_id (?es ! i)) selected" "pool_manual pools = map node_id ?es"
        "pool_contributions pools = contributions_of ids nums"
      unfolding pools [symmetric] by (simp_all add: Merge rr(1))
    ultimately show thesis using valid(1,2) by (intro that)
  qed
qed

subsection \<open>Properties\<close>

text \<open>C34. The pools of a successful build: the manual pool is the sorted list of the nodes of the
  active sources; the automatic pool has no repetition, lies within the manual one and holds as many
  nodes as the limit and the manual pool allow; the contributions name the active sources in order
  and add up to the automatic pool.\<close>

theorem candidate_pools_are_complete:
  assumes "build_candidate_pools mode ids nodes m = Ok pools"
  shows "sorted (pool_manual pools) \<and> distinct (pool_manual pools)
    \<and> set (pool_manual pools) = node_id ` {node \<in> set nodes. set (node_attribution node) \<inter> set ids \<noteq> {}}
    \<and> distinct (pool_auto pools) \<and> set (pool_auto pools) \<subseteq> set (pool_manual pools)
    \<and> length (pool_auto pools) = min m (length (pool_manual pools))
    \<and> map ct_source_id (pool_contributions pools) = ids
    \<and> sum_list (map ct_candidates (pool_contributions pools)) = length (pool_auto pools)"
  using assms
proof (rule build_candidate_pools_Ok)
  fix selected nums
  let ?es = "eligible_nodes ids nodes"
  assume manual: "pool_manual pools = map node_id ?es"
    and auto_pool: "pool_auto pools = map (\<lambda>i. node_id (?es ! i)) selected"
    and contributions: "pool_contributions pools = contributions_of ids nums"
    and ok: "selection_ok (length ?es) m (map (source_queue ?es) ids) (selected, nums)"
    and nodes: "distinct (map node_id nodes)"
  note facts = eligible_nodes_facts [OF nodes, of ids]
  have sel: "distinct selected" "set selected \<subseteq> {..<length ?es}" "length nums = length ids"
      "sum_list nums = length selected"
    using ok by (simp_all add: selection_ok_def)
  have "inj_on (\<lambda>i. node_id (?es ! i)) {..<length ?es}"
    using facts(1) nth_eq_iff_index_eq [of "map node_id ?es"] by (simp add: inj_on_def)
  then have "distinct (pool_auto pools)"
    using sel(1,2) by (auto simp: auto_pool distinct_map intro: inj_on_subset)
  moreover have "set (pool_auto pools) \<subseteq> set (pool_manual pools)" using sel(2) by (auto simp: auto_pool manual)
  moreover have "length selected = min m (length ?es)"
    by (rule selection_complete [OF ok]) (use facts(3) in auto)
  ultimately show ?thesis
    using facts sel(3,4) by (simp add: manual auto_pool contributions contributions_of_def comp_def
        case_prod_beta)
qed

definition sample_node :: "string \<Rightarrow> SourceId list \<Rightarrow> CandidatePoolNode" where
  "sample_node nid sources = \<lparr>node_id = nid, node_attribution = sources\<rparr>"

definition sample_nodes :: "CandidatePoolNode list" where
  "sample_nodes = [sample_node ''n3'' [''b''], sample_node ''n1'' [''a''], sample_node ''n2'' [''a'', ''b''],
     sample_node ''n4'' [''c'']]"

lemma sample_build_ok: "is_ok (build_candidate_pools Merge [''a'', ''b''] sample_nodes 2)"
  by (simp add: build_candidate_pools_def validate_inputs_def sample_nodes_def sample_node_def
      MAX_SOURCES_def MAX_AUTO_CANDIDATES_def eligible_nodes_def Let_def split: prod.split)

theorem candidate_pools_are_complete_witness:
  "\<exists>pools. build_candidate_pools Merge [''a'', ''b''] sample_nodes 2 = Ok pools
    \<and> set (pool_manual pools) = {''n1'', ''n2'', ''n3''} \<and> length (pool_auto pools) = 2"
proof -
  obtain pools where ok: "build_candidate_pools Merge [''a'', ''b''] sample_nodes 2 = Ok pools"
    using sample_build_ok by (auto simp: is_ok_iff)
  note facts = candidate_pools_are_complete [OF ok]
  have "node_id ` {node \<in> set sample_nodes. set (node_attribution node) \<inter> set [''a'', ''b''] \<noteq> {}}
      = node_id ` set (filter (\<lambda>node. set (node_attribution node) \<inter> {''a'', ''b''} \<noteq> {}) sample_nodes)"
    by simp
  also have "\<dots> = {''n1'', ''n2'', ''n3''}"
    by (simp add: sample_nodes_def sample_node_def insert_commute)
  finally have set: "set (pool_manual pools) = {''n1'', ''n2'', ''n3''}" using facts by (elim conjE) (rule trans)
  then have "card (set (pool_manual pools)) = 3" by simp
  then have "length (pool_manual pools) = 3" using facts distinct_card [of "pool_manual pools"] by argo
  then have "length (pool_auto pools) = 2" using facts by simp
  with ok set show ?thesis by (intro exI [of _ pools] conjI)
qed

text \<open>C35. In merge mode the sources take turns: no source contributes two nodes more than another
  one, unless every node of the other one is in the pool already.\<close>

theorem candidate_pools_are_fair:
  assumes "build_candidate_pools Merge ids nodes m = Ok pools"
    and "i < length ids" "j < length ids"
  shows "ct_candidates (pool_contributions pools ! i) \<le> ct_candidates (pool_contributions pools ! j) + 1
    \<or> (\<forall>node\<in>set nodes. ids ! j \<in> set (node_attribution node) \<longrightarrow> node_id node \<in> set (pool_auto pools))"
  using assms(1)
proof (rule build_candidate_pools_Ok)
  fix selected nums
  let ?es = "eligible_nodes ids nodes"
  assume auto_pool: "pool_auto pools = map (\<lambda>i. node_id (?es ! i)) selected"
    and contributions: "pool_contributions pools = contributions_of ids nums"
    and ok: "selection_ok (length ?es) m (map (source_queue ?es) ids) (selected, nums)"
    and nodes: "distinct (map node_id nodes)"
  have len: "length nums = length ids" using ok by (simp add: selection_ok_def)
  then have nums: "ct_candidates (pool_contributions pools ! k) = nums ! k" if "k < length ids" for k
    using that by (simp add: contributions contributions_of_def)
  obtain r where r: "\<forall>i<length ids. nums ! i \<le> r + 1 \<and> (r \<le> nums ! i \<or> set (source_queue ?es (ids ! i)) \<subseteq> set selected)"
    using ok len by (auto simp: selection_ok_def)
  have "node_id node \<in> set (pool_auto pools)"
    if q: "set (source_queue ?es (ids ! j)) \<subseteq> set selected" and node: "node \<in> set nodes" "ids ! j \<in> set (node_attribution node)" for node
  proof -
    have "node \<in> set ?es" using eligible_nodes_facts(3) [OF nodes, of ids] node assms(3) by auto
    then obtain k where k: "k < length ?es" "?es ! k = node" by (auto simp: in_set_conv_nth)
    then have "k \<in> set selected" using q node(2) by (auto simp: source_queue_set)
    then show ?thesis using k(2) by (auto simp: auto_pool)
  qed
  note rest = this
  show ?thesis
  proof (cases "r \<le> nums ! j")
    case True
    moreover have "nums ! i \<le> r + 1" using r assms(2) by blast
    ultimately have "nums ! i \<le> nums ! j + 1" by linarith
    then show ?thesis using nums [OF assms(2)] nums [OF assms(3)] by (intro disjI1) (simp only:)
  next
    case False
    then have "set (source_queue ?es (ids ! j)) \<subseteq> set selected" using r assms(3) by blast
    then show ?thesis using rest by blast
  qed
qed

theorem candidate_pools_are_fair_witness:
  "\<exists>pools. build_candidate_pools Merge [''a'', ''b''] sample_nodes 2 = Ok pools
    \<and> (ct_candidates (pool_contributions pools ! 0) \<le> ct_candidates (pool_contributions pools ! 1) + 1
       \<or> (\<forall>node\<in>set sample_nodes. [''a'', ''b''] ! 1 \<in> set (node_attribution node) \<longrightarrow> node_id node \<in> set (pool_auto pools)))"
proof -
  obtain pools where ok: "build_candidate_pools Merge [''a'', ''b''] sample_nodes 2 = Ok pools"
    using sample_build_ok by (auto simp: is_ok_iff)
  have "0 < length [''a'', ''b'']" "1 < length [''a'', ''b'']" by simp_all
  from ok candidate_pools_are_fair [OF ok this] show ?thesis by (intro exI [of _ pools] conjI)
qed

end
