(* ===== verification/Supervisor.thy ===== *)
theory Supervisor
  imports Slices Machines
begin

section \<open>The worker supervisor\<close>

text \<open>
  \<open>nethopd/src/supervisor.rs\<close> and the loop of \<open>application.rs\<close> that drives it: the supervisor
  process starts the worker, restarts it with growing delays when it exits, and opens a circuit
  breaker after too many failures within a window of time.

  The traits \<open>WorkerProcess\<close> and \<open>WorkerProcessBackend\<close> are a record of functions, the first
  argument of the operations; a \<open>&mut self\<close> method returns its result with the new value. The
  driver of the loop is the list of the clock readings and signals it returns. The checks of the
  process identity take the text of \<open>/proc/<pid>/stat\<close> as an argument.
\<close>

subsection \<open>Policy, events and the backend\<close>

definition MAX_FAILURE_WINDOW :: duration where
  "MAX_FAILURE_WINDOW = from_secs (5 * 60)"

definition MAX_RECOVERY_DELAY :: duration where
  "MAX_RECOVERY_DELAY = from_secs 60"

definition MAX_STOP_TIMEOUT :: duration where
  "MAX_STOP_TIMEOUT = from_secs 30"

definition RESTART_DELAYS :: "duration list" where
  "RESTART_DELAYS = [from_secs 1, from_secs 2, from_secs 4]"

datatype WorkerSignal = Terminate | Interrupt

record WorkerExit =
  exit_code :: "int option"

record ProcessIdentity =
  pid :: u32
  start_time_ticks :: "u64 option"

definition process_identity_new :: "u32 \<Rightarrow> u64 option \<Rightarrow> ProcessIdentity option" where
  "process_identity_new p ticks =
     (if p = 0 then None else Some \<lparr>pid = p, start_time_ticks = ticks\<rparr>)"

datatype SupervisorState = SupIdle | SupRunning | BackingOff | CircuitOpen | SupStopped

datatype SupervisorEvent =
    Started ProcessIdentity
  | EvRunning
  | WorkerExited WorkerExit
  | EvStartFailed
  | RestartScheduled duration
  | CircuitOpened
  | RecoveryProbeScheduled duration
  | SignalForwarded WorkerSignal
  | EvStopped

datatype SupervisorError =
    InvalidPolicy | InvalidWorkerBinary | StartFailed | ObserveFailed | SignalFailed | StopFailed
  | IdentityMismatch | NoWorker

record RestartPolicy =
  failure_window :: duration
  recovery_delay :: duration
  stop_timeout :: duration

definition restart_policy_new ::
  "duration \<Rightarrow> duration \<Rightarrow> duration \<Rightarrow> (SupervisorError, RestartPolicy) rresult" where
  "restart_policy_new window recovery timeout =
     (if window = 0 \<or> window > MAX_FAILURE_WINDOW
         \<or> recovery = 0 \<or> recovery > MAX_RECOVERY_DELAY
         \<or> timeout = 0 \<or> timeout > MAX_STOP_TIMEOUT
      then Err InvalidPolicy
      else Ok \<lparr>failure_window = window, recovery_delay = recovery, stop_timeout = timeout\<rparr>)"

definition restart_policy_default :: RestartPolicy where
  "restart_policy_default =
     \<lparr>failure_window = MAX_FAILURE_WINDOW, recovery_delay = MAX_RECOVERY_DELAY,
      stop_timeout = from_secs 3\<rparr>"

record 'p WorkerProcess =
  identity_op :: "'p \<Rightarrow> ProcessIdentity"
  try_exit_op :: "'p \<Rightarrow> (SupervisorError, WorkerExit option) rresult \<times> 'p"
  signal_op :: "'p \<Rightarrow> WorkerSignal \<Rightarrow> (SupervisorError, unit) rresult \<times> 'p"
  stop_op :: "'p \<Rightarrow> duration \<Rightarrow> (SupervisorError, unit) rresult \<times> 'p"

record ('b, 'p) WorkerProcessBackend = "'p WorkerProcess" +
  start_op :: "'b \<Rightarrow> (SupervisorError, 'p) rresult \<times> 'b"

subsection \<open>The supervisor\<close>

record ('b, 'p) WorkerSupervisor =
  sup_backend :: 'b
  sup_policy :: RestartPolicy
  sup_state :: SupervisorState
  sup_active :: "'p option"
  sup_failures :: "duration list"
  sup_next_action :: "duration option"

definition supervisor_new :: "'b \<Rightarrow> RestartPolicy \<Rightarrow> ('b, 'p) WorkerSupervisor" where
  "supervisor_new backend policy =
     \<lparr>sup_backend = backend, sup_policy = policy, sup_state = SupIdle, sup_active = None,
      sup_failures = [], sup_next_action = Some 0\<rparr>"

definition active_identity ::
  "('b, 'p) WorkerProcessBackend \<Rightarrow> ('b, 'p) WorkerSupervisor \<Rightarrow> ProcessIdentity option" where
  "active_identity ops s = map_option (identity_op ops) (sup_active s)"

definition record_failure ::
  "duration \<Rightarrow> WorkerExit option \<Rightarrow> ('b, 'p) WorkerSupervisor
   \<Rightarrow> SupervisorEvent \<times> ('b, 'p) WorkerSupervisor" where
  "record_failure now exit s =
     (let failures = filter (\<lambda>failure. dur_sat_sub now failure \<le> failure_window (sup_policy s))
                       (sup_failures s) @ [now]
      in if length failures > length RESTART_DELAYS
         then (case exit of None \<Rightarrow> CircuitOpened | Some e \<Rightarrow> WorkerExited e,
               s\<lparr>sup_failures := failures, sup_state := CircuitOpen,
                 sup_next_action := Some (dur_sat_add now (recovery_delay (sup_policy s)))\<rparr>)
         else (case exit of None \<Rightarrow> EvStartFailed | Some e \<Rightarrow> WorkerExited e,
               s\<lparr>sup_failures := failures, sup_state := BackingOff,
                 sup_next_action := Some (dur_sat_add now (RESTART_DELAYS ! (length failures - 1)))\<rparr>))"

text \<open>The last part of \<open>tick\<close>: ask the backend for a worker.\<close>

definition start_worker ::
  "('b, 'p) WorkerProcessBackend \<Rightarrow> duration \<Rightarrow> ('b, 'p) WorkerSupervisor
   \<Rightarrow> (SupervisorError, SupervisorEvent) rresult \<times> ('b, 'p) WorkerSupervisor" where
  "start_worker ops now s =
     (case start_op ops (sup_backend s) of (r, backend) \<Rightarrow>
        let s = s\<lparr>sup_backend := backend\<rparr>
        in case r of
             Inr process \<Rightarrow>
               (Ok (Started (identity_op ops process)),
                s\<lparr>sup_active := Some process, sup_state := SupRunning, sup_next_action := None\<rparr>)
           | Inl e \<Rightarrow>
               if e = StartFailed then (case record_failure now None s of (event, s) \<Rightarrow> (Ok event, s))
               else (Err e, s))"

definition tick ::
  "('b, 'p) WorkerProcessBackend \<Rightarrow> duration \<Rightarrow> ('b, 'p) WorkerSupervisor
   \<Rightarrow> (SupervisorError, SupervisorEvent) rresult \<times> ('b, 'p) WorkerSupervisor" where
  "tick ops now s =
     (if sup_state s = SupStopped then (Ok EvStopped, s)
      else case sup_active s of
        Some process \<Rightarrow>
          (case try_exit_op ops process of
             (Inl e, process) \<Rightarrow> (Err e, s\<lparr>sup_active := Some process\<rparr>)
           | (Inr (Some exit), _) \<Rightarrow>
               (case record_failure now (Some exit) (s\<lparr>sup_active := None\<rparr>) of (event, s) \<Rightarrow> (Ok event, s))
           | (Inr None, process) \<Rightarrow>
               (Ok EvRunning, s\<lparr>sup_active := Some process, sup_state := SupRunning\<rparr>))
      | None \<Rightarrow>
          (case sup_next_action s of
             Some next_action \<Rightarrow>
               if now < next_action
               then (Ok (if sup_state s = CircuitOpen
                         then RecoveryProbeScheduled (dur_sat_sub next_action now)
                         else RestartScheduled (dur_sat_sub next_action now)), s)
               else start_worker ops now s
           | None \<Rightarrow> start_worker ops now s))"

definition forward_signal ::
  "('b, 'p) WorkerProcessBackend \<Rightarrow> WorkerSignal \<Rightarrow> ('b, 'p) WorkerSupervisor
   \<Rightarrow> (SupervisorError, SupervisorEvent) rresult \<times> ('b, 'p) WorkerSupervisor" where
  "forward_signal ops sig s =
     (case sup_active s of
        None \<Rightarrow> (Err NoWorker, s)
      | Some process \<Rightarrow>
          (case signal_op ops process sig of
             (Inl e, process) \<Rightarrow> (Err e, s\<lparr>sup_active := Some process\<rparr>)
           | (Inr _, process) \<Rightarrow> (Ok (SignalForwarded sig), s\<lparr>sup_active := Some process\<rparr>)))"

definition stop ::
  "('b, 'p) WorkerProcessBackend \<Rightarrow> ('b, 'p) WorkerSupervisor
   \<Rightarrow> (SupervisorError, SupervisorEvent) rresult \<times> ('b, 'p) WorkerSupervisor" where
  "stop ops s =
     (let stopped = s\<lparr>sup_active := None, sup_state := SupStopped, sup_next_action := None\<rparr>
      in case sup_active s of
           None \<Rightarrow> (Ok EvStopped, stopped)
         | Some process \<Rightarrow>
             (case stop_op ops process (stop_timeout (sup_policy s)) of
                (Inl e, _) \<Rightarrow> (Err e, s\<lparr>sup_active := None\<rparr>)
              | (Inr _, _) \<Rightarrow> (Ok EvStopped, stopped)))"

subsection \<open>The supervisor loop\<close>

datatype SupervisorLoopSignal = Wake | StopLoop

definition SUPERVISOR_POLL_INTERVAL :: duration where
  "SUPERVISOR_POLL_INTERVAL = from_millis 250"

definition loop_timeout :: "duration \<Rightarrow> ('b, 'p) WorkerSupervisor \<Rightarrow> duration" where
  "loop_timeout now s =
     (case sup_next_action s of
        None \<Rightarrow> SUPERVISOR_POLL_INTERVAL
      | Some deadline \<Rightarrow> min (dur_sat_sub deadline now) SUPERVISOR_POLL_INTERVAL)"

text \<open>
  The loop on the readings of the driver: each iteration consumes the clock reading and the signal
  that ends its wait. The result is \<^const>\<open>None\<close> while the loop still runs when the readings are
  used up; the lists returned are the timeouts it waited for and the supervisor.
\<close>

fun run_supervisor_loop ::
  "('b, 'p) WorkerProcessBackend \<Rightarrow> (duration \<times> SupervisorLoopSignal) list \<Rightarrow> ('b, 'p) WorkerSupervisor
   \<Rightarrow> (SupervisorError, unit) rresult option \<times> duration list \<times> ('b, 'p) WorkerSupervisor" where
  "run_supervisor_loop ops [] s = (None, [], s)"
| "run_supervisor_loop ops ((now, sig) # readings) s =
     (case tick ops now s of
        (Inl e, s) \<Rightarrow> (Some (Err e), [], snd (stop ops s))
      | (Inr _, s) \<Rightarrow>
          (let timeout = loop_timeout now s
           in if sig = StopLoop
              then (case stop ops s of
                      (Inl e, s) \<Rightarrow> (Some (Err e), [timeout], s)
                    | (Inr _, s) \<Rightarrow> (Some (Ok ()), [timeout], s))
              else (case run_supervisor_loop ops readings s of
                      (r, waits, s) \<Rightarrow> (r, timeout # waits, s))))"

subsection \<open>The identity of a process\<close>

text \<open>
  The start time of a process is field 22 of \<open>/proc/<pid>/stat\<close>. The second field is the program
  name in parentheses, which may hold any character, so the fields are counted from the last
  closing parenthesis. The text is \<^const>\<open>None\<close> when the file cannot be read.
\<close>

definition stat_start_time :: "string \<Rightarrow> u64 option" where
  "stat_start_time stat =
     (case rsplit_once '') '' stat of
        None \<Rightarrow> None
      | Some (_, rest) \<Rightarrow>
          (let words = split_whitespace rest
           in if 19 < length words then parse_u64 (words ! 19) else None))"

definition process_start_time_ticks :: "(u32 \<Rightarrow> string option) \<Rightarrow> u32 \<Rightarrow> u64 option" where
  "process_start_time_ticks read_stat p = Option.bind (read_stat p) stat_start_time"

definition ensure_identity ::
  "(u32 \<Rightarrow> string option) \<Rightarrow> ProcessIdentity \<Rightarrow> (SupervisorError, unit) rresult" where
  "ensure_identity read_stat ident =
     (case start_time_ticks ident of
        None \<Rightarrow> Ok ()
      | Some expected \<Rightarrow>
          (case read_stat (pid ident) of
             None \<Rightarrow> Err IdentityMismatch
           | Some stat \<Rightarrow>
               (case stat_start_time stat of
                  None \<Rightarrow> Err IdentityMismatch
                | Some actual \<Rightarrow> if actual \<noteq> expected then Err IdentityMismatch else Ok ())))"

text \<open>\<open>SystemWorkerProcess::new\<close> records the identity of the child it was given.\<close>

definition child_identity ::
  "(u32 \<Rightarrow> string option) \<Rightarrow> u32 \<Rightarrow> (SupervisorError, ProcessIdentity) rresult" where
  "child_identity read_stat child =
     ok_or StartFailed (process_identity_new child (process_start_time_ticks read_stat child))"

text \<open>\<open>send_signal\<close> on Unix: the signal number and the process ID given to \<open>kill\<close>, whose result
  is an argument.\<close>

definition signal_number :: "WorkerSignal \<Rightarrow> int" where
  "signal_number sig = (case sig of Terminate \<Rightarrow> 15 | Interrupt \<Rightarrow> 2)"

definition send_signal ::
  "(int \<Rightarrow> int \<Rightarrow> int) \<Rightarrow> ProcessIdentity \<Rightarrow> WorkerSignal \<Rightarrow> (SupervisorError, unit) rresult" where
  "send_signal kill ident sig =
     (if uint (pid ident) < 2 ^ 31
      then if kill (uint (pid ident)) (signal_number sig) = 0 then Ok () else Err SignalFailed
      else Err SignalFailed)"

definition system_signal ::
  "(u32 \<Rightarrow> string option) \<Rightarrow> (int \<Rightarrow> int \<Rightarrow> int) \<Rightarrow> ProcessIdentity \<Rightarrow> WorkerSignal
   \<Rightarrow> (SupervisorError, unit) rresult" where
  "system_signal read_stat kill ident sig =
     and_then (ensure_identity read_stat ident) (\<lambda>_. send_signal kill ident sig)"

text \<open>The text of \<open>/proc/<pid>/stat\<close> as the kernel prints it: the process ID, the name in
  parentheses and the remaining fields from the state on.\<close>

definition stat_text :: "string \<Rightarrow> string \<Rightarrow> string list \<Rightarrow> string" where
  "stat_text pid_text name words = pid_text @ '' ('' @ name @ '') '' @ join_words words"

lemma join_words_set: "set (join_words ws) \<subseteq> insert (CHR '' '') (\<Union> (set ` set ws))"
  by (induction ws rule: join_words.induct) auto

lemma stat_start_time_text:
  assumes "list_all (\<lambda>w. w \<noteq> [] \<and> printable w \<and> CHR '')'' \<notin> set w) words" "19 < length words"
  shows "stat_start_time (stat_text pid_text name words) = parse_u64 (words ! 19)"
proof -
  have "CHR '')'' \<notin> set (join_words words)"
    using join_words_set [of words] assms(1) by (auto simp: list_all_iff)
  then have "rsplit_once '') '' ((pid_text @ '' ('' @ name) @ '') '' @ join_words words)
      = Some (pid_text @ '' ('' @ name, join_words words)"
    by (intro rsplit_once_last [of _ "CHR '')''" "'' ''"]) auto
  moreover have "split_whitespace (join_words words) = words"
    using assms(1) by (intro split_join_words) (auto simp: list_all_iff)
  ultimately show ?thesis using assms(2) by (simp add: stat_start_time_def stat_text_def)
qed

subsection \<open>Runs of the supervisor\<close>

text \<open>
  A run is a sequence of calls with readings of a clock that does not go backwards. The state
  carries, beside the supervisor, the last reading and the history of the failures: the times of
  the ticks that reported an exit or a failed start.
\<close>

datatype SupCall = Tick duration | Forward WorkerSignal | Stop

type_synonym ('b, 'p) sup_run = "duration \<times> duration list \<times> ('b, 'p) WorkerSupervisor"

definition sup_call ::
  "('b, 'p) WorkerProcessBackend \<Rightarrow> SupCall \<Rightarrow> ('b, 'p) WorkerSupervisor
   \<Rightarrow> (SupervisorError, SupervisorEvent) rresult \<times> ('b, 'p) WorkerSupervisor" where
  "sup_call ops c s =
     (case c of Tick now \<Rightarrow> tick ops now s | Forward sig \<Rightarrow> forward_signal ops sig s | Stop \<Rightarrow> stop ops s)"

definition failure_event :: "SupervisorEvent \<Rightarrow> bool" where
  "failure_event event = (case event of WorkerExited _ \<Rightarrow> True | EvStartFailed \<Rightarrow> True | CircuitOpened \<Rightarrow> True | _ \<Rightarrow> False)"

definition failure_times :: "SupCall \<Rightarrow> (SupervisorError, SupervisorEvent) rresult \<Rightarrow> duration list" where
  "failure_times c r =
     (case (c, r) of (Tick now, Inr event) \<Rightarrow> if failure_event event then [now] else [] | _ \<Rightarrow> [])"

definition sup_start :: "RestartPolicy \<Rightarrow> ('b, 'p) sup_run \<Rightarrow> bool" where
  "sup_start policy st \<longleftrightarrow> (\<exists>backend. st = (0, [], supervisor_new backend policy))"

definition sup_tr :: "('b, 'p) WorkerProcessBackend \<Rightarrow> ('b, 'p) sup_run \<Rightarrow> SupCall \<Rightarrow> ('b, 'p) sup_run \<Rightarrow> bool" where
  "sup_tr ops = (\<lambda>(clock, H, s) c (clock', H', s').
     (case c of Tick now \<Rightarrow> clock \<le> now \<and> clock' = now | _ \<Rightarrow> clock' = clock)
     \<and> H' = H @ failure_times c (fst (sup_call ops c s)) \<and> s' = snd (sup_call ops c s))"

text \<open>The failures that lie within the window before the last one, and the wait they impose.\<close>

definition recent :: "duration \<Rightarrow> duration list \<Rightarrow> duration list" where
  "recent window H = filter (\<lambda>h. last H - h \<le> window) H"

definition restart_wait :: "RestartPolicy \<Rightarrow> duration list \<Rightarrow> duration" where
  "restart_wait policy H =
     (let n = length (recent (failure_window policy) H)
      in if n > 3 then recovery_delay policy else [from_secs 1, from_secs 2, from_secs 4] ! (n - 1))"

fun sup_inv :: "RestartPolicy \<Rightarrow> ('b, 'p) sup_run \<Rightarrow> bool" where
  "sup_inv policy (clock, H, s) \<longleftrightarrow>
     sorted H \<and> (\<forall>h\<in>set H. h \<le> clock)
     \<and> sup_policy s = policy
     \<and> sup_failures s = recent (failure_window policy) H
     \<and> (sup_active s \<noteq> None \<longrightarrow> sup_state s = SupRunning)
     \<and> (sup_state s = SupRunning \<longrightarrow> sup_next_action s = None)
     \<and> (sup_state s = SupIdle \<longrightarrow> H = [] \<and> sup_next_action s = Some 0)
     \<and> (sup_state s \<in> {BackingOff, CircuitOpen} \<longrightarrow>
          H \<noteq> [] \<and> sup_next_action s = Some (dur_sat_add (last H) (restart_wait policy H))
          \<and> (sup_state s = CircuitOpen \<longleftrightarrow> 3 < length (recent (failure_window policy) H)))"

lemma recent_snoc:
  assumes "sorted H" "\<forall>h\<in>set H. h \<le> now"
  shows "recent w (H @ [now]) = filter (\<lambda>f. now - f \<le> w) (recent w H) @ [now]"
proof -
  have "last H \<le> now" if "H \<noteq> []" using that assms(2) by simp
  then have "last H - x \<le> w" if "x \<in> set H" "now - x \<le> w" for x
    using that by (metis diff_le_mono empty_iff empty_set order_trans)
  then show ?thesis by (auto simp: recent_def intro!: filter_cong)
qed

lemma record_failure_inv:
  assumes inv: "sup_inv policy (clock, H, s)" and "clock \<le> now" "sup_active s' = None"
    and same: "sup_policy s' = sup_policy s" "sup_failures s' = sup_failures s"
    and rf: "record_failure now exit s' = (event, s'')"
  shows "failure_event event \<and> sup_inv policy (now, H @ [now], s'')"
proof -
  have facts: "sorted H" "\<forall>h\<in>set H. h \<le> now" "sup_policy s = policy"
      "sup_failures s = recent (failure_window policy) H"
    using inv \<open>clock \<le> now\<close> by auto
  note new = recent_snoc [OF facts(1,2), of "failure_window policy"]
  show ?thesis
    using rf facts \<open>sup_active s' = None\<close>
    by (auto simp: record_failure_def Let_def same dur_sat_sub_def RESTART_DELAYS_def restart_wait_def new
        failure_event_def sorted_append split: if_splits option.splits)
qed

lemma sup_inv_later:
  assumes "sup_inv policy (clock, H, s)" "clock \<le> now"
  shows "sup_inv policy (now, H, s)"
proof -
  have "\<forall>h\<in>set H. h \<le> now" using assms by (meson order_trans sup_inv.simps)
  then show ?thesis using assms(1) unfolding sup_inv.simps by blast
qed

lemma sup_inv_backend: "sup_inv policy (clock, H, s\<lparr>sup_backend := backend\<rparr>) = sup_inv policy (clock, H, s)"
  by simp

lemma sup_inv_running:
  "sup_inv policy (clock, H, s) \<Longrightarrow>
     sup_inv policy (clock, H, s\<lparr>sup_active := a, sup_state := SupRunning, sup_next_action := None\<rparr>)"
  by simp

lemma sup_inv_observed:
  "sup_inv policy (clock, H, s) \<Longrightarrow> sup_active s \<noteq> None \<Longrightarrow>
     sup_inv policy (clock, H, s\<lparr>sup_active := Some p, sup_state := SupRunning\<rparr>)"
  by simp

lemma sup_inv_active:
  "sup_inv policy (clock, H, s) \<Longrightarrow> sup_active s \<noteq> None \<Longrightarrow> sup_inv policy (clock, H, s\<lparr>sup_active := a\<rparr>)"
  by simp

lemma sup_inv_stopped:
  "sup_inv policy (clock, H, s) \<Longrightarrow>
     sup_inv policy (clock, H, s\<lparr>sup_active := None, sup_state := SupStopped, sup_next_action := None\<rparr>)"
  by simp

declare sup_inv.simps [simp del]

lemma start_worker_inv:
  assumes inv: "sup_inv policy (clock, H, s)" and "clock \<le> now" "sup_active s = None"
    and st: "start_worker ops now s = (r, s')"
  shows "sup_inv policy (now, H @ failure_times (Tick now) r, s')"
proof -
  obtain q backend where q: "start_op ops (sup_backend s) = (q, backend)" by fastforce
  let ?s = "s\<lparr>sup_backend := backend\<rparr>"
  show ?thesis
  proof (cases "q = Inl StartFailed")
    case True
    obtain event s'' where rf: "record_failure now None ?s = (event, s'')" by fastforce
    from record_failure_inv [OF inv \<open>clock \<le> now\<close> _ _ _ rf] \<open>sup_active s = None\<close>
    have "failure_event event \<and> sup_inv policy (now, H @ [now], s'')" by simp
    moreover have "r = Ok event" "s' = s''" using st q True rf by (simp_all add: start_worker_def)
    ultimately show ?thesis by (simp add: failure_times_def)
  next
    case False
    have later: "sup_inv policy (now, H, ?s)" using sup_inv_later [OF inv \<open>clock \<le> now\<close>] by (simp only: sup_inv_backend)
    show ?thesis
    proof (cases q)
      case (Inl e)
      then have "s' = ?s" "r = Err e" using st q False by (simp_all add: start_worker_def)
      then show ?thesis using later by (simp add: failure_times_def)
    next
      case (Inr process)
      then have "s' = ?s\<lparr>sup_active := Some process, sup_state := SupRunning, sup_next_action := None\<rparr>"
          "r = Ok (Started (identity_op ops process))"
        using st q by (simp_all add: start_worker_def)
      then show ?thesis using sup_inv_running [OF later] by (simp add: failure_times_def failure_event_def)
    qed
  qed
qed

lemma tick_exited:
  assumes inv: "sup_inv policy (clock, H, s)" and "clock \<le> now" "sup_state s \<noteq> SupStopped"
    and p: "sup_active s = Some p" "try_exit_op ops p = (Inr (Some exit), p')"
    and t: "tick ops now s = (r, s')"
  shows "sup_inv policy (now, H @ failure_times (Tick now) r, s')"
proof -
  obtain event s'' where rf: "record_failure now (Some exit) (s\<lparr>sup_active := None\<rparr>) = (event, s'')"
    by fastforce
  from record_failure_inv [OF inv \<open>clock \<le> now\<close> _ _ _ rf]
  have "failure_event event \<and> sup_inv policy (now, H @ [now], s'')" by simp
  moreover have "r = Ok event" "s' = s''" using t assms(3) p rf by (simp_all add: tick_def)
  ultimately show ?thesis by (simp add: failure_times_def)
qed

lemma tick_inv:
  assumes inv: "sup_inv policy (clock, H, s)" and "clock \<le> now" and t: "tick ops now s = (r, s')"
  shows "sup_inv policy (now, H @ failure_times (Tick now) r, s')"
proof (cases "sup_state s = SupStopped")
  case True
  then have "r = Ok EvStopped" "s' = s" using t by (simp_all add: tick_def)
  then show ?thesis
    using sup_inv_later [OF inv \<open>clock \<le> now\<close>] by (simp add: failure_times_def failure_event_def)
next
  case running: False
  note later = sup_inv_later [OF inv \<open>clock \<le> now\<close>]
  show ?thesis
  proof (cases "sup_active s")
    case None
    have "start_worker ops now s = (r, s')
        \<or> s' = s \<and> (\<exists>d. r = Ok (RecoveryProbeScheduled d) \<or> r = Ok (RestartScheduled d))"
      using t None running by (auto simp: tick_def split: option.splits if_splits)
    then show ?thesis
      using start_worker_inv [OF inv \<open>clock \<le> now\<close> None, of ops r s'] later
      by (auto simp: failure_times_def failure_event_def)
  next
    case (Some p)
    obtain q p' where q: "try_exit_op ops p = (q, p')" by fastforce
    consider e where "q = Inl e" | "q = Inr None" | exit where "q = Inr (Some exit)"
      by (cases q) (auto simp: not_None_eq)
    then show ?thesis
    proof cases
      case 1
      then have "r = Err e" "s' = s\<lparr>sup_active := Some p'\<rparr>" using t running Some q by (simp_all add: tick_def)
      then show ?thesis using sup_inv_active [OF later] Some by (simp add: failure_times_def)
    next
      case 2
      then have "r = Ok EvRunning" "s' = s\<lparr>sup_active := Some p', sup_state := SupRunning\<rparr>"
        using t running Some q by (simp_all add: tick_def)
      then show ?thesis using sup_inv_observed [OF later] Some by (simp add: failure_times_def failure_event_def)
    next
      case 3
      with tick_exited [OF inv \<open>clock \<le> now\<close> running Some _ t] q show ?thesis by simp
    qed
  qed
qed

lemma forward_stop_inv:
  assumes "sup_inv policy (clock, H, s)"
  shows "sup_inv policy (clock, H, snd (forward_signal ops sig s))" "sup_inv policy (clock, H, snd (stop ops s))"
  using assms
  by (auto simp: forward_signal_def stop_def Let_def sup_inv_active sup_inv_stopped
      split: option.split prod.split sum.split)

interpretation breaker: step_invariant "sup_start policy" "sup_tr ops" "sup_inv policy"
proof
  fix s
  assume "sup_start policy s"
  then show "sup_inv policy s" by (auto simp: sup_start_def supervisor_new_def recent_def sup_inv.simps)
next
  fix s t c
  assume inv: "sup_inv policy s" and tr: "sup_tr ops s c t"
  obtain clock H sup where s: "s = (clock, H, sup)" by (cases s)
  show "sup_inv policy t"
  proof (cases c)
    case (Tick now)
    then show ?thesis
      using tr tick_inv [OF inv [unfolded s], of now ops "fst (tick ops now sup)" "snd (tick ops now sup)"]
      by (auto simp: s sup_tr_def sup_call_def)
  qed (use tr forward_stop_inv [OF inv [unfolded s]] in \<open>auto simp: s sup_tr_def sup_call_def failure_times_def\<close>)
qed

text \<open>A stopped supervisor stays stopped: being stopped is a measure no call decreases.\<close>

definition sup_stopped :: "('b, 'p) sup_run \<Rightarrow> bool" where
  "sup_stopped = (\<lambda>(clock, H, s). sup_state s = SupStopped)"

lemma call_stays_stopped:
  assumes "sup_state s = SupStopped"
  shows "sup_state (snd (tick ops now s)) = SupStopped" "sup_state (snd (forward_signal ops sig s)) = SupStopped"
    "sup_state (snd (stop ops s)) = SupStopped"
  using assms by (simp_all add: tick_def forward_signal_def stop_def Let_def split: option.split prod.split sum.split)

interpretation stopping: step_monotone "sup_tr ops" sup_stopped
proof
  fix s t c
  assume "sup_tr ops s c t"
  then show "sup_stopped s \<le> sup_stopped t"
    by (cases s; cases t; cases c)
      (auto simp: sup_tr_def sup_call_def sup_stopped_def call_stays_stopped)
qed

subsection \<open>Properties\<close>

text \<open>C10. On every run the failures the supervisor keeps are exactly those within the window before
  the last one, and while it is backing off or the circuit is open a tick leaves the backend alone
  until the wait those failures impose (1, 2 and 4 seconds, then the recovery delay) is over, and asks
  it for a worker from then on.\<close>

theorem restarts_wait_for_recent_failures:
  assumes "reach (sup_start policy) (sup_tr ops) (clock, H, s)"
  shows "sup_failures s = recent (failure_window policy) H
    \<and> (sup_state s \<in> {BackingOff, CircuitOpen} \<longrightarrow>
        H \<noteq> [] \<and> (let due = dur_sat_add (last H) (restart_wait policy H)
          in tick ops now s =
               (if now < due
                then (Ok (if 3 < length (sup_failures s) then RecoveryProbeScheduled (due - now)
                          else RestartScheduled (due - now)), s)
                else start_worker ops now s)))"
proof -
  have inv: "sup_inv policy (clock, H, s)" using breaker.inv_reach [OF assms] .
  have failures: "sup_failures s = recent (failure_window policy) H" using inv by (simp add: sup_inv.simps)
  show ?thesis
  proof (intro conjI impI failures)
    assume waiting: "sup_state s \<in> {BackingOff, CircuitOpen}"
    then show "H \<noteq> []" using inv unfolding sup_inv.simps by blast
    have next_action: "sup_next_action s = Some (dur_sat_add (last H) (restart_wait policy H))"
      and circuit: "sup_state s = CircuitOpen \<longleftrightarrow> 3 < length (sup_failures s)"
      using inv waiting unfolding sup_inv.simps failures by blast+
    have "sup_active s = None" "sup_state s \<noteq> SupStopped"
      using inv waiting unfolding sup_inv.simps by auto
    then show "let due = dur_sat_add (last H) (restart_wait policy H)
      in tick ops now s =
           (if now < due
            then (Ok (if 3 < length (sup_failures s) then RecoveryProbeScheduled (due - now)
                      else RestartScheduled (due - now)), s)
            else start_worker ops now s)"
      unfolding tick_def Let_def next_action circuit [symmetric] dur_sat_sub_def by simp
  qed
qed

text \<open>A backend that never manages to start a worker, and the run of its first tick.\<close>

definition broken_backend :: "(unit, unit) WorkerProcessBackend" where
  "broken_backend =
     \<lparr>identity_op = (\<lambda>_. \<lparr>pid = 1, start_time_ticks = None\<rparr>),
      try_exit_op = (\<lambda>p. (Ok None, p)), signal_op = (\<lambda>p _. (Err SignalFailed, p)),
      stop_op = (\<lambda>p _. (Err StopFailed, p)), start_op = (\<lambda>b. (Err StartFailed, b))\<rparr>"

theorem restarts_wait_for_recent_failures_witness:
  "let s = snd (tick broken_backend 5 (supervisor_new () restart_policy_default))
   in sup_state s = BackingOff \<and> sup_failures s = [5]
     \<and> tick broken_backend 6 s = (Ok (RestartScheduled (from_secs 1 - 1)), s)"
proof -
  let ?fresh = "supervisor_new () restart_policy_default :: (unit, unit) WorkerSupervisor"
  let ?s = "snd (tick broken_backend 5 ?fresh)"
  have "tick broken_backend 5 ?fresh = start_worker broken_backend 5 ?fresh"
    by (simp add: tick_def supervisor_new_def)
  then have s: "sup_state ?s = BackingOff" "fst (tick broken_backend 5 ?fresh) = Ok EvStartFailed"
    by (simp_all add: start_worker_def broken_backend_def supervisor_new_def record_failure_def RESTART_DELAYS_def)
  have "reach (sup_start restart_policy_default) (sup_tr broken_backend) (0, [], ?fresh)"
    by (rule reach_start) (simp add: sup_start_def)
  moreover have "sup_tr broken_backend (0, [], ?fresh) (Tick 5) (5, [5], ?s)"
    by (simp add: sup_tr_def sup_call_def failure_times_def s failure_event_def)
  ultimately have "reach (sup_start restart_policy_default) (sup_tr broken_backend) (5, [5], ?s)"
    by (rule reach_step)
  from restarts_wait_for_recent_failures [OF this, of 6] s(1) show ?thesis
    by (simp add: Let_def recent_def restart_wait_def duration_defs)
qed

lemma stop_Ok: "stop ops s = (Inr r, s') \<Longrightarrow> sup_state s' = SupStopped \<and> sup_active s' = None \<and> sup_next_action s' = None"
  by (auto simp: stop_def Let_def split: option.splits prod.splits sum.splits)

lemma loop_timeout_bounds:
  "loop_timeout now s \<le> SUPERVISOR_POLL_INTERVAL
   \<and> (\<forall>deadline. sup_next_action s = Some deadline \<longrightarrow> now \<le> deadline \<longrightarrow> now + loop_timeout now s \<le> deadline)"
  by (auto simp: loop_timeout_def dur_sat_sub_def split: option.splits)

text \<open>A worker that cannot be stopped is abandoned: the handle is gone and the state is the one of a
  supervisor that may start another worker.\<close>

lemma failed_stop_abandons_the_worker:
  assumes "stop ops s = (Err e, s')"
  shows "sup_active s \<noteq> None \<and> s' = s\<lparr>sup_active := None\<rparr>"
  using assms by (auto simp: stop_def Let_def split: option.splits prod.splits sum.splits)

text \<open>C36. The supervisor loop ends at the first stop signal of its driver at the latest; when it ends
  without an error the supervisor is stopped and holds no worker, however the loop is continued; and
  it never waits longer than the poll interval.\<close>

theorem supervisor_loop_stops:
  assumes "run_supervisor_loop ops readings s = (r, waits, s')"
  shows "(StopLoop \<in> snd ` set readings \<longrightarrow> r \<noteq> None)
    \<and> (r = Some (Ok ()) \<longrightarrow> sup_state s' = SupStopped \<and> sup_active s' = None
         \<and> (\<forall>now. tick ops now s' = (Ok EvStopped, s')))
    \<and> list_all (\<lambda>timeout. timeout \<le> SUPERVISOR_POLL_INTERVAL) waits"
  using assms
proof (induction ops readings s arbitrary: r waits s' rule: run_supervisor_loop.induct)
  case (2 ops now sig readings s)
  obtain q t where q: "tick ops now s = (q, t)" by fastforce
  show ?case
  proof (cases q)
    case (Inl e)
    then show ?thesis using "2.prems" q by (auto simp: eq_commute [of _ r])
  next
    case (Inr event)
    note q = q [unfolded Inr]
    show ?thesis
    proof (cases "sig = StopLoop")
      case True
      obtain p u where "stop ops t = (p, u)" by fastforce
      then show ?thesis
        using "2.prems" q True stop_Ok [of ops t _ u] loop_timeout_bounds [of now t]
        by (cases p) (auto simp: Let_def tick_def)
    next
      case False
      obtain r' waits' u where run: "run_supervisor_loop ops readings t = (r', waits', u)"
        by (metis prod_cases3)
      from "2.IH" [OF q [symmetric] refl refl False run]
      show ?thesis using "2.prems" q False run loop_timeout_bounds [of now t] by (auto simp: Let_def)
    qed
  qed
qed simp

theorem supervisor_loop_stops_witness:
  "let (r, waits, s') = run_supervisor_loop broken_backend [(0, Wake), (9, StopLoop)]
     (supervisor_new () restart_policy_default)
   in r \<noteq> None \<and> list_all (\<lambda>timeout. timeout \<le> SUPERVISOR_POLL_INTERVAL) waits"
proof -
  obtain r waits s' where run: "run_supervisor_loop broken_backend [(0, Wake), (9, StopLoop)]
      (supervisor_new () restart_policy_default) = (r, waits, s')"
    by (metis prod_cases3)
  from supervisor_loop_stops [OF run] run show ?thesis by simp
qed

definition stat_words_ok :: "string list \<Rightarrow> bool" where
  "stat_words_ok words \<longleftrightarrow>
     list_all (\<lambda>w. w \<noteq> [] \<and> printable w \<and> CHR '')'' \<notin> set w) words \<and> 19 < length words"

text \<open>C37. A signal for a recorded child is sent exactly to the process that still has the start time
  the child had, whatever the names of the two processes contain; another process that got the same
  process ID is refused.\<close>

theorem reused_process_id_is_refused:
  assumes "stat_words_ok words" "parse_u64 (words ! 19) = Some t"
    and "stat_words_ok words'" "parse_u64 (words' ! 19) = Some t'"
    and "read_stat child = Some (stat_text pid_text name words)"
    and "read_stat' child = Some (stat_text pid_text' name' words')"
    and "child_identity read_stat child = Ok ident"
  shows "system_signal read_stat' kill ident sig = (if t' = t then send_signal kill ident sig else Err IdentityMismatch)"
proof -
  have old: "stat_start_time (stat_text pid_text name words) = Some t"
    and new: "stat_start_time (stat_text pid_text' name' words') = Some t'"
    using stat_start_time_text [of words pid_text name] stat_start_time_text [of words' pid_text' name'] assms(1-4)
    by (simp_all add: stat_words_ok_def)
  have "ident = \<lparr>pid = child, start_time_ticks = Some t\<rparr>"
    using assms(5,7) old
    by (auto simp: child_identity_def process_start_time_ticks_def process_identity_new_def ok_or_def split: if_splits)
  then show ?thesis using assms(6) new by (simp add: system_signal_def ensure_identity_def)
qed

definition sample_words :: "string \<Rightarrow> string list" where
  "sample_words start = replicate 19 ''0'' @ [start]"

theorem reused_process_id_is_refused_witness:
  "system_signal (\<lambda>_. Some (stat_text ''7'' '') ('' (sample_words ''43''))) (\<lambda>_ _. 0)
     \<lparr>pid = 7, start_time_ticks = Some 42\<rparr> Terminate = Err IdentityMismatch"
proof -
  have words: "stat_words_ok (sample_words start)" if "start \<in> {''42'', ''43''}" for start
    using that by (auto simp: stat_words_ok_def sample_words_def printable_def list_all_iff)
  have parse: "parse_u64 (sample_words ''42'' ! 19) = Some 42" "parse_u64 (sample_words ''43'' ! 19) = Some 43"
    by (simp_all add: sample_words_def nth_append parse_u64_def is_ascii_digit_def)
  let ?old = "\<lambda>_ :: u32. Some (stat_text ''7'' ''worker'' (sample_words ''42''))"
  have "stat_start_time (stat_text ''7'' ''worker'' (sample_words ''42'')) = Some 42"
    using stat_start_time_text [of "sample_words ''42''" "''7''" "''worker''"] words [of "''42''"] parse(1)
    by (simp add: stat_words_ok_def)
  then have "child_identity ?old 7 = Ok \<lparr>pid = 7, start_time_ticks = Some 42\<rparr>"
    by (simp add: child_identity_def process_start_time_ticks_def process_identity_new_def)
  from reused_process_id_is_refused [OF _ parse(1) _ parse(2) refl refl this] words show ?thesis by simp
qed

end
