(* ===== verification/Fs.thy ===== *)
theory Fs
  imports Slices
begin

section \<open>The file system\<close>

text \<open>
  The calls of \<open>std::fs\<close> that the stores of the daemon make, on an explicit file system: a map
  from absolute paths, lists of components, to nodes. Intermediate symbolic links are taken as
  resolved; a link as the last component is followed by the calls that follow it.

  Every call consumes an outcome. \<open>Done\<close> lets it take its effect; \<open>Fail\<close> makes it return an
  error, possibly after a part of its effect (some bytes written, some entries removed); \<open>Crash\<close>
  stops the machine there: the data of every file that was written and not synchronised since is
  lost, and no later call has an effect. A theorem for all outcomes is therefore a theorem about
  every failing call and about a crash between or inside any two calls.
\<close>

subsection \<open>Nodes and outcomes\<close>

type_synonym path = "string list"

datatype node =
    File (file_mode: u32) (file_uid: u32) (file_bytes: bytes)
  | Dir (dir_mode: u32) (dir_uid: u32)
  | Symlink path
  | Special u32 u32

type_synonym fs = "path \<Rightarrow> node option"

datatype io_error = NotFound | AlreadyExists | OtherError

datatype outcome =
    Done
  | Fail nat "path list"
  | Crash nat "path list" "path \<Rightarrow> bytes"

record world =
  w_fs :: fs
  w_dirty :: "path \<Rightarrow> bool"
  w_halted :: bool
  w_outcomes :: "outcome list"
  w_umask :: u32
  w_pid :: u32
  w_sequence :: u64

type_synonym ('e, 'a) io = "world \<Rightarrow> ('e, 'a) rresult \<times> world"

definition io_return :: "'a \<Rightarrow> ('e, 'a) io" where
  "io_return x = (\<lambda>w. (Ok x, w))"

definition io_fail :: "'e \<Rightarrow> ('e, 'a) io" where
  "io_fail e = (\<lambda>w. (Err e, w))"

definition io_bind :: "('e, 'a) io \<Rightarrow> ('a \<Rightarrow> ('e, 'b) io) \<Rightarrow> ('e, 'b) io" where
  "io_bind m f = (\<lambda>w. case m w of (Inl e, w) \<Rightarrow> (Err e, w) | (Inr x, w) \<Rightarrow> f x w)"

definition io_map_err :: "('e \<Rightarrow> 'f) \<Rightarrow> ('e, 'a) io \<Rightarrow> ('f, 'a) io" where
  "io_map_err g m = (\<lambda>w. case m w of (r, w) \<Rightarrow> (map_err g r, w))"

definition io_result :: "('e, 'a) rresult \<Rightarrow> ('e, 'a) io" where
  "io_result r = (\<lambda>w. (r, w))"

text \<open>\<open>let r = m;\<close> and \<open>let _ = m;\<close>: go on with the result, whatever it is.\<close>

definition io_try :: "('e, 'a) io \<Rightarrow> (('e, 'a) rresult \<Rightarrow> ('f, 'b) io) \<Rightarrow> ('f, 'b) io" where
  "io_try m f = (\<lambda>w. case m w of (r, w) \<Rightarrow> f r w)"

lemmas io_defs = io_return_def io_fail_def io_bind_def io_map_err_def io_result_def io_try_def

lemma io_bind_result: "io_bind (io_result r) f w = (case r of Inl e \<Rightarrow> (Err e, w) | Inr x \<Rightarrow> f x w)"
  by (simp add: io_bind_def io_result_def split: sum.split)

subsection \<open>A call and its outcome\<close>

text \<open>What a crash leaves: the files that were not synchronised hold arbitrary data.\<close>

definition crashed :: "(path \<Rightarrow> bytes) \<Rightarrow> world \<Rightarrow> world" where
  "crashed garbage w =
     w\<lparr>w_halted := True,
       w_fs := (\<lambda>p. case w_fs w p of
                  Some (File m u bytes) \<Rightarrow> Some (File m u (if w_dirty w p then garbage p else bytes))
                | node \<Rightarrow> node)\<rparr>"

definition fs_call :: "(io_error, 'a) io \<Rightarrow> (nat \<Rightarrow> path list \<Rightarrow> world \<Rightarrow> world) \<Rightarrow> (io_error, 'a) io" where
  "fs_call act partial w =
     (if w_halted w then (Err OtherError, w)
      else case w_outcomes w of
        [] \<Rightarrow> act w
      | Done # os \<Rightarrow> act (w\<lparr>w_outcomes := os\<rparr>)
      | Fail n ps # os \<Rightarrow> (Err OtherError, partial n ps (w\<lparr>w_outcomes := os\<rparr>))
      | Crash n ps garbage # os \<Rightarrow>
          (Err OtherError, crashed garbage (partial n ps (w\<lparr>w_outcomes := os\<rparr>))))"

definition no_part :: "nat \<Rightarrow> path list \<Rightarrow> world \<Rightarrow> world" where
  "no_part n ps w = w"

text \<open>The node at a path, with the error of a missing one: \<open>ENOTDIR\<close> when a component on the way
  is not a directory.\<close>

definition missing :: "fs \<Rightarrow> path \<Rightarrow> io_error" where
  "missing fs p =
     (if list_ex (\<lambda>n. case fs (take n p) of None \<Rightarrow> False | Some (Dir _ _) \<Rightarrow> False | Some _ \<Rightarrow> True) [0..<length p]
      then OtherError else NotFound)"

definition is_dir :: "fs \<Rightarrow> path \<Rightarrow> bool" where
  "is_dir fs p = (case fs p of Some (Dir _ _) \<Rightarrow> True | _ \<Rightarrow> False)"

definition is_file :: "fs \<Rightarrow> path \<Rightarrow> bool" where
  "is_file fs p = (case fs p of Some (File _ _ _) \<Rightarrow> True | _ \<Rightarrow> False)"

definition set_node :: "path \<Rightarrow> node option \<Rightarrow> world \<Rightarrow> world" where
  "set_node p node w = w\<lparr>w_fs := (w_fs w)(p := node)\<rparr>"

definition set_dirty :: "path \<Rightarrow> bool \<Rightarrow> world \<Rightarrow> world" where
  "set_dirty p d w = w\<lparr>w_dirty := (w_dirty w)(p := d)\<rparr>"

text \<open>At most 40 links are followed.\<close>

fun resolve :: "nat \<Rightarrow> fs \<Rightarrow> path \<Rightarrow> path option" where
  "resolve 0 fs p = None"
| "resolve (Suc n) fs p = (case fs p of Some (Symlink target) \<Rightarrow> resolve n fs target | _ \<Rightarrow> Some p)"

definition MAXSYMLINKS :: nat where
  "MAXSYMLINKS = 40"

subsection \<open>Reading\<close>

definition symlink_metadata :: "path \<Rightarrow> (io_error, node) io" where
  "symlink_metadata p =
     fs_call (\<lambda>w. case w_fs w p of None \<Rightarrow> (Err (missing (w_fs w) p), w) | Some node \<Rightarrow> (Ok node, w)) no_part"

definition md_is_file :: "node \<Rightarrow> bool" where
  "md_is_file node = (case node of File _ _ _ \<Rightarrow> True | _ \<Rightarrow> False)"

definition md_is_dir :: "node \<Rightarrow> bool" where
  "md_is_dir node = (case node of Dir _ _ \<Rightarrow> True | _ \<Rightarrow> False)"

definition md_is_symlink :: "node \<Rightarrow> bool" where
  "md_is_symlink node = (case node of Symlink _ \<Rightarrow> True | _ \<Rightarrow> False)"

definition md_len :: "node \<Rightarrow> nat" where
  "md_len node = (case node of File _ _ bytes \<Rightarrow> length bytes | _ \<Rightarrow> 0)"

definition md_mode :: "node \<Rightarrow> u32" where
  "md_mode node = (case node of File m _ _ \<Rightarrow> m | Dir m _ \<Rightarrow> m | Symlink _ \<Rightarrow> 511 | Special m _ \<Rightarrow> m)"

definition md_uid :: "node \<Rightarrow> u32" where
  "md_uid node = (case node of File _ u _ \<Rightarrow> u | Dir _ u \<Rightarrow> u | Symlink _ \<Rightarrow> 0 | Special _ u \<Rightarrow> u)"

definition read_file :: "path \<Rightarrow> (io_error, bytes) io" where
  "read_file p =
     fs_call (\<lambda>w. case resolve MAXSYMLINKS (w_fs w) p of
                     None \<Rightarrow> (Err OtherError, w)
                   | Some q \<Rightarrow>
                       (case w_fs w q of
                          None \<Rightarrow> (Err (missing (w_fs w) q), w)
                        | Some (File _ _ bytes) \<Rightarrow> (Ok bytes, w)
                        | Some _ \<Rightarrow> (Err OtherError, w))) no_part"

text \<open>\<open>Path::exists\<close> takes every error for absence.\<close>

definition path_exists :: "path \<Rightarrow> world \<Rightarrow> bool \<times> world" where
  "path_exists p w =
     (case fs_call (\<lambda>w. case resolve MAXSYMLINKS (w_fs w) p of
                          None \<Rightarrow> (Err OtherError, w)
                        | Some q \<Rightarrow>
                            (case w_fs w q of None \<Rightarrow> (Err (missing (w_fs w) q), w) | Some _ \<Rightarrow> (Ok (), w))) no_part w
      of (r, w) \<Rightarrow> (is_ok r, w))"

definition io_exists :: "path \<Rightarrow> ('e, bool) io" where
  "io_exists p w = (case path_exists p w of (b, w) \<Rightarrow> (Ok b, w))"

subsection \<open>Writing\<close>

text \<open>\<open>OpenOptions::new().write(true).create_new(true).open(p)\<close>; the handle is the path.\<close>

definition create_new :: "path \<Rightarrow> (io_error, unit) io" where
  "create_new p =
     fs_call (\<lambda>w. if w_fs w p \<noteq> None then (Err AlreadyExists, w)
                   else if p \<noteq> [] \<and> is_dir (w_fs w) (butlast p)
                   then (Ok (), set_dirty p True (set_node p (Some (File (438 AND NOT (w_umask w)) 0 [])) w))
                   else (Err (missing (w_fs w) p), w)) no_part"

text \<open>\<open>OpenOptions::new().write(true).create(true).truncate(true).mode(m).open(p)\<close>; the handle is
  the path the links lead to.\<close>

definition open_truncate :: "path \<Rightarrow> u32 \<Rightarrow> (io_error, path) io" where
  "open_truncate p m =
     fs_call (\<lambda>w. case resolve MAXSYMLINKS (w_fs w) p of
                     None \<Rightarrow> (Err OtherError, w)
                   | Some q \<Rightarrow>
                       (case w_fs w q of
                          Some (File m' u _) \<Rightarrow> (Ok q, set_dirty q True (set_node q (Some (File m' u [])) w))
                        | Some _ \<Rightarrow> (Err OtherError, w)
                        | None \<Rightarrow>
                            if q \<noteq> [] \<and> is_dir (w_fs w) (butlast q)
                            then (Ok q, set_dirty q True (set_node q (Some (File (m AND NOT (w_umask w)) 0 [])) w))
                            else (Err (missing (w_fs w) q), w))) no_part"

definition set_mode :: "path \<Rightarrow> u32 \<Rightarrow> (io_error, unit) io" where
  "set_mode p m =
     fs_call (\<lambda>w. case w_fs w p of
                     Some (File _ u bytes) \<Rightarrow> (Ok (), set_node p (Some (File m u bytes)) w)
                   | Some (Dir _ u) \<Rightarrow> (Ok (), set_node p (Some (Dir m u)) w)
                   | _ \<Rightarrow> (Err OtherError, w)) no_part"

text \<open>\<open>write_all\<close> on a file just created or truncated; a failing call may have written a prefix.\<close>

definition put_bytes :: "path \<Rightarrow> bytes \<Rightarrow> world \<Rightarrow> world" where
  "put_bytes p bytes w =
     (case w_fs w p of
        Some (File m u _) \<Rightarrow> set_dirty p True (set_node p (Some (File m u bytes)) w)
      | _ \<Rightarrow> w)"

definition write_all :: "path \<Rightarrow> bytes \<Rightarrow> (io_error, unit) io" where
  "write_all p bytes =
     fs_call (\<lambda>w. if is_file (w_fs w) p then (Ok (), put_bytes p bytes w) else (Err OtherError, w))
       (\<lambda>n _. put_bytes p (take n bytes))"

definition sync_all :: "path \<Rightarrow> (io_error, unit) io" where
  "sync_all p = fs_call (\<lambda>w. (Ok (), set_dirty p False w)) no_part"

text \<open>\<open>File::open(p)?.sync_all()\<close> on a directory.\<close>

definition open_dir :: "path \<Rightarrow> (io_error, unit) io" where
  "open_dir p =
     fs_call (\<lambda>w. case resolve MAXSYMLINKS (w_fs w) p of
                     None \<Rightarrow> (Err OtherError, w)
                   | Some q \<Rightarrow> (case w_fs w q of None \<Rightarrow> (Err (missing (w_fs w) q), w) | Some _ \<Rightarrow> (Ok (), w))) no_part"

definition sync_directory :: "path \<Rightarrow> (io_error, unit) io" where
  "sync_directory p = io_bind (open_dir p) (\<lambda>_. fs_call (\<lambda>w. (Ok (), w)) no_part)"

definition create_dir :: "path \<Rightarrow> u32 \<Rightarrow> (io_error, unit) io" where
  "create_dir p m =
     fs_call (\<lambda>w. if w_fs w p \<noteq> None then (Err AlreadyExists, w)
                   else if p \<noteq> [] \<and> is_dir (w_fs w) (butlast p)
                   then (Ok (), set_node p (Some (Dir (m AND NOT (w_umask w)) 0)) w)
                   else (Err (missing (w_fs w) p), w)) no_part"

subsection \<open>Moving and removing\<close>

definition under :: "path \<Rightarrow> path \<Rightarrow> bool" where
  "under p q \<longleftrightarrow> take (length p) q = p"

definition empty_dir :: "fs \<Rightarrow> path \<Rightarrow> bool" where
  "empty_dir fs p \<longleftrightarrow> is_dir fs p \<and> (\<forall>q. under p q \<and> q \<noteq> p \<longrightarrow> fs q = None)"

definition move_tree :: "path \<Rightarrow> path \<Rightarrow> (path \<Rightarrow> 'a) \<Rightarrow> 'a \<Rightarrow> path \<Rightarrow> 'a" where
  "move_tree a b f none q =
     (if under b q then f (a @ drop (length b) q) else if under a q then none else f q)"

definition rename_ok :: "fs \<Rightarrow> path \<Rightarrow> path \<Rightarrow> bool" where
  "rename_ok fs a b \<longleftrightarrow>
     \<not> under a b \<and> \<not> under b a \<and> b \<noteq> [] \<and> is_dir fs (butlast b)
     \<and> (if is_dir fs a then fs b = None \<or> empty_dir fs b else \<not> is_dir fs b)"

definition rename :: "path \<Rightarrow> path \<Rightarrow> (io_error, unit) io" where
  "rename a b =
     fs_call (\<lambda>w. if w_fs w a = None then (Err (missing (w_fs w) a), w)
                   else if a = b then (Ok (), w)
                   else if rename_ok (w_fs w) a b
                   then (Ok (), w\<lparr>w_fs := move_tree a b (w_fs w) None, w_dirty := move_tree a b (w_dirty w) False\<rparr>)
                   else (Err OtherError, w)) no_part"

definition remove_file :: "path \<Rightarrow> (io_error, unit) io" where
  "remove_file p =
     fs_call (\<lambda>w. case w_fs w p of
                     None \<Rightarrow> (Err (missing (w_fs w) p), w)
                   | Some (Dir _ _) \<Rightarrow> (Err OtherError, w)
                   | Some _ \<Rightarrow> (Ok (), set_dirty p False (set_node p None w))) no_part"

text \<open>\<open>remove_dir_all\<close> removes a link itself and refuses other files. It is not atomic: a failing
  call may have removed some of the subtrees below the directory.\<close>

definition remove_trees :: "path list \<Rightarrow> world \<Rightarrow> world" where
  "remove_trees ps w =
     w\<lparr>w_fs := (\<lambda>q. if list_ex (\<lambda>p. under p q) ps then None else w_fs w q),
       w_dirty := (\<lambda>q. if list_ex (\<lambda>p. under p q) ps then False else w_dirty w q)\<rparr>"

definition remove_dir_all :: "path \<Rightarrow> (io_error, unit) io" where
  "remove_dir_all p =
     fs_call (\<lambda>w. case w_fs w p of
                     None \<Rightarrow> (Err (missing (w_fs w) p), w)
                   | Some (Dir _ _) \<Rightarrow> (Ok (), remove_trees [p] w)
                   | Some (Symlink _) \<Rightarrow> (Ok (), set_node p None w)
                   | Some _ \<Rightarrow> (Err OtherError, w))
       (\<lambda>_ ps. remove_trees (filter (under p) ps))"

subsection \<open>Frames\<close>

text \<open>
  A call confined to a set of paths leaves every other node alone, crash or not, as long as no
  other file waits for its synchronisation; and it never turns a halted machine on again.
\<close>

definition dirty_within :: "path set \<Rightarrow> world \<Rightarrow> bool" where
  "dirty_within S w \<longleftrightarrow> (\<forall>p. w_dirty w p \<longrightarrow> p \<in> S)"

definition step_within :: "path set \<Rightarrow> world \<Rightarrow> world \<Rightarrow> bool" where
  "step_within S w w' \<longleftrightarrow>
     (\<forall>p. p \<notin> S \<longrightarrow> w_fs w' p = w_fs w p) \<and> (dirty_within S w \<longrightarrow> dirty_within S w')
     \<and> (w_halted w \<longrightarrow> w_halted w' \<and> w_fs w' = w_fs w) \<and> w_umask w' = w_umask w \<and> w_pid w' = w_pid w"

definition confined :: "path set \<Rightarrow> ('e, 'a) io \<Rightarrow> bool" where
  "confined S m \<longleftrightarrow> (\<forall>w. dirty_within S w \<longrightarrow> step_within S w (snd (m w)))"

named_theorems confined_intros \<open>calls confined to a set of paths\<close>

lemma step_within_refl [simp]: "step_within S w w"
  by (simp add: step_within_def)

lemma step_within_trans:
  "step_within S w w' \<Longrightarrow> step_within S w' w'' \<Longrightarrow> step_within S w w''"
  by (auto simp: step_within_def)

lemma confinedD: "confined S m \<Longrightarrow> m w = (r, w') \<Longrightarrow> dirty_within S w \<Longrightarrow> step_within S w w'"
  by (auto simp: confined_def dest: spec [of _ w])

lemma confined_return [confined_intros]: "confined S (io_return x)" "confined S (io_fail e)" "confined S (io_result r)"
  by (simp_all add: confined_def io_defs)

lemma confined_try [confined_intros]:
  assumes "confined S m" "\<And>r. confined S (f r)"
  shows "confined S (io_try m f)"
  unfolding confined_def
proof (intro allI impI)
  fix w
  assume w: "dirty_within S w"
  obtain r w' where m: "m w = (r, w')" by fastforce
  then have step: "step_within S w w'" using confinedD [OF assms(1)] w by blast
  then have "dirty_within S w'" using w by (simp add: step_within_def)
  then have "step_within S w' (snd (f r w'))" using assms(2) [of r] by (simp add: confined_def)
  with step show "step_within S w (snd (io_try m f w))" by (auto simp: io_try_def m intro: step_within_trans)
qed

lemma io_bind_try: "io_bind m f = io_try m (\<lambda>r. case r of Inl e \<Rightarrow> io_fail e | Inr x \<Rightarrow> f x)"
  by (auto simp: io_defs fun_eq_iff split: prod.splits sum.splits)

lemma io_map_err_try: "io_map_err g m = io_try m (\<lambda>r. io_result (map_err g r))"
  by (auto simp: io_defs fun_eq_iff split: prod.splits)

lemma confined_bind [confined_intros]: "confined S m \<Longrightarrow> (\<And>x. confined S (f x)) \<Longrightarrow> confined S (io_bind m f)"
  unfolding io_bind_try by (intro confined_intros) (auto split: sum.split intro: confined_intros)

lemma confined_map_err [confined_intros]: "confined S m \<Longrightarrow> confined S (io_map_err g m)"
  unfolding io_map_err_try by (intro confined_intros)

lemma confined_if [confined_intros]: "confined S a \<Longrightarrow> confined S b \<Longrightarrow> confined S (if c then a else b)"
  by simp

lemma step_within_outcomes:
  "step_within S (w\<lparr>w_outcomes := os\<rparr>) w' \<Longrightarrow> \<not> w_halted w \<Longrightarrow> step_within S w w'"
  "dirty_within S (w\<lparr>w_outcomes := os\<rparr>) = dirty_within S w"
  by (simp_all add: step_within_def dirty_within_def)

lemma step_within_crashed:
  assumes "dirty_within S w" "step_within S v w" "\<not> w_halted v"
  shows "step_within S v (crashed garbage w)"
proof -
  have "w_fs (crashed garbage w) p = w_fs w p" if "p \<notin> S" for p
    using that assms(1) by (auto simp: crashed_def dirty_within_def split: option.split node.split)
  then show ?thesis using assms(2,3) by (auto simp: step_within_def dirty_within_def crashed_def)
qed

lemma confined_fs_call:
  assumes act: "\<And>w. dirty_within S w \<Longrightarrow> \<not> w_halted w \<Longrightarrow> step_within S w (snd (act w))"
    and partial: "\<And>n ps w. dirty_within S w \<Longrightarrow> \<not> w_halted w \<Longrightarrow> step_within S w (partial n ps w)"
  shows "confined S (fs_call act partial)"
  unfolding confined_def
proof (intro allI impI)
  fix w
  assume w: "dirty_within S w"
  show "step_within S w (snd (fs_call act partial w))"
  proof (cases "w_halted w")
    case False
    let ?v = "\<lambda>os. w\<lparr>w_outcomes := os\<rparr>"
    have v: "dirty_within S (?v os)" "\<not> w_halted (?v os)" for os
      using w False by (simp_all add: step_within_outcomes)
    have part: "step_within S w (partial n ps (?v os))" for n ps os
      using step_within_outcomes(1) [OF partial [OF v] False] .
    then have "dirty_within S (partial n ps (?v os))" for n ps os
      using w by (simp add: step_within_def)
    then have crash: "step_within S w (crashed g (partial n ps (?v os)))" for n ps os g
      using part False by (intro step_within_crashed)
    have finished: "step_within S w (snd (act (?v os)))" for os
      using step_within_outcomes(1) [OF act [OF v] False] .
    show ?thesis
      using act [OF w False] finished part crash False
      by (auto simp: fs_call_def split: list.split outcome.split)
  qed (simp add: fs_call_def)
qed

lemma no_part_within: "step_within S w (no_part n ps w)"
  by (simp add: no_part_def)

lemma step_within_set: "p \<in> S \<Longrightarrow> \<not> w_halted w \<Longrightarrow> step_within S w (set_node p node w)"
  "p \<in> S \<Longrightarrow> \<not> w_halted w \<Longrightarrow> step_within S w (set_dirty p d w)"
  "p \<in> S \<Longrightarrow> \<not> w_halted w \<Longrightarrow> step_within S w (set_dirty p d (set_node p node w))"
  by (auto simp: step_within_def set_node_def set_dirty_def dirty_within_def)

lemma step_within_put: "p \<in> S \<Longrightarrow> \<not> w_halted w \<Longrightarrow> step_within S w (put_bytes p bytes w)"
  by (auto simp: put_bytes_def step_within_set split: option.split node.split)

lemma confined_read [confined_intros]:
  "confined S (symlink_metadata p)" "confined S (read_file p)" "confined S (open_dir p)"
  unfolding symlink_metadata_def read_file_def open_dir_def
  by (intro confined_fs_call no_part_within; simp split: option.split node.split)+

lemma io_exists_try: "io_exists p = io_try (open_dir p) (\<lambda>r. io_return (is_ok r))"
  by (auto simp: io_exists_def path_exists_def open_dir_def io_defs fun_eq_iff split: prod.split)

lemma confined_exists [confined_intros]: "confined S (io_exists p)"
  unfolding io_exists_try by (intro confined_intros)

lemma confined_sync_directory [confined_intros]: "confined S (sync_directory p)"
  unfolding sync_directory_def by (intro confined_intros confined_fs_call no_part_within) simp

lemma confined_create_new [confined_intros]: "p \<in> S \<Longrightarrow> confined S (create_new p)"
  unfolding create_new_def by (intro confined_fs_call no_part_within) (simp add: step_within_set)

lemma confined_create_dir [confined_intros]: "p \<in> S \<Longrightarrow> confined S (create_dir p m)"
  unfolding create_dir_def by (intro confined_fs_call no_part_within) (simp add: step_within_set)

lemma confined_set_mode [confined_intros]: "p \<in> S \<Longrightarrow> confined S (set_mode p m)"
  unfolding set_mode_def
  by (intro confined_fs_call no_part_within) (simp add: step_within_set split: option.split node.split)

lemma confined_write_all [confined_intros]: "p \<in> S \<Longrightarrow> confined S (write_all p bytes)"
  unfolding write_all_def by (intro confined_fs_call) (simp_all add: step_within_put)

lemma confined_sync_all [confined_intros]: "p \<in> S \<Longrightarrow> confined S (sync_all p)"
  unfolding sync_all_def by (intro confined_fs_call no_part_within) (simp add: step_within_set)

lemma confined_remove_file [confined_intros]: "p \<in> S \<Longrightarrow> confined S (remove_file p)"
  unfolding remove_file_def
  by (intro confined_fs_call no_part_within) (simp add: step_within_set split: option.split node.split)

lemma under_trans: "under p q \<Longrightarrow> under q r \<Longrightarrow> under p r"
  by (metis min.absorb_iff1 length_take min.cobounded1 take_take under_def)

lemma under_refl [simp]: "under p p"
  by (simp add: under_def)

lemma step_within_remove_trees:
  assumes "\<And>p q. p \<in> set ps \<Longrightarrow> under p q \<Longrightarrow> q \<in> S" "\<not> w_halted w"
  shows "step_within S w (remove_trees ps w)"
  using assms by (auto simp: step_within_def remove_trees_def dirty_within_def list_ex_iff)

lemma confined_remove_dir_all [confined_intros]:
  assumes "\<And>q. under p q \<Longrightarrow> q \<in> S"
  shows "confined S (remove_dir_all p)"
  unfolding remove_dir_all_def
proof (intro confined_fs_call)
  fix w :: world
  assume "\<not> w_halted w"
  moreover have "p \<in> S" using assms by simp
  ultimately show "step_within S w (snd (case w_fs w p of None \<Rightarrow> (Err (missing (w_fs w) p), w)
      | Some (Dir _ _) \<Rightarrow> (Ok (), remove_trees [p] w) | Some (Symlink _) \<Rightarrow> (Ok (), set_node p None w)
      | Some _ \<Rightarrow> (Err OtherError, w)))"
    using assms by (auto simp: step_within_set split: option.split node.split intro!: step_within_remove_trees)
next
  fix n ps and w :: world
  assume "\<not> w_halted w"
  then show "step_within S w (remove_trees (filter (under p) ps) w)"
    using assms under_trans by (intro step_within_remove_trees) auto
qed

lemma confined_rename [confined_intros]:
  assumes "\<And>q. under a q \<Longrightarrow> q \<in> S" "\<And>q. under b q \<Longrightarrow> q \<in> S"
  shows "confined S (rename a b)"
  unfolding rename_def
proof (intro confined_fs_call no_part_within)
  fix w
  assume "dirty_within S w" "\<not> w_halted w"
  then show "step_within S w (snd (if w_fs w a = None then (Err (missing (w_fs w) a), w)
      else if a = b then (Ok (), w) else if rename_ok (w_fs w) a b
      then (Ok (), w\<lparr>w_fs := move_tree a b (w_fs w) None, w_dirty := move_tree a b (w_dirty w) False\<rparr>)
      else (Err OtherError, w)))"
    using assms by (auto simp: step_within_def dirty_within_def move_tree_def split: if_splits)
qed

subsection \<open>Calls that succeed\<close>

text \<open>A call that returns \<open>Ok\<close> took its whole effect on a machine that runs.\<close>

lemma fs_call_Ok:
  assumes "fs_call act partial w = (Inr x, w')"
  obtains os where "\<not> w_halted w" "act (w\<lparr>w_outcomes := os\<rparr>) = (Inr x, w')"
proof -
  have running: "\<not> w_halted w" using assms by (auto simp: fs_call_def)
  show thesis
  proof (cases "w_outcomes w")
    case Nil
    then have eq: "w\<lparr>w_outcomes := []\<rparr> = w" by simp
    have "act w = (Inr x, w')" using assms running Nil by (simp add: fs_call_def)
    with eq have "act (w\<lparr>w_outcomes := []\<rparr>) = (Inr x, w')" by argo
    with running show thesis by (rule that)
  next
    case (Cons outcome os)
    then show thesis
      using assms running by (intro that [of os]) (auto simp: fs_call_def split: outcome.splits)
  qed
qed

text \<open>A call that fails and has no partial effect leaves the nodes alone, except the files that wait
  for their synchronisation.\<close>

lemma crashed_within: "dirty_within S w \<Longrightarrow> p \<notin> S \<Longrightarrow> w_fs (crashed garbage w) p = w_fs w p"
  by (auto simp: crashed_def dirty_within_def split: option.split node.split)

lemma fs_call_Err_within:
  assumes call: "fs_call act no_part w = (Inl e, w')" and dirty: "dirty_within S w"
    and act: "\<And>v e' v'. act v = (Inl e', v') \<Longrightarrow> v' = v"
  shows "(\<forall>p. p \<notin> S \<longrightarrow> w_fs w' p = w_fs w p) \<and> dirty_within S w' \<and> w_pid w' = w_pid w"
proof (cases "w_halted w")
  case False
  have crash: "w_fs (crashed g (w\<lparr>w_outcomes := os\<rparr>)) p = w_fs w p" if "p \<notin> S" for g os p
    using that crashed_within [of S "w\<lparr>w_outcomes := os\<rparr>" p g] dirty by (simp add: step_within_outcomes)
  have rest: "dirty_within S (crashed g v) = dirty_within S v" "w_pid (crashed g v) = w_pid v" for g v
    by (simp_all add: crashed_def dirty_within_def)
  show ?thesis
  proof (cases "w_outcomes w")
    case Nil
    then show ?thesis using call False act [of w e w'] dirty by (simp add: fs_call_def)
  next
    case (Cons outcome os)
    then show ?thesis
      using call False act [of "w\<lparr>w_outcomes := os\<rparr>" e w'] dirty crash
      by (auto simp: fs_call_def no_part_def rest step_within_outcomes split: outcome.splits)
  qed
qed (use call dirty in \<open>auto simp: fs_call_def\<close>)

definition same_machine :: "world \<Rightarrow> world \<Rightarrow> bool" where
  "same_machine w w' \<longleftrightarrow>
     \<not> w_halted w \<and> \<not> w_halted w' \<and> w_umask w' = w_umask w \<and> w_pid w' = w_pid w \<and> w_sequence w' = w_sequence w"

named_theorems ok_calls \<open>the effect of a call that returns \<open>Ok\<close>\<close>

lemma symlink_metadata_Ok [ok_calls]:
  "symlink_metadata p w = (Inr node, w') \<Longrightarrow>
     same_machine w w' \<and> w_fs w p = Some node \<and> w_fs w' = w_fs w \<and> w_dirty w' = w_dirty w"
  by (auto simp: symlink_metadata_def same_machine_def elim!: fs_call_Ok split: option.splits)

lemma read_file_Ok [ok_calls]:
  "read_file p w = (Inr bytes, w') \<Longrightarrow>
     same_machine w w' \<and> w_fs w' = w_fs w \<and> w_dirty w' = w_dirty w
     \<and> (\<exists>q m u. resolve MAXSYMLINKS (w_fs w) p = Some q \<and> w_fs w q = Some (File m u bytes))"
  by (auto simp: read_file_def same_machine_def elim!: fs_call_Ok split: option.splits node.splits)

lemma create_new_Ok [ok_calls]:
  "create_new p w = (Inr u, w') \<Longrightarrow>
     same_machine w w' \<and> w_fs w p = None \<and> p \<noteq> [] \<and> is_dir (w_fs w) (butlast p)
     \<and> w_fs w' = (w_fs w)(p \<mapsto> File (438 AND NOT (w_umask w)) 0 []) \<and> w_dirty w' = (w_dirty w)(p := True)"
  by (auto simp: create_new_def same_machine_def set_node_def set_dirty_def elim!: fs_call_Ok split: if_splits)

lemma set_mode_file_Ok [ok_calls]:
  "set_mode p m w = (Inr u, w') \<Longrightarrow> w_fs w p = Some (File m0 u0 bytes) \<Longrightarrow>
     same_machine w w' \<and> w_fs w' = (w_fs w)(p \<mapsto> File m u0 bytes) \<and> w_dirty w' = w_dirty w"
  by (auto simp: set_mode_def same_machine_def set_node_def elim!: fs_call_Ok split: node.splits)

lemma write_all_Ok [ok_calls]:
  "write_all p bytes w = (Inr u, w') \<Longrightarrow> w_fs w p = Some (File m u0 bytes0) \<Longrightarrow>
     same_machine w w' \<and> w_fs w' = (w_fs w)(p \<mapsto> File m u0 bytes) \<and> w_dirty w' = (w_dirty w)(p := True)"
  by (auto simp: write_all_def same_machine_def put_bytes_def set_node_def set_dirty_def
      elim!: fs_call_Ok split: node.splits if_splits)

lemma sync_all_Ok [ok_calls]:
  "sync_all p w = (Inr u, w') \<Longrightarrow>
     same_machine w w' \<and> w_fs w' = w_fs w \<and> w_dirty w' = (w_dirty w)(p := False)"
  by (auto simp: sync_all_def same_machine_def set_dirty_def elim!: fs_call_Ok)

lemma sync_directory_Ok [ok_calls]:
  "sync_directory p w = (Inr u, w') \<Longrightarrow> same_machine w w' \<and> w_fs w' = w_fs w \<and> w_dirty w' = w_dirty w"
  by (auto simp: sync_directory_def open_dir_def io_bind_def same_machine_def
      elim!: fs_call_Ok split: prod.splits sum.splits option.splits)

lemma remove_file_Ok [ok_calls]:
  "remove_file p w = (Inr u, w') \<Longrightarrow>
     same_machine w w' \<and> w_fs w' = (w_fs w)(p := None) \<and> w_dirty w' = (w_dirty w)(p := False)
     \<and> w_fs w p \<noteq> None \<and> \<not> is_dir (w_fs w) p"
  by (auto simp: remove_file_def same_machine_def set_node_def set_dirty_def is_dir_def
      elim!: fs_call_Ok split: option.splits node.splits)

lemma rename_Ok:
  "rename a b w = (Inr u, w') \<Longrightarrow> a \<noteq> b \<Longrightarrow>
     same_machine w w' \<and> w_fs w a \<noteq> None \<and> rename_ok (w_fs w) a b
     \<and> w_fs w' = move_tree a b (w_fs w) None \<and> w_dirty w' = move_tree a b (w_dirty w) False"
  by (auto simp: rename_def same_machine_def elim!: fs_call_Ok split: if_splits)

text \<open>A file system is a tree: what has an entry below it is a directory.\<close>

definition tree :: "fs \<Rightarrow> bool" where
  "tree fs \<longleftrightarrow> (\<forall>p x. fs (p @ [x]) \<noteq> None \<longrightarrow> is_dir fs p)"

lemma tree_below_None:
  assumes "tree fs" "\<not> is_dir fs p" "under p q" "q \<noteq> p"
  shows "fs q = None"
proof -
  obtain r where r: "q = p @ r" "r \<noteq> []" using assms(3,4) by (metis append.right_neutral append_take_drop_id under_def)
  from r(2) have "fs (p @ r) = None"
  proof (induction r rule: rev_induct)
    case (snoc x r)
    then show ?case
    proof (cases "r = []")
      case False
      then have "\<not> is_dir fs (p @ r)" using snoc.IH by (simp add: is_dir_def)
      then show ?thesis using assms(1) unfolding tree_def by (metis append_assoc)
    qed (use assms(1,2) tree_def [of fs] in \<open>metis append_Nil2 append_assoc append_self_conv2\<close>)
  qed simp
  then show ?thesis using r(1) by simp
qed

text \<open>Renaming a file replaces one node.\<close>

lemma move_file:
  assumes "tree fs" "\<not> is_dir fs a" "\<not> is_dir fs b" "\<not> under a b"
  shows "move_tree a b fs None = fs(b := fs a, a := None)"
proof
  fix q
  show "move_tree a b fs None q = (fs(b := fs a, a := None)) q"
  proof (cases "under b q \<and> q \<noteq> b")
    case True
    then obtain r where r: "q = b @ r" "r \<noteq> []" by (metis append.right_neutral append_take_drop_id under_def)
    then have "fs (a @ r) = None" using tree_below_None [OF assms(1,2), of "a @ r"] by (simp add: under_def)
    moreover have "fs q = None" using tree_below_None [OF assms(1,3)] True by blast
    ultimately show ?thesis using True r by (auto simp: move_tree_def)
  next
    case False
    then show ?thesis
      using tree_below_None [OF assms(1,2), of q] assms(4) by (auto simp: move_tree_def)
  qed
qed

lemma create_new_exists:
  "create_new p w = (Inl AlreadyExists, w') \<Longrightarrow>
     same_machine w w' \<and> w_fs w' = w_fs w \<and> w_dirty w' = w_dirty w"
  by (auto simp: create_new_def fs_call_def same_machine_def missing_def split: if_splits list.splits outcome.splits)

lemma create_new_Err:
  "create_new p w = (Inl e, w') \<Longrightarrow> dirty_within S w \<Longrightarrow>
     (\<forall>q. q \<notin> S \<longrightarrow> w_fs w' q = w_fs w q) \<and> dirty_within S w' \<and> w_pid w' = w_pid w"
  unfolding create_new_def by (erule fs_call_Err_within) (auto split: if_splits)

lemma rename_Err:
  "rename a b w = (Inl e, w') \<Longrightarrow> dirty_within S w \<Longrightarrow>
     (\<forall>q. q \<notin> S \<longrightarrow> w_fs w' q = w_fs w q) \<and> dirty_within S w' \<and> w_pid w' = w_pid w"
  unfolding rename_def by (erule fs_call_Err_within) (auto split: if_splits)

lemma remove_file_Err:
  "remove_file p w = (Inl e, w') \<Longrightarrow> dirty_within S w \<Longrightarrow>
     (\<forall>q. q \<notin> S \<longrightarrow> w_fs w' q = w_fs w q) \<and> dirty_within S w' \<and> w_pid w' = w_pid w"
  unfolding remove_file_def by (erule fs_call_Err_within) (auto split: option.splits node.splits)

subsection \<open>The tree is kept\<close>

definition keeps :: "(world \<Rightarrow> bool) \<Rightarrow> ('e, 'a) io \<Rightarrow> bool" where
  "keeps P m \<longleftrightarrow> (\<forall>w. P w \<longrightarrow> P (snd (m w)))"

abbreviation wtree :: "world \<Rightarrow> bool" where
  "wtree w \<equiv> tree (w_fs w)"

named_theorems keeps_intros \<open>calls that keep the file system a tree\<close>

lemma keepsD: "keeps P m \<Longrightarrow> m w = (r, w') \<Longrightarrow> P w \<Longrightarrow> P w'"
  by (auto simp: keeps_def dest: spec [of _ w])

lemma keeps_return [keeps_intros]: "keeps P (io_return x)" "keeps P (io_fail e)" "keeps P (io_result r)"
  by (simp_all add: keeps_def io_defs)

lemma keeps_try [keeps_intros]: "keeps P m \<Longrightarrow> (\<And>r. keeps P (f r)) \<Longrightarrow> keeps P (io_try m f)"
  by (auto simp: keeps_def io_try_def split: prod.split)

lemma keeps_bind [keeps_intros]: "keeps P m \<Longrightarrow> (\<And>x. keeps P (f x)) \<Longrightarrow> keeps P (io_bind m f)"
  unfolding io_bind_try by (intro keeps_intros) (auto split: sum.split intro: keeps_intros)

lemma keeps_map_err [keeps_intros]: "keeps P m \<Longrightarrow> keeps P (io_map_err g m)"
  unfolding io_map_err_try by (intro keeps_intros)

lemma is_dir_crashed: "is_dir (w_fs (crashed g w)) p = is_dir (w_fs w) p"
  by (auto simp: crashed_def is_dir_def split: option.split node.split)

lemma tree_crashed: "wtree (crashed g w) = wtree w"
proof -
  have "w_fs (crashed g w) p = None \<longleftrightarrow> w_fs w p = None" for p
    by (auto simp: crashed_def split: option.split node.split)
  then show ?thesis by (simp add: tree_def is_dir_crashed)
qed

lemma keeps_fs_call:
  assumes "\<And>w. wtree w \<Longrightarrow> wtree (snd (act w))" "\<And>n ps w. wtree w \<Longrightarrow> wtree (partial n ps w)"
  shows "keeps wtree (fs_call act partial)"
  using assms by (auto simp: keeps_def fs_call_def tree_crashed split: list.split outcome.split)

lemma keeps_no_part: "wtree w \<Longrightarrow> wtree (no_part n ps w)"
  by (simp add: no_part_def)

text \<open>A node may be replaced by another one of the same kind, or added or removed as a leaf.\<close>

lemma tree_put:
  assumes "tree fs" "fs p \<noteq> None \<or> p \<noteq> [] \<and> is_dir fs (butlast p)" "is_dir fs p \<longrightarrow> is_dir (fs(p := node)) p"
  shows "tree (fs(p := node))"
  unfolding tree_def
proof (intro allI impI)
  fix q x
  assume new: "(fs(p := node)) (q @ [x]) \<noteq> None"
  have "is_dir fs q"
  proof (cases "q @ [x] = p")
    case True
    then show ?thesis using assms(1,2) by (auto simp: tree_def)
  next
    case False
    then show ?thesis using new assms(1) by (auto simp: tree_def)
  qed
  then show "is_dir (fs(p := node)) q" using assms(3) by (auto simp: is_dir_def)
qed

lemma tree_set_node:
  "wtree w \<Longrightarrow> w_fs w p \<noteq> None \<or> p \<noteq> [] \<and> is_dir (w_fs w) (butlast p) \<Longrightarrow> \<not> is_dir (w_fs w) p \<Longrightarrow> wtree (set_node p node w)"
  by (simp add: set_node_def tree_put)

lemma w_fs_set_dirty [simp]: "w_fs (set_dirty p d w) = w_fs w"
  by (simp add: set_dirty_def)

lemma tree_put_bytes: "wtree w \<Longrightarrow> wtree (put_bytes p bytes w)"
  by (auto simp: put_bytes_def is_dir_def intro!: tree_set_node split: option.split node.split)

lemma keeps_reading [keeps_intros]:
  "keeps wtree (symlink_metadata p)" "keeps wtree (read_file p)" "keeps wtree (open_dir p)"
  unfolding symlink_metadata_def read_file_def open_dir_def
  by (intro keeps_fs_call keeps_no_part; simp split: option.split node.split)+

lemma keeps_syncing [keeps_intros]: "keeps wtree (sync_all p)" "keeps wtree (sync_directory p)" "keeps wtree (io_exists p)"
  unfolding sync_all_def sync_directory_def io_exists_try
  by (intro keeps_intros keeps_fs_call keeps_no_part; simp)+

lemma keeps_creating [keeps_intros]:
  "keeps wtree (create_new p)" "keeps wtree (create_dir p m)" "keeps wtree (write_all p bytes)"
  unfolding create_new_def create_dir_def write_all_def
  by (intro keeps_fs_call keeps_no_part;
      auto simp: is_dir_def tree_put_bytes intro!: tree_set_node split: option.splits)+

lemma keeps_set_mode [keeps_intros]: "keeps wtree (set_mode p m)"
  unfolding set_mode_def
  by (intro keeps_fs_call keeps_no_part)
    (auto simp: set_node_def is_dir_def intro!: tree_put split: option.split node.split)

lemma keeps_remove_file [keeps_intros]: "keeps wtree (remove_file p)"
  unfolding remove_file_def
  by (intro keeps_fs_call keeps_no_part)
    (auto simp: is_dir_def intro!: tree_set_node split: option.split node.split)

lemma under_iff: "under p q \<longleftrightarrow> (\<exists>r. q = p @ r)"
  unfolding under_def by (metis append_eq_conv_conj)

lemma under_append: "under p q \<Longrightarrow> under p (q @ r)"
  unfolding under_iff by auto

lemma tree_remove_trees: "wtree w \<Longrightarrow> wtree (remove_trees ps w)"
  unfolding tree_def
proof (intro allI impI)
  fix p x
  assume w: "\<forall>p x. w_fs w (p @ [x]) \<noteq> None \<longrightarrow> is_dir (w_fs w) p"
    and entry: "w_fs (remove_trees ps w) (p @ [x]) \<noteq> None"
  then have "\<not> list_ex (\<lambda>q. under q (p @ [x])) ps" "w_fs w (p @ [x]) \<noteq> None"
    by (auto simp: remove_trees_def split: if_splits)
  moreover from this(1) have "\<not> list_ex (\<lambda>q. under q p) ps" using under_append by (fastforce simp: list_ex_iff)
  moreover have "is_dir (w_fs w) p" using w calculation(2) by blast
  ultimately show "is_dir (w_fs (remove_trees ps w)) p" by (simp add: remove_trees_def is_dir_def)
qed

lemma keeps_remove_dir_all [keeps_intros]: "keeps wtree (remove_dir_all p)"
  unfolding remove_dir_all_def
  by (intro keeps_fs_call)
    (auto simp: is_dir_def tree_remove_trees intro!: tree_set_node split: option.split node.split)

lemma under_butlast: "under p (q @ [x]) \<Longrightarrow> under p q \<or> p = q @ [x]"
proof -
  assume "under p (q @ [x])"
  then obtain r where "q @ [x] = p @ r" by (metis append_take_drop_id under_def)
  then show ?thesis by (cases r rule: rev_cases) (auto simp: under_def)
qed

lemma tree_move:
  assumes "tree fs" "rename_ok fs a b" "fs a \<noteq> None"
  shows "tree (move_tree a b fs None)"
  unfolding tree_def
proof (intro allI impI)
  fix q x
  assume old: "move_tree a b fs None (q @ [x]) \<noteq> None"
  have ab: "\<not> under a b" "\<not> under b a" "b \<noteq> []" "is_dir fs (butlast b)" using assms(2) by (simp_all add: rename_ok_def)
  show "is_dir (move_tree a b fs None) q"
  proof (cases "under b (q @ [x])")
    case True
    show ?thesis
    proof (cases "q @ [x] = b")
      case True
      then have q: "q = butlast b" by (metis butlast_snoc)
      have "\<not> under b q" using True by (auto simp: under_def dest: arg_cong [where f = length])
      moreover have "\<not> under a q" using ab(1) under_append [of a q "[x]"] True by auto
      ultimately show ?thesis using ab(4) q by (simp add: is_dir_def move_tree_def)
    next
      case False
      then have bq: "under b q" using True under_butlast by blast
      then have "fs (a @ drop (length b) q @ [x]) \<noteq> None"
        using old True by (auto simp: move_tree_def under_def)
      then have "is_dir fs (a @ drop (length b) q)"
        using assms(1) unfolding tree_def by (metis append_assoc)
      then show ?thesis using bq by (simp add: is_dir_def move_tree_def)
    qed
  next
    case False
    then have "\<not> under b q" "\<not> under a (q @ [x])" "fs (q @ [x]) \<noteq> None"
      using old under_append by (auto simp: move_tree_def split: if_splits)
    then show ?thesis using assms(1) under_append [of a q "[x]"] by (auto simp: tree_def is_dir_def move_tree_def)
  qed
qed

lemma keeps_rename [keeps_intros]: "keeps wtree (rename a b)"
  unfolding rename_def by (intro keeps_fs_call keeps_no_part) (auto simp: tree_move)

lemma symlink_metadata_NotFound:
  "symlink_metadata p w = (Inl NotFound, w') \<Longrightarrow> w_fs w p = None \<and> w_fs w' = w_fs w \<and> w_dirty w' = w_dirty w \<and> same_machine w w'"
  by (auto simp: symlink_metadata_def fs_call_def no_part_def same_machine_def
      split: if_splits list.splits outcome.splits option.splits)

lemma remove_file_NotFound:
  "remove_file p w = (Inl NotFound, w') \<Longrightarrow> w_fs w p = None \<and> w_fs w' = w_fs w \<and> w_dirty w' = w_dirty w \<and> same_machine w w'"
  by (auto simp: remove_file_def fs_call_def no_part_def same_machine_def
      split: if_splits list.splits outcome.splits option.splits node.splits)

text \<open>A machine that starts again after a crash has everything on its disk.\<close>

definition restart :: "outcome list \<Rightarrow> world \<Rightarrow> world" where
  "restart os w = w\<lparr>w_halted := False, w_dirty := (\<lambda>_. False), w_outcomes := os\<rparr>"

subsection \<open>Nodes that are not links\<close>

definition not_link :: "node option \<Rightarrow> bool" where
  "not_link node = (case node of Some (Symlink _) \<Rightarrow> False | _ \<Rightarrow> True)"

lemma not_link_simps [simp]: "not_link None" "not_link (Some (File m u bytes))" "not_link (Some (Dir m u))"
  by (simp_all add: not_link_def)

end
