(* ===== verification/Atomic_File.thy ===== *)
theory Atomic_File
  imports Fs
begin

section \<open>Replacing a file atomically\<close>

text \<open>
  \<open>atomic_write\<close> of \<open>nethopd/src/worker_config.rs\<close>, with which the daemon writes its
  configuration, journals and small state files: the bytes go to a fresh temporary file in the
  directory of the target, which is synchronised and renamed over the target. The checks of
  owner and permissions are those of the Android build. The counter of temporary names and the
  process ID are part of the world of calls.
\<close>

datatype ConfigError =
    Missing | InvalidPath | TooLarge | UnstableSnapshot | InvalidUtf8 | InvalidToml | UnknownField
  | InvalidValue | UnsupportedSchema | InvalidSourceCount | SingleSourceNotUnique | NoActiveSource
  | InvalidSourceName | DuplicateSourceName | DuplicateSourceUrl | InvalidSourceUrl
  | SourceUrlNonHttps | InvalidCapture | InvalidUpdateSchedule | InvalidSourceOptions
  | InvalidProxy | InvalidApplications | ApplicationCatalogUnavailable | InvalidNetwork
  | UnsupportedNetwork | InvalidRouting | UnsupportedRouting | InvalidLogging | InvalidAdvanced
  | Conflict | WriteFailed

definition MAX_CONFIG_BYTES :: nat where
  "MAX_CONFIG_BYTES = 256 * 1024"

definition MAX_TEMP_ATTEMPTS :: nat where
  "MAX_TEMP_ATTEMPTS = 16"

text \<open>\<open>mode & 0o077 == 0\<close>.\<close>

definition no_group_or_other :: "u32 \<Rightarrow> bool" where
  "no_group_or_other mode \<longleftrightarrow> mode AND 63 = 0"

definition private_directory :: "node \<Rightarrow> bool" where
  "private_directory md \<longleftrightarrow> md_uid md = 0 \<and> no_group_or_other (md_mode md)"

definition private_file :: "node \<Rightarrow> bool" where
  "private_file md \<longleftrightarrow> md_uid md = 0 \<and> no_group_or_other (md_mode md)"

definition validate_private_parent :: "path \<Rightarrow> (ConfigError, unit) io" where
  "validate_private_parent p =
     (if p = [] then io_fail InvalidPath
      else io_bind (io_map_err (\<lambda>_. InvalidPath) (symlink_metadata (butlast p))) (\<lambda>md.
        if \<not> md_is_dir md \<or> md_is_symlink md \<or> \<not> private_directory md then io_fail InvalidPath
        else io_return ()))"

definition temp_name :: "u32 \<Rightarrow> u64 \<Rightarrow> string" where
  "temp_name pid sequence =
     ''.nethop.toml.'' @ show_nat (unat pid) @ ''.'' @ show_u64 sequence @ ''.tmp''"

text \<open>The loop over fresh names: \<^const>\<open>None\<close> when every attempt met an existing file.\<close>

fun create_temporary :: "nat \<Rightarrow> path \<Rightarrow> (ConfigError, path option) io" where
  "create_temporary 0 parent w = (Ok None, w)"
| "create_temporary (Suc attempts) parent w =
     (let candidate = parent @ [temp_name (w_pid w) (w_sequence w)]
      in case create_new candidate (w\<lparr>w_sequence := w_sequence w + 1\<rparr>) of
           (Inr _, w) \<Rightarrow> (Ok (Some candidate), w)
         | (Inl AlreadyExists, w) \<Rightarrow> create_temporary attempts parent w
         | (Inl _, w) \<Rightarrow> (Err WriteFailed, w))"

definition set_private :: "path \<Rightarrow> (ConfigError, unit) io" where
  "set_private file = io_map_err (\<lambda>_. WriteFailed) (set_mode file 384)"

definition fill_and_rename :: "path \<Rightarrow> path \<Rightarrow> bytes \<Rightarrow> (ConfigError, unit) io" where
  "fill_and_rename temporary p bytes =
     io_bind (set_private temporary) (\<lambda>_.
     io_bind (io_map_err (\<lambda>_. WriteFailed) (write_all temporary bytes)) (\<lambda>_.
     io_bind (io_map_err (\<lambda>_. WriteFailed) (sync_all temporary)) (\<lambda>_.
     io_bind (io_map_err (\<lambda>_. WriteFailed) (rename temporary p)) (\<lambda>_.
       io_map_err (\<lambda>_. WriteFailed) (sync_directory (butlast p))))))"

definition atomic_write :: "path \<Rightarrow> bytes \<Rightarrow> (ConfigError, unit) io" where
  "atomic_write p bytes =
     (if p = [] then io_fail InvalidPath
      else io_bind (validate_private_parent p) (\<lambda>_.
        io_bind (create_temporary MAX_TEMP_ATTEMPTS (butlast p)) (\<lambda>temporary.
          case temporary of
            None \<Rightarrow> io_fail WriteFailed
          | Some temporary \<Rightarrow>
              io_try (fill_and_rename temporary p bytes) (\<lambda>result.
                if is_err result then io_try (remove_file temporary) (\<lambda>_. io_result result)
                else io_result result))))"

subsection \<open>What a write leaves behind\<close>

text \<open>The names of temporary files; a write may touch such paths besides its target.\<close>

definition temp_paths :: "path set" where
  "temp_paths = {q. \<exists>parent pid sequence. q = parent @ [temp_name pid sequence]}"

lemma io_bind_Inr:
  "io_bind m f w = (Inr y, w'') \<longleftrightarrow> (\<exists>x w'. m w = (Inr x, w') \<and> f x w' = (Inr y, w''))"
  by (auto simp: io_bind_def split: prod.splits sum.splits)

lemma io_bind_Inl:
  "io_bind m f w = (Inl e, w'') \<longleftrightarrow>
     m w = (Inl e, w'') \<or> (\<exists>x w'. m w = (Inr x, w') \<and> f x w' = (Inl e, w''))"
  by (auto simp: io_bind_def split: prod.splits sum.splits)

lemma io_map_err_Inr: "io_map_err g m w = (Inr y, w') \<longleftrightarrow> m w = (Inr y, w')"
  by (auto simp: io_map_err_def map_err_def split: prod.splits sum.splits)

lemma io_map_err_Inl: "io_map_err g m w = (Inl e, w') \<longleftrightarrow> (\<exists>d. m w = (Inl d, w') \<and> e = g d)"
  by (auto simp: io_map_err_def map_err_def split: prod.splits sum.splits)

lemmas io_cases = io_bind_Inr io_bind_Inl io_map_err_Inr io_map_err_Inl

lemma temp_in_temp_paths: "parent @ [temp_name pid sequence] \<in> temp_paths"
  by (auto simp: temp_paths_def)

lemma step_within_sequence:
  "step_within S (w\<lparr>w_sequence := n\<rparr>) w' = step_within S w w'"
  "dirty_within S (w\<lparr>w_sequence := n\<rparr>) = dirty_within S w"
  by (simp_all add: step_within_def dirty_within_def)

lemma confined_create_temporary: "confined temp_paths (create_temporary n parent)"
proof (induction n)
  case (Suc n)
  show ?case
    unfolding confined_def
  proof (intro allI impI)
    fix w
    assume w: "dirty_within temp_paths w"
    let ?t = "parent @ [temp_name (w_pid w) (w_sequence w)]"
    let ?v = "w\<lparr>w_sequence := w_sequence w + 1\<rparr>"
    obtain r v where c: "create_new ?t ?v = (r, v)" by fastforce
    have step: "step_within temp_paths w v"
      using confinedD [OF confined_create_new c] w by (simp add: temp_in_temp_paths step_within_sequence)
    then have "dirty_within temp_paths v" using w by (simp add: step_within_def)
    then have "step_within temp_paths v (snd (create_temporary n parent v))" using Suc.IH by (simp add: confined_def)
    with step show "step_within temp_paths w (snd (create_temporary (Suc n) parent w))"
      by (auto simp: Let_def c split: sum.split io_error.split intro: step_within_trans)
  qed
qed (simp add: confined_def)

lemma create_temporary_Some:
  assumes "create_temporary n parent w = (Inr (Some t), w')"
  shows "t \<in> temp_paths \<and> \<not> w_halted w \<and> w_fs w t = None \<and> is_dir (w_fs w) (butlast t)
    \<and> (\<exists>m. w_fs w' = (w_fs w)(t \<mapsto> File m 0 []))"
  using assms
proof (induction n parent w rule: create_temporary.induct)
  case (2 n parent w)
  let ?t = "parent @ [temp_name (w_pid w) (w_sequence w)]"
  let ?v = "w\<lparr>w_sequence := w_sequence w + 1\<rparr>"
  obtain r v where c: "create_new ?t ?v = (r, v)" by fastforce
  show ?case
  proof (cases r)
    case (Inl e)
    with "2.prems" c have e: "e = AlreadyExists" by (cases e) (auto simp: Let_def)
    with c Inl have v: "same_machine ?v v" "w_fs v = w_fs w" using create_new_exists [of ?t ?v v] by auto
    have "create_temporary n parent v = (Inr (Some t), w')" using "2.prems" c Inl e by (simp add: Let_def)
    from "2.IH" [OF refl c [unfolded Inl e, symmetric] refl refl this] v show ?thesis
      by (auto simp: same_machine_def)
  next
    case (Inr u)
    then have "t = ?t" "w' = v" using "2.prems" c by (auto simp: Let_def)
    with create_new_Ok [of ?t ?v u v] c Inr show ?thesis
      by (auto simp: temp_in_temp_paths same_machine_def)
  qed
qed simp

text \<open>Filling the temporary file: an error before the rename has touched temporary files only; after
  it the target holds the bytes.\<close>

lemma dirty_within_move:
  assumes "dirty_within temp_paths w" "\<not> w_dirty w t"
  shows "dirty_within temp_paths (v\<lparr>w_dirty := move_tree t p (w_dirty w) False\<rparr>)"
proof -
  have "q \<in> temp_paths" if pq: "under p q" and dirty: "w_dirty w (t @ drop (length p) q)" for q
  proof -
    obtain r where q: "q = p @ r" using pq unfolding under_iff by blast
    then have "w_dirty w (t @ r)" using dirty by simp
    then have "t @ r \<in> temp_paths" "r \<noteq> []" using assms by (auto simp: dirty_within_def)
    then obtain parent pid sequence where "t @ r = parent @ [temp_name pid sequence]"
      by (auto simp: temp_paths_def)
    then have "r = butlast r @ [temp_name pid sequence]"
      using \<open>r \<noteq> []\<close> by (metis append_butlast_last_id last_appendR last_snoc)
    then show ?thesis unfolding q temp_paths_def by (metis (mono_tags, lifting) append.assoc mem_Collect_eq)
  qed
  then show ?thesis using assms(1) by (auto simp: dirty_within_def move_tree_def split: if_splits)
qed

definition fill_part :: "path \<Rightarrow> bytes \<Rightarrow> (ConfigError, unit) io" where
  "fill_part t bytes =
     io_bind (set_private t) (\<lambda>_. io_bind (io_map_err (\<lambda>_. WriteFailed) (write_all t bytes)) (\<lambda>_.
       io_map_err (\<lambda>_. WriteFailed) (sync_all t)))"

definition move_part :: "path \<Rightarrow> path \<Rightarrow> (ConfigError, unit) io" where
  "move_part t p =
     io_bind (io_map_err (\<lambda>_. WriteFailed) (rename t p)) (\<lambda>_.
       io_map_err (\<lambda>_. WriteFailed) (sync_directory (butlast p)))"

lemma fill_and_rename_parts: "fill_and_rename t p bytes = io_bind (fill_part t bytes) (\<lambda>_. move_part t p)"
  by (auto simp: fill_and_rename_def fill_part_def move_part_def io_bind_def fun_eq_iff split: prod.split sum.split)

lemma fill_part_within: "t \<in> temp_paths \<Longrightarrow> confined temp_paths (fill_part t bytes)"
  unfolding fill_part_def set_private_def
  by (intro confined_bind confined_map_err confined_set_mode confined_write_all confined_sync_all)

lemma fill_part_Ok:
  assumes "fill_part t bytes w = (Inr u, v)" "w_fs w t = Some (File m 0 c)"
  shows "w_fs v = (w_fs w)(t \<mapsto> File 384 0 bytes) \<and> w_dirty v = (w_dirty w)(t := False) \<and> \<not> w_halted v"
  using assms
  by (auto simp: fill_part_def set_private_def io_cases same_machine_def dest!: set_mode_file_Ok write_all_Ok sync_all_Ok)

lemma rename_Err_within:
  assumes "rename t p v = (Inl e, v')" "dirty_within S v" "\<not> w_halted v"
  shows "step_within S v v'"
proof -
  have "confined UNIV (rename t p)" by (rule confined_rename) auto
  then have "step_within UNIV v v'" using assms(1) confinedD [of UNIV "rename t p" v _ v'] by (auto simp: dirty_within_def)
  then show ?thesis using rename_Err [OF assms(1,2)] assms(3) by (auto simp: step_within_def)
qed

lemma move_part_cases:
  assumes run: "move_part t p v = (r, w')" and t: "t \<in> temp_paths" "w_fs v t = Some (File m 0 bytes)" "\<not> w_dirty v t"
    and p: "p \<notin> temp_paths" and v: "tree (w_fs v)" "dirty_within temp_paths v" "\<not> w_halted v"
  shows "is_err r \<and> step_within temp_paths v w'
    \<or> (\<exists>v'. w_fs v' = (w_fs v)(p \<mapsto> File m 0 bytes, t := None) \<and> dirty_within temp_paths v' \<and> \<not> w_halted v'
         \<and> w_pid v' = w_pid v \<and> step_within temp_paths v' w' \<and> (is_ok r \<longrightarrow> w_fs w' = w_fs v' \<and> \<not> w_halted w'))"
proof -
  obtain q v' where ren: "rename t p v = (q, v')" by fastforce
  have "t \<noteq> p" using t(1) p by blast
  show ?thesis
  proof (cases q)
    case (Inl e)
    then have "r = Err WriteFailed" "w' = v'" using run ren by (auto simp: move_part_def io_bind_def io_map_err_def)
    then show ?thesis using rename_Err_within [OF ren [unfolded Inl] v(2,3)] by simp
  next
    case (Inr u)
    note moved = rename_Ok [OF ren [unfolded Inr] \<open>t \<noteq> p\<close>]
    have "\<not> is_dir (w_fs v) t" using t(2) by (simp add: is_dir_def)
    moreover from this have "\<not> is_dir (w_fs v) p" "\<not> under t p" using moved by (auto simp: rename_ok_def)
    ultimately have "w_fs v' = (w_fs v)(p \<mapsto> File m 0 bytes, t := None)" using moved t(2) v(1) by (simp add: move_file)
    moreover have "v' = v'\<lparr>w_dirty := move_tree t p (w_dirty v) False\<rparr>" using moved by simp
    then have dirty: "dirty_within temp_paths v'" using dirty_within_move [OF v(2) t(3), where v = v' and p = p] by argo
    have sync: "io_map_err (\<lambda>_. WriteFailed) (sync_directory (butlast p)) v' = (r, w')"
      using run ren Inr by (simp add: move_part_def io_bind_def io_map_err_def)
    have "step_within temp_paths v' w'"
      by (rule confinedD [OF confined_map_err [OF confined_sync_directory] sync dirty])
    moreover have "w_fs w' = w_fs v' \<and> \<not> w_halted w'" if "is_ok r"
      using that sync by (cases r) (auto simp: io_cases same_machine_def dest!: sync_directory_Ok)
    ultimately show ?thesis using dirty moved by (auto simp: same_machine_def)
  qed
qed

lemma fill_and_rename_cases:
  assumes run: "fill_and_rename t p bytes w = (r, w')" and t: "t \<in> temp_paths" "w_fs w t = Some (File m 0 c)"
    and p: "p \<notin> temp_paths" and w: "tree (w_fs w)" "dirty_within temp_paths w"
  shows "is_err r \<and> step_within temp_paths w w'
    \<or> (\<exists>v. w_fs v = (w_fs w)(p \<mapsto> File 384 0 bytes, t := None) \<and> dirty_within temp_paths v \<and> \<not> w_halted v
         \<and> w_pid v = w_pid w \<and> step_within temp_paths v w' \<and> (is_ok r \<longrightarrow> w_fs w' = w_fs v \<and> \<not> w_halted w'))"
proof -
  obtain q v where fill: "fill_part t bytes w = (q, v)" by fastforce
  have step: "step_within temp_paths w v" by (rule confinedD [OF fill_part_within [OF t(1)] fill w(2)])
  show ?thesis
  proof (cases q)
    case (Inl e)
    then show ?thesis using run fill step by (auto simp: fill_and_rename_parts io_bind_def)
  next
    case (Inr u)
    note filled = fill_part_Ok [OF fill [unfolded Inr] t(2)]
    have move: "move_part t p v = (r, w')" using run fill Inr by (simp add: fill_and_rename_parts io_bind_def)
    have v: "dirty_within temp_paths v" "w_pid v = w_pid w" using step w(2) by (simp_all add: step_within_def)
    have "tree (w_fs v)" using filled w(1) t(2) by (auto simp: is_dir_def intro!: tree_put)
    from move_part_cases [OF move t(1) _ _ p this v(1)] filled
    have "is_err r \<and> step_within temp_paths v w'
      \<or> (\<exists>v'. w_fs v' = (w_fs v)(p \<mapsto> File 384 0 bytes, t := None) \<and> dirty_within temp_paths v' \<and> \<not> w_halted v'
         \<and> w_pid v' = w_pid v \<and> step_within temp_paths v' w' \<and> (is_ok r \<longrightarrow> w_fs w' = w_fs v' \<and> \<not> w_halted w'))"
      by simp
    moreover have "(w_fs v)(p \<mapsto> File 384 0 bytes, t := None) = (w_fs w)(p \<mapsto> File 384 0 bytes, t := None)"
      using filled by (auto simp: fun_eq_iff)
    ultimately show ?thesis using step v(2) step_within_trans [OF step] by auto
  qed
qed

lemma keeps_create_temporary [keeps_intros]: "keeps wtree (create_temporary n parent)"
proof (induction n)
  case (Suc n)
  show ?case
    unfolding keeps_def
  proof (intro allI impI)
    fix w
    assume w: "wtree w"
    let ?t = "parent @ [temp_name (w_pid w) (w_sequence w)]"
    let ?v = "w\<lparr>w_sequence := w_sequence w + 1\<rparr>"
    obtain r v where c: "create_new ?t ?v = (r, v)" by fastforce
    have "wtree v" using keepsD [OF keeps_creating(1) c] w by simp
    with Suc.IH c show "wtree (snd (create_temporary (Suc n) parent w))"
      by (auto simp: Let_def keeps_def split: sum.split io_error.split)
  qed
qed (simp add: keeps_def)

lemma keeps_atomic_write [keeps_intros]: "keeps wtree (atomic_write p bytes)"
  unfolding atomic_write_def validate_private_parent_def fill_and_rename_def set_private_def
  by (auto intro!: keeps_intros split: option.split)

lemma validate_private_parent_within: "confined S (validate_private_parent p)"
  unfolding validate_private_parent_def by (intro confined_intros)

lemma validate_private_parent_Ok:
  "validate_private_parent p w = (Inr u, w') \<Longrightarrow> w_fs w' = w_fs w \<and> w_dirty w' = w_dirty w \<and> \<not> w_halted w'"
  by (auto simp: validate_private_parent_def io_cases io_fail_def io_return_def same_machine_def
      dest!: symlink_metadata_Ok split: if_splits)

text \<open>The whole write: the target holds the old node or the new file, and no other path but
  temporary ones has changed; a write that returns \<open>Ok\<close> has changed the target and nothing else.\<close>

definition wrote :: "path \<Rightarrow> bytes \<Rightarrow> world \<Rightarrow> world \<Rightarrow> bool" where
  "wrote p bytes w w' \<longleftrightarrow>
     dirty_within temp_paths w'
     \<and> (w_fs w' p = w_fs w p \<or> w_fs w' p = Some (File 384 0 bytes))
     \<and> (\<forall>q. q \<notin> temp_paths \<longrightarrow> q \<noteq> p \<longrightarrow> w_fs w' q = w_fs w q)"

lemma wrote_same:
  "step_within temp_paths w w' \<Longrightarrow> dirty_within temp_paths w \<Longrightarrow> p \<notin> temp_paths \<Longrightarrow> wrote p bytes w w'"
  by (simp add: wrote_def step_within_def)

lemma wrote_new:
  assumes "w_fs v = (w_fs w)(p \<mapsto> File 384 0 bytes, t := None)" "t \<in> temp_paths" "p \<notin> temp_paths"
    "dirty_within temp_paths v" "step_within temp_paths v w'"
  shows "wrote p bytes w w'"
proof -
  have "w_fs w' q = w_fs v q" if "q \<notin> temp_paths" for q using assms(5) that by (simp add: step_within_def)
  moreover have "q \<noteq> t" if "q \<notin> temp_paths" for q using that assms(2) by blast
  ultimately show ?thesis using assms by (auto simp: wrote_def step_within_def)
qed

lemma step_then_wrote:
  assumes "step_within temp_paths w v" "p \<notin> temp_paths" "wrote p bytes v w'"
  shows "wrote p bytes w w'"
  using assms by (auto simp: wrote_def step_within_def)

lemma write_temporary_cases:
  assumes run: "io_try (fill_and_rename t p bytes) (\<lambda>result.
        if is_err result then io_try (remove_file t) (\<lambda>_. io_result result) else io_result result) w = (r, w')"
    and t: "t \<in> temp_paths" "w_fs w t = Some (File m 0 c)" and p: "p \<notin> temp_paths"
    and w: "tree (w_fs w)" "dirty_within temp_paths w"
  shows "wrote p bytes w w' \<and> (is_ok r \<longrightarrow> w_fs w' = (w_fs w)(p \<mapsto> File 384 0 bytes, t := None) \<and> \<not> w_halted w')"
proof -
  obtain q v where fr: "fill_and_rename t p bytes w = (q, v)" by fastforce
  obtain q' v' where rm: "remove_file t v = (q', v')" by fastforce
  have run': "r = q" "w' = (if is_err q then v' else v)"
    using run fr rm by (auto simp: io_try_def io_result_def split: if_splits)
  have rest: "step_within temp_paths v w'" if "dirty_within temp_paths v"
    using confinedD [OF confined_remove_file [OF t(1)] rm that] by (simp add: run'(2))
  from fill_and_rename_cases [OF fr t p w]
  show ?thesis
  proof
    assume "is_err q \<and> step_within temp_paths w v"
    then show ?thesis
      using rest w(2) p wrote_same step_within_trans
      by (metis is_err_not_ok run'(1) step_within_def)
  next
    assume "\<exists>u. w_fs u = (w_fs w)(p \<mapsto> File 384 0 bytes, t := None) \<and> dirty_within temp_paths u \<and> \<not> w_halted u
        \<and> w_pid u = w_pid w \<and> step_within temp_paths u v \<and> (is_ok q \<longrightarrow> w_fs v = w_fs u \<and> \<not> w_halted v)"
    then obtain u where u: "w_fs u = (w_fs w)(p \<mapsto> File 384 0 bytes, t := None)" "dirty_within temp_paths u"
      "step_within temp_paths u v" "is_ok q \<longrightarrow> w_fs v = w_fs u \<and> \<not> w_halted v" by blast
    have "step_within temp_paths u w'"
      using u(2,3) rest step_within_trans by (metis step_within_def)
    then show ?thesis
      using wrote_new [OF u(1) t(1) p u(2)] u(1,4) by (simp add: run' is_err_not_ok)
  qed
qed

lemma atomic_write_cases:
  assumes run: "atomic_write p bytes w = (r, w')" and p: "p \<notin> temp_paths"
    and w: "tree (w_fs w)" "dirty_within temp_paths w"
  shows "wrote p bytes w w' \<and> (is_ok r \<longrightarrow> w_fs w' = (w_fs w)(p \<mapsto> File 384 0 bytes) \<and> \<not> w_halted w')"
proof (cases "p = []")
  case True
  then show ?thesis using run w(2) p by (auto simp: atomic_write_def io_fail_def intro: wrote_same)
next
  case False
  obtain q v where val: "validate_private_parent p w = (q, v)" by fastforce
  have step: "step_within temp_paths w v" by (rule confinedD [OF validate_private_parent_within val w(2)])
  show ?thesis
  proof (cases q)
    case (Inl e)
    then show ?thesis using run val False step w(2) p by (auto simp: atomic_write_def io_bind_def intro: wrote_same)
  next
    case (Inr u)
    have v: "tree (w_fs v)" "dirty_within temp_paths v" "w_fs v = w_fs w"
      using validate_private_parent_Ok [OF val [unfolded Inr]] w by (simp_all add: dirty_within_def)
    obtain q2 v2 where tmp: "create_temporary MAX_TEMP_ATTEMPTS (butlast p) v = (q2, v2)" by fastforce
    have step2: "step_within temp_paths w v2"
      using confinedD [OF confined_create_temporary tmp v(2)] step step_within_trans by blast
    then have v2: "dirty_within temp_paths v2" "tree (w_fs v2)"
      using w(2) keepsD [OF keeps_create_temporary tmp v(1)] by (simp_all add: step_within_def)
    show ?thesis
    proof (cases "\<exists>t. q2 = Inr (Some t)")
      case True
      then obtain t where t: "q2 = Inr (Some t)" by blast
      from create_temporary_Some [OF tmp [unfolded t]] obtain m
        where new: "t \<in> temp_paths" "w_fs v t = None" "w_fs v2 = (w_fs v)(t \<mapsto> File m 0 [])" by blast
      have rest: "wrote p bytes v2 w' \<and> (is_ok r \<longrightarrow> w_fs w' = (w_fs v2)(p \<mapsto> File 384 0 bytes, t := None) \<and> \<not> w_halted w')"
        using run val Inr tmp t False new v2
        by (intro write_temporary_cases [OF _ new(1) _ p]) (simp_all add: atomic_write_def io_bind_def)
      have "(w_fs v2)(p \<mapsto> File 384 0 bytes, t := None) = (w_fs w)(p \<mapsto> File 384 0 bytes)"
        using new v(3) p by (auto simp: fun_eq_iff)
      with rest show ?thesis using step_then_wrote [OF step2 p] by simp
    next
      case False
      then have "is_err r \<and> w' = v2"
        using run val Inr tmp \<open>p \<noteq> []\<close>
        by (cases q2) (auto simp: atomic_write_def io_bind_def io_fail_def split: option.splits)
      then show ?thesis using step2 w(2) p by (auto simp: is_err_not_ok intro: wrote_same)
    qed
  qed
qed

subsection \<open>Frames of the stores\<close>

text \<open>
  Between the operations of the stores only temporary files wait for their synchronisation. An
  operation framed by a set of paths keeps it so, keeps the tree, and leaves every path outside the
  set alone, temporary files excepted.
\<close>

definition neat :: "world \<Rightarrow> bool" where
  "neat w \<longleftrightarrow> tree (w_fs w) \<and> dirty_within temp_paths w"

definition framed :: "path set \<Rightarrow> world \<Rightarrow> world \<Rightarrow> bool" where
  "framed S w w' \<longleftrightarrow> neat w' \<and> (\<forall>q. q \<notin> S \<longrightarrow> q \<notin> temp_paths \<longrightarrow> w_fs w' q = w_fs w q)"

definition frame :: "path set \<Rightarrow> ('e, 'a) io \<Rightarrow> bool" where
  "frame S m \<longleftrightarrow> (\<forall>w. neat w \<longrightarrow> framed S w (snd (m w)))"

named_theorems frame_intros \<open>operations framed by a set of paths\<close>

lemma frameD: "frame S m \<Longrightarrow> m w = (r, w') \<Longrightarrow> neat w \<Longrightarrow> framed S w w'"
  by (auto simp: frame_def dest: spec [of _ w])

lemma framed_refl: "neat w \<Longrightarrow> framed S w w"
  by (simp add: framed_def)

lemma framed_trans: "framed S w w' \<Longrightarrow> framed S w' w'' \<Longrightarrow> framed S w w''"
  by (simp add: framed_def)

lemma framed_neat: "framed S w w' \<Longrightarrow> neat w'"
  by (simp add: framed_def)

lemma framed_mono: "framed S w w' \<Longrightarrow> S \<subseteq> T \<Longrightarrow> framed T w w'"
  by (auto simp: framed_def)

lemma framed_same: "framed S w w' \<Longrightarrow> q \<notin> S \<Longrightarrow> q \<notin> temp_paths \<Longrightarrow> w_fs w' q = w_fs w q"
  by (simp add: framed_def)

lemma frame_return [frame_intros]: "frame S (io_return x)" "frame S (io_fail e)" "frame S (io_result r)"
  by (simp_all add: frame_def io_defs framed_refl)

lemma frame_try [frame_intros]: "frame S m \<Longrightarrow> (\<And>r. frame S (f r)) \<Longrightarrow> frame S (io_try m f)"
  unfolding frame_def io_try_def by (auto split: prod.split) (metis framed_neat framed_trans snd_conv)

lemma frame_bind [frame_intros]: "frame S m \<Longrightarrow> (\<And>x. frame S (f x)) \<Longrightarrow> frame S (io_bind m f)"
  unfolding io_bind_try by (intro frame_intros) (auto split: sum.split intro: frame_intros)

lemma frame_map_err [frame_intros]: "frame S m \<Longrightarrow> frame S (io_map_err g m)"
  unfolding io_map_err_try by (intro frame_intros)

lemma neat_outcomes: "neat (w\<lparr>w_outcomes := os\<rparr>) = neat w" "framed S (w\<lparr>w_outcomes := os\<rparr>) w' = framed S w w'"
  by (simp_all add: neat_def framed_def dirty_within_def)

lemma framed_crashed: "framed S w v \<Longrightarrow> framed S w (crashed g v)"
proof -
  assume v: "framed S w v"
  then have "neat (crashed g v)"
    by (simp add: framed_def neat_def tree_crashed) (simp add: crashed_def dirty_within_def)
  with v show ?thesis
    using crashed_within [of temp_paths v _ g] by (auto simp: framed_def neat_def)
qed

lemma frame_fs_call:
  assumes "\<And>w. neat w \<Longrightarrow> framed S w (snd (act w))" "\<And>n ps w. neat w \<Longrightarrow> framed S w (partial n ps w)"
  shows "frame S (fs_call act partial)"
  unfolding frame_def
proof (intro allI impI)
  fix w
  assume w: "neat w"
  have "framed S w (snd (act (w\<lparr>w_outcomes := os\<rparr>)))" "framed S w (partial n ps (w\<lparr>w_outcomes := os\<rparr>))" for os n ps
    using w assms by (metis neat_outcomes)+
  then show "framed S w (snd (fs_call act partial w))"
    using w assms(1) by (auto simp: fs_call_def framed_refl framed_crashed split: list.split outcome.split)
qed

lemma frame_reading [frame_intros]:
  "frame S (symlink_metadata p)" "frame S (read_file p)" "frame S (open_dir p)"
  unfolding symlink_metadata_def read_file_def open_dir_def
  by (intro frame_fs_call; simp add: no_part_def framed_refl split: option.split node.split)+

lemma frame_exists [frame_intros]: "frame S (io_exists p)"
  unfolding io_exists_try by (intro frame_intros)

lemma frame_sync_directory [frame_intros]: "frame S (sync_directory p)"
  unfolding sync_directory_def
  by (intro frame_intros frame_fs_call) (simp_all add: no_part_def framed_refl)

lemma frame_remove_file [frame_intros]:
  assumes "p \<in> S"
  shows "frame S (remove_file p)"
  unfolding frame_def
proof (intro allI impI)
  fix w
  assume w: "neat w"
  have "wtree (snd (remove_file p w))" using keeps_remove_file w by (simp add: keeps_def neat_def)
  moreover have "dirty_within temp_paths (snd (remove_file p w))"
    using w by (auto simp: remove_file_def fs_call_def neat_def dirty_within_def set_dirty_def set_node_def no_part_def crashed_def
        split: list.splits outcome.splits option.splits node.splits if_splits)
  moreover have "step_within (insert p temp_paths) w (snd (remove_file p w))"
    using confined_remove_file [of p "insert p temp_paths"] w by (auto simp: confined_def neat_def dirty_within_def)
  ultimately show "framed S w (snd (remove_file p w))" using assms by (auto simp: framed_def neat_def step_within_def)
qed

lemma framed_remove_trees:
  assumes "neat w" "\<And>p q. p \<in> set ps \<Longrightarrow> under p q \<Longrightarrow> q \<in> S"
  shows "framed S w (remove_trees ps w)"
  using assms tree_remove_trees [of w ps]
  by (auto simp: framed_def neat_def dirty_within_def remove_trees_def list_ex_iff)

lemma frame_remove_dir_all [frame_intros]:
  assumes "\<And>q. under p q \<Longrightarrow> q \<in> S"
  shows "frame S (remove_dir_all p)"
  unfolding remove_dir_all_def
proof (rule frame_fs_call)
  fix w
  assume w: "neat w"
  have "framed S w (set_node p None w)" if "w_fs w p = Some (Symlink target)" for target
    using w that assms tree_set_node [of w p None] by (auto simp: framed_def neat_def set_node_def dirty_within_def is_dir_def)
  then show "framed S w (snd (case w_fs w p of None \<Rightarrow> (Err (missing (w_fs w) p), w)
      | Some (Dir _ _) \<Rightarrow> (Ok (), remove_trees [p] w) | Some (Symlink _) \<Rightarrow> (Ok (), set_node p None w)
      | Some _ \<Rightarrow> (Err OtherError, w)))"
    using w assms framed_remove_trees [OF w, of "[p]" S] by (auto simp: framed_refl split: option.split node.split)
next
  fix n ps w
  assume "neat w"
  then show "framed S w (remove_trees (filter (under p) ps) w)"
    using assms under_trans by (intro framed_remove_trees) auto
qed

lemma frame_atomic_write [frame_intros]:
  assumes "p \<in> S" "p \<notin> temp_paths"
  shows "frame S (atomic_write p bytes)"
  unfolding frame_def
proof (intro allI impI)
  fix w
  assume w: "neat w"
  obtain r w' where run: "atomic_write p bytes w = (r, w')" by fastforce
  then show "framed S w (snd (atomic_write p bytes w))"
    using atomic_write_cases [OF run assms(2)] keepsD [OF keeps_atomic_write run] w assms(1)
    by (auto simp: framed_def neat_def wrote_def)
qed

subsection \<open>Properties\<close>

text \<open>C6. Whatever calls fail and wherever the machine crashes, \<open>atomic_write\<close> leaves the old node or
  the complete new file at its target and changes no other path but temporary ones; when it returns
  \<open>Ok\<close> the file system differs from the old one exactly by the new private file.\<close>

theorem atomic_write_is_atomic:
  assumes "atomic_write p bytes w = (r, w')" "p \<notin> temp_paths" "tree (w_fs w)" "dirty_within temp_paths w"
  shows "(w_fs w' p = w_fs w p \<or> w_fs w' p = Some (File 384 0 bytes))
    \<and> (\<forall>q. q \<notin> temp_paths \<longrightarrow> q \<noteq> p \<longrightarrow> w_fs w' q = w_fs w q)
    \<and> tree (w_fs w') \<and> dirty_within temp_paths w'
    \<and> (is_ok r \<longrightarrow> w_fs w' = (w_fs w)(p \<mapsto> File 384 0 bytes))"
  using atomic_write_cases [OF assms] keepsD [OF keeps_atomic_write assms(1,3)] by (simp add: wrote_def)

text \<open>A small file system and a machine that crashes in the middle of the second call after the
  temporary file was created.\<close>

definition sample_fs :: fs where
  "sample_fs = [[] \<mapsto> Dir 493 0, [''nethop''] \<mapsto> Dir 448 0, [''nethop'', ''state''] \<mapsto> File 384 0 ''old'']"

definition sample_world :: "outcome list \<Rightarrow> world" where
  "sample_world os =
     \<lparr>w_fs = sample_fs, w_dirty = (\<lambda>_. False), w_halted = False, w_outcomes = os, w_umask = 63,
      w_pid = 7, w_sequence = 0\<rparr>"

lemma sample_world_facts:
  "tree (w_fs (sample_world os))" "dirty_within temp_paths (sample_world os)"
  "[''nethop'', ''state''] \<notin> temp_paths"
proof -
  have "p @ [x] = [''nethop''] \<longleftrightarrow> p = [] \<and> x = ''nethop''"
    "p @ [x] = [''nethop'', ''state''] \<longleftrightarrow> p = [''nethop''] \<and> x = ''state''" for p x
    by (cases p rule: rev_cases; auto)+
  then show "tree (w_fs (sample_world os))" by (auto simp: tree_def sample_world_def sample_fs_def is_dir_def)
  show "dirty_within temp_paths (sample_world os)" by (simp add: dirty_within_def sample_world_def)
  show "[''nethop'', ''state''] \<notin> temp_paths"
    by (auto simp: temp_paths_def temp_name_def Cons_eq_append_conv)
qed

theorem atomic_write_is_atomic_witness:
  "let w' = snd (atomic_write [''nethop'', ''state''] ''new''
       (sample_world [Done, Done, Done, Crash 1 [] (\<lambda>_. ''?'')]))
   in w_fs w' [''nethop'', ''state''] \<in> {Some (File 384 0 ''old''), Some (File 384 0 ''new'')}"
proof -
  let ?w = "sample_world [Done, Done, Done, Crash 1 [] (\<lambda>_. ''?'')]"
  obtain r w' where run: "atomic_write [''nethop'', ''state''] ''new'' ?w = (r, w')" by fastforce
  from atomic_write_is_atomic [OF run sample_world_facts(3,1,2)] run show ?thesis
    by (auto simp: sample_world_def sample_fs_def)
qed

end
