(* ===== verification/Journal.thy ===== *)
theory Journal
  imports Atomic_File Machines Json
begin

section \<open>The commit journal of subscription changes\<close>

text \<open>
  \<open>nethopd/src/subscription_transaction.rs\<close>: a change of the subscription sources is recorded in a
  journal before the configuration and the generation are published, and the journal decides at the
  next start whether the change is completed or discarded.

  \<open>serde_json\<close> and \<open>sha2\<close> are arguments: the encoder and the decoder of a journal, and the hash.
  The mutex of \<open>MutationCoordinator\<close> is not modelled: the calls are made one after the other.
\<close>

subsection \<open>Phases and journals\<close>

definition JOURNAL_SCHEMA :: u8 where
  "JOURNAL_SCHEMA = 1"

definition JOURNAL_FILE :: string where
  "JOURNAL_FILE = ''subscription.commit.json''"

definition MAX_JOURNAL_BYTES :: nat where
  "MAX_JOURNAL_BYTES = 4096"

datatype CommitPhase =
  Prepared | Checked | Sealed | Journaled | ConfigPublished | GenerationPublished | Committed

definition phase_rank :: "CommitPhase \<Rightarrow> u8" where
  "phase_rank phase =
     (case phase of Prepared \<Rightarrow> 0 | Checked \<Rightarrow> 1 | Sealed \<Rightarrow> 2 | Journaled \<Rightarrow> 3 | ConfigPublished \<Rightarrow> 4
      | GenerationPublished \<Rightarrow> 5 | Committed \<Rightarrow> 6)"

lemma phase_rank_inject: "phase_rank p = phase_rank q \<longleftrightarrow> p = q"
  by (cases p; cases q) (simp_all add: phase_rank_def)

instantiation CommitPhase :: linorder
begin

definition less_eq_CommitPhase :: "CommitPhase \<Rightarrow> CommitPhase \<Rightarrow> bool" where
  "p \<le> q \<longleftrightarrow> phase_rank p \<le> phase_rank q"

definition less_CommitPhase :: "CommitPhase \<Rightarrow> CommitPhase \<Rightarrow> bool" where
  "p < q \<longleftrightarrow> phase_rank p < phase_rank q"

instance
  by standard (auto simp: less_eq_CommitPhase_def less_CommitPhase_def phase_rank_inject [symmetric])

end

record CommitJournal =
  j_schema :: u8
  j_old_config_digest :: string
  j_new_config_digest :: string
  j_old_generation :: "u64 option"
  j_new_generation :: u64
  j_phase :: CommitPhase
  j_staged_generation :: string
  j_staged_config :: string

datatype TransactionError =
  InvalidRoot | InvalidJournal | PhaseRegression | ReadFailed | JWriteFailed | RecoveryBlocked

datatype RecoveryAction = DiscardStaged | CompleteConfigPublish | ClearJournal

definition is_digest :: "string \<Rightarrow> bool" where
  "is_digest value \<longleftrightarrow> length value = 64 \<and> list_all is_hex_lower value"

definition valid_staged_name :: "string \<Rightarrow> string \<Rightarrow> bool" where
  "valid_staged_name value prefix \<longleftrightarrow>
     starts_with value prefix \<and> length value \<le> 128
     \<and> list_all (\<lambda>byte. is_ascii_alphanumeric byte \<or> byte = CHR ''-'' \<or> byte = CHR ''_'') (drop (length prefix) value)"

definition journal_validate :: "CommitJournal \<Rightarrow> (TransactionError, unit) rresult" where
  "journal_validate j =
     (if j_schema j \<noteq> JOURNAL_SCHEMA
         \<or> \<not> is_digest (j_old_config_digest j)
         \<or> \<not> is_digest (j_new_config_digest j)
         \<or> j_new_generation j = 0
         \<or> j_old_generation j = Some 0
         \<or> \<not> valid_staged_name (j_staged_generation j) ''.candidate-''
         \<or> \<not> valid_staged_name (j_staged_config j) ''.candidate-config-''
      then Err InvalidJournal else Ok ())"

definition commit_journal_new ::
  "string \<Rightarrow> string \<Rightarrow> u64 option \<Rightarrow> u64 \<Rightarrow> string \<Rightarrow> string \<Rightarrow> (TransactionError, CommitJournal) rresult" where
  "commit_journal_new old_digest new_digest old_gen new_gen staged_gen staged_conf =
     (let j = \<lparr>j_schema = JOURNAL_SCHEMA, j_old_config_digest = old_digest, j_new_config_digest = new_digest,
               j_old_generation = old_gen, j_new_generation = new_gen, j_phase = Prepared,
               j_staged_generation = staged_gen, j_staged_config = staged_conf\<rparr>
      in and_then (journal_validate j) (\<lambda>_. Ok j))"

definition advance :: "CommitPhase \<Rightarrow> CommitJournal \<Rightarrow> (TransactionError, CommitJournal) rresult" where
  "advance phase j =
     (if phase_rank phase < phase_rank (j_phase j) then Err PhaseRegression else Ok (j\<lparr>j_phase := phase\<rparr>))"

subsection \<open>The store\<close>

definition private_mode :: "node \<Rightarrow> bool" where
  "private_mode md \<longleftrightarrow> no_group_or_other (md_mode md)"

definition journal_store_new :: "bool \<Rightarrow> path \<Rightarrow> (TransactionError, path) io" where
  "journal_store_new absolute root =
     io_bind (io_map_err (\<lambda>_. InvalidRoot) (symlink_metadata root)) (\<lambda>md.
       if \<not> absolute \<or> \<not> md_is_dir md \<or> md_is_symlink md then io_fail InvalidRoot else io_return root)"

definition journal_path :: "path \<Rightarrow> path" where
  "journal_path root = root @ [JOURNAL_FILE]"

definition journal_load :: "(bytes \<Rightarrow> CommitJournal option) \<Rightarrow> path \<Rightarrow> (TransactionError, CommitJournal option) io" where
  "journal_load from_slice root =
     io_try (symlink_metadata (journal_path root)) (\<lambda>r.
       case r of
         Inl NotFound \<Rightarrow> io_return None
       | Inl _ \<Rightarrow> io_fail ReadFailed
       | Inr md \<Rightarrow>
           if \<not> md_is_file md \<or> md_is_symlink md \<or> md_len md > MAX_JOURNAL_BYTES \<or> \<not> private_mode md
           then io_fail InvalidJournal
           else io_bind (io_map_err (\<lambda>_. ReadFailed) (read_file (journal_path root))) (\<lambda>bytes.
                io_bind (io_result (ok_or InvalidJournal (from_slice bytes))) (\<lambda>j.
                io_bind (io_result (journal_validate j)) (\<lambda>_. io_return (Some j)))))"

definition journal_write :: "(CommitJournal \<Rightarrow> bytes option) \<Rightarrow> path \<Rightarrow> CommitJournal \<Rightarrow> (TransactionError, unit) io" where
  "journal_write to_vec root j =
     io_bind (io_result (journal_validate j)) (\<lambda>_.
     io_bind (io_result (ok_or JWriteFailed (to_vec j))) (\<lambda>bytes.
       if length bytes > MAX_JOURNAL_BYTES then io_fail InvalidJournal
       else io_map_err (\<lambda>_. JWriteFailed) (atomic_write (journal_path root) bytes)))"

definition stage_config :: "(bytes \<Rightarrow> bytes) \<Rightarrow> path \<Rightarrow> CommitJournal \<Rightarrow> bytes \<Rightarrow> (TransactionError, unit) io" where
  "stage_config sha256 root j bytes =
     io_bind (io_result (journal_validate j)) (\<lambda>_.
       if bytes = [] \<or> length bytes > MAX_CONFIG_BYTES \<or> hex (sha256 bytes) \<noteq> j_new_config_digest j
       then io_fail InvalidJournal
       else io_map_err (\<lambda>_. JWriteFailed) (atomic_write (root @ [j_staged_config j]) bytes))"

definition advance_and_write ::
  "(CommitJournal \<Rightarrow> bytes option) \<Rightarrow> path \<Rightarrow> CommitJournal \<Rightarrow> CommitPhase \<Rightarrow> (TransactionError, CommitJournal) io" where
  "advance_and_write to_vec root j phase =
     io_bind (io_result (advance phase j)) (\<lambda>candidate.
     io_bind (journal_write to_vec root candidate) (\<lambda>_. io_return candidate))"

definition journal_clear :: "path \<Rightarrow> (TransactionError, unit) io" where
  "journal_clear root =
     io_try (remove_file (journal_path root)) (\<lambda>r.
       case r of Inr _ \<Rightarrow> io_return () | Inl NotFound \<Rightarrow> io_return () | Inl _ \<Rightarrow> io_fail JWriteFailed)"

definition remove_owned_staged :: "path \<Rightarrow> (TransactionError, unit) io" where
  "remove_owned_staged p =
     io_try (symlink_metadata p) (\<lambda>r.
       case r of
         Inl NotFound \<Rightarrow> io_return ()
       | Inl _ \<Rightarrow> io_fail JWriteFailed
       | Inr md \<Rightarrow>
           if md_is_symlink md then io_fail InvalidJournal
           else if md_is_dir md then io_map_err (\<lambda>_. JWriteFailed) (remove_dir_all p)
           else if md_is_file md then io_map_err (\<lambda>_. JWriteFailed) (remove_file p)
           else io_fail InvalidJournal)"

definition journal_complete ::
  "(CommitJournal \<Rightarrow> bytes option) \<Rightarrow> path \<Rightarrow> CommitJournal \<Rightarrow> (TransactionError, CommitJournal) io" where
  "journal_complete to_vec root j =
     io_bind (advance_and_write to_vec root j Committed) (\<lambda>j.
     io_bind (remove_owned_staged (root @ [j_staged_config j])) (\<lambda>_.
     io_bind (journal_clear root) (\<lambda>_. io_return j)))"

definition journal_abort :: "path \<Rightarrow> CommitJournal \<Rightarrow> (TransactionError, unit) io" where
  "journal_abort root j =
     io_bind (remove_owned_staged (root @ [j_staged_config j])) (\<lambda>_. journal_clear root)"

definition recovery_action ::
  "CommitJournal \<Rightarrow> u64 option \<Rightarrow> string option \<Rightarrow> (TransactionError, RecoveryAction) rresult" where
  "recovery_action j current_generation staged_config_digest =
     and_then (journal_validate j) (\<lambda>_.
       if j_phase j = Committed then Ok ClearJournal
       else if current_generation = Some (j_new_generation j)
               \<or> phase_rank (j_phase j) \<ge> phase_rank GenerationPublished
       then if staged_config_digest = Some (j_new_config_digest j) then Ok CompleteConfigPublish
            else Err RecoveryBlocked
       else Ok DiscardStaged)"

subsection \<open>Recovery\<close>

text \<open>The digest of a file, \<^const>\<open>None\<close> when it cannot be read.\<close>

definition read_digest :: "(bytes \<Rightarrow> bytes) \<Rightarrow> path \<Rightarrow> (TransactionError, string option) io" where
  "read_digest sha256 p =
     io_try (read_file p) (\<lambda>r. io_return (case r of Inl _ \<Rightarrow> None | Inr bytes \<Rightarrow> Some (hex (sha256 bytes))))"

definition choose_action ::
  "CommitJournal \<Rightarrow> u64 option \<Rightarrow> string option \<Rightarrow> string option \<Rightarrow> (TransactionError, RecoveryAction) rresult" where
  "choose_action j current_generation staged_digest canonical_digest =
     (if current_generation = Some (j_new_generation j)
      then if canonical_digest = Some (j_new_config_digest j) then Ok ClearJournal
           else if staged_digest = Some (j_new_config_digest j) then Ok CompleteConfigPublish
           else Err RecoveryBlocked
      else Ok DiscardStaged)"

definition perform_action ::
  "(bytes \<Rightarrow> bytes) \<Rightarrow> (CommitJournal \<Rightarrow> bytes option) \<Rightarrow> path \<Rightarrow> path \<Rightarrow> CommitJournal \<Rightarrow> RecoveryAction
   \<Rightarrow> (TransactionError, unit) io" where
  "perform_action sha256 to_vec root canonical j action =
     (let staged = root @ [j_staged_config j] in
      case action of
        DiscardStaged \<Rightarrow>
          io_bind (remove_owned_staged (root @ [j_staged_generation j])) (\<lambda>_.
          io_bind (remove_owned_staged (root @ [''generations'', show_u64 (j_new_generation j)])) (\<lambda>_.
          io_bind (remove_owned_staged staged) (\<lambda>_. journal_clear root)))
      | CompleteConfigPublish \<Rightarrow>
          io_bind (io_map_err (\<lambda>_. RecoveryBlocked) (read_file staged)) (\<lambda>bytes.
            if hex (sha256 bytes) \<noteq> j_new_config_digest j then io_fail RecoveryBlocked
            else
              io_bind (io_map_err (\<lambda>_. JWriteFailed) (atomic_write canonical bytes)) (\<lambda>_.
              io_bind (io_result (advance Committed j)) (\<lambda>j.
              io_bind (journal_write to_vec root j) (\<lambda>_.
              io_bind (remove_owned_staged staged) (\<lambda>_. journal_clear root)))))
      | ClearJournal \<Rightarrow> io_bind (remove_owned_staged staged) (\<lambda>_. journal_clear root))"

definition recover ::
  "(bytes \<Rightarrow> bytes) \<Rightarrow> (CommitJournal \<Rightarrow> bytes option) \<Rightarrow> (bytes \<Rightarrow> CommitJournal option) \<Rightarrow> path \<Rightarrow> path \<Rightarrow> u64 option
   \<Rightarrow> (TransactionError, RecoveryAction) io" where
  "recover sha256 to_vec from_slice root canonical current_generation =
     io_bind (journal_load from_slice root) (\<lambda>loaded.
       case loaded of
         None \<Rightarrow> io_return ClearJournal
       | Some j \<Rightarrow>
           io_bind (read_digest sha256 (root @ [j_staged_config j])) (\<lambda>staged_digest.
           io_bind (read_digest sha256 canonical) (\<lambda>canonical_digest.
           io_bind (io_result (choose_action j current_generation staged_digest canonical_digest)) (\<lambda>action.
           io_bind (perform_action sha256 to_vec root canonical j action) (\<lambda>_. io_return action)))))"

subsection \<open>Phases only advance\<close>

interpretation phases: step_monotone "\<lambda>j phase j'. advance phase j = Ok j'" j_phase
  by standard (auto simp: advance_def less_eq_CommitPhase_def split: if_splits)

lemma advance_Committed: "advance Committed j = Ok (j\<lparr>j_phase := Committed\<rparr>)"
  by (cases "j_phase j") (simp_all add: advance_def phase_rank_def)

subsection \<open>Names and frames\<close>

lemma journal_path_not_temp: "journal_path root \<notin> temp_paths"
  by (auto simp: journal_path_def JOURNAL_FILE_def temp_paths_def temp_name_def)

lemma valid_staged_name_iff:
  "valid_staged_name (prefix @ rest) prefix \<longleftrightarrow>
     length (prefix @ rest) \<le> 128 \<and> list_all (\<lambda>c. is_ascii_alphanumeric c \<or> c = CHR ''-'' \<or> c = CHR ''_'') rest"
  by (simp add: valid_staged_name_def)

lemma staged_config_name:
  assumes "journal_validate j = Ok ()"
  obtains rest where "j_staged_config j = ''.candidate-config-'' @ rest"
  using assms by (auto simp: journal_validate_def valid_staged_name_def starts_with_iff split: if_splits)

lemma staged_config_paths:
  assumes "journal_validate j = Ok ()"
  shows "root @ [j_staged_config j] \<notin> temp_paths" "\<not> under (root @ [j_staged_config j]) (journal_path root)"
  by (rule staged_config_name [OF assms];
      auto simp: temp_paths_def temp_name_def under_iff journal_path_def JOURNAL_FILE_def)+

lemma frame_remove_owned_staged [frame_intros]:
  "(\<And>q. under p q \<Longrightarrow> q \<in> S) \<Longrightarrow> frame S (remove_owned_staged p)"
  unfolding remove_owned_staged_def
  by (auto intro!: frame_intros simp: under_iff split: sum.split io_error.split)

lemma frame_journal_clear [frame_intros]: "journal_path root \<in> S \<Longrightarrow> frame S (journal_clear root)"
  unfolding journal_clear_def by (auto intro!: frame_intros split: sum.split io_error.split)

lemma frame_journal_load [frame_intros]: "frame S (journal_load from_slice root)"
  unfolding journal_load_def by (auto intro!: frame_intros split: sum.split io_error.split)

lemma frame_read_digest [frame_intros]: "frame S (read_digest sha256 p)"
  unfolding read_digest_def by (intro frame_intros)

lemma frame_journal_write [frame_intros]: "journal_path root \<in> S \<Longrightarrow> frame S (journal_write to_vec root j)"
  unfolding journal_write_def by (auto intro!: frame_intros journal_path_not_temp)

subsection \<open>Effects\<close>

lemma remove_owned_staged_Ok:
  assumes "remove_owned_staged p w = (Inr u, w')"
  shows "w_fs w' p = None"
proof -
  obtain r v where md: "symlink_metadata p w = (r, v)" by fastforce
  show ?thesis
  proof (cases r)
    case (Inl e)
    then have "e = NotFound" "w' = v"
      using assms md by (auto simp: remove_owned_staged_def io_try_def io_fail_def io_return_def split: io_error.splits)
    then show ?thesis using symlink_metadata_NotFound md Inl by metis
  next
    case (Inr node)
    then have "remove_dir_all p v = (Inr u, w') \<or> remove_file p v = (Inr u, w')"
      using assms md
      by (auto simp: remove_owned_staged_def io_try_def io_fail_def io_map_err_Inr split: if_splits)
    then show ?thesis
      by (auto simp: remove_dir_all_def remove_trees_def set_node_def dest!: remove_file_Ok
          elim!: fs_call_Ok split: option.splits node.splits)
  qed
qed

lemma journal_clear_cases:
  assumes run: "journal_clear root w = (r, w')" and w: "neat w"
  shows "framed {journal_path root} w w'
    \<and> (if is_ok r then w_fs w' (journal_path root) = None else w_fs w' (journal_path root) = w_fs w (journal_path root))"
proof -
  let ?p = "journal_path root"
  obtain q v where rm: "remove_file ?p w = (q, v)" by fastforce
  have fr: "framed {?p} w w'" using frameD [OF frame_journal_clear run w] by simp
  show ?thesis
  proof (cases q)
    case (Inl e)
    have "w_fs v ?p = w_fs w ?p"
      using remove_file_Err [OF rm [unfolded Inl], of temp_paths] w journal_path_not_temp [of root]
      by (simp add: neat_def)
    moreover have "w_fs w ?p = None" if "e = NotFound" using remove_file_NotFound rm Inl that by blast
    ultimately show ?thesis
      using run rm Inl fr by (auto simp: journal_clear_def io_try_def io_return_def io_fail_def split: io_error.splits)
  next
    case (Inr u)
    then show ?thesis
      using run rm fr remove_file_Ok [of ?p w u v] by (auto simp: journal_clear_def io_try_def io_return_def)
  qed
qed

text \<open>The node at a path as a digest; the calls that read it follow links, so the paths must be plain.\<close>

definition digest_at :: "(bytes \<Rightarrow> bytes) \<Rightarrow> fs \<Rightarrow> path \<Rightarrow> string option" where
  "digest_at sha256 fs p = (case fs p of Some (File _ _ bytes) \<Rightarrow> Some (hex (sha256 bytes)) | _ \<Rightarrow> None)"

definition plain :: "fs \<Rightarrow> path \<Rightarrow> bool" where
  "plain fs p = (case fs p of Some (Symlink _) \<Rightarrow> False | _ \<Rightarrow> True)"

lemma resolve_plain: "plain fs p \<Longrightarrow> resolve MAXSYMLINKS fs p = Some p"
proof -
  assume "plain fs p"
  then have "resolve (Suc n) fs p = Some p" for n by (simp add: plain_def split: option.splits node.splits)
  from this [of 39] show ?thesis by (simp add: MAXSYMLINKS_def)
qed

lemma read_file_plain:
  "read_file p w = (Inr bytes, w') \<Longrightarrow> plain (w_fs w) p \<Longrightarrow> digest_at sha256 (w_fs w) p = Some (hex (sha256 bytes))"
  using read_file_Ok resolve_plain by (fastforce simp: digest_at_def)

lemma read_digest_plain:
  assumes "read_digest sha256 p w = (Inr (Some d), w')" "plain (w_fs w) p"
  shows "digest_at sha256 (w_fs w) p = Some d"
  using assms read_file_plain [OF _ assms(2)]
  by (auto simp: read_digest_def io_try_def io_return_def split: prod.splits sum.splits)

subsection \<open>States from which recovery can go on\<close>

definition same_commit :: "CommitJournal \<Rightarrow> CommitJournal \<Rightarrow> bool" where
  "same_commit j j' \<longleftrightarrow> (\<exists>phase. j' = j\<lparr>j_phase := phase\<rparr>)"

definition journal_at :: "(bytes \<Rightarrow> CommitJournal option) \<Rightarrow> path \<Rightarrow> fs \<Rightarrow> CommitJournal \<Rightarrow> bool" where
  "journal_at from_slice root fs j \<longleftrightarrow>
     (\<exists>m u bytes. fs (journal_path root) = Some (File m u bytes) \<and> from_slice bytes = Some j)"

definition config_ready :: "(bytes \<Rightarrow> bytes) \<Rightarrow> path \<Rightarrow> path \<Rightarrow> CommitJournal \<Rightarrow> fs \<Rightarrow> bool" where
  "config_ready sha256 root canonical j fs \<longleftrightarrow>
     digest_at sha256 fs canonical = Some (j_new_config_digest j)
     \<or> digest_at sha256 fs (root @ [j_staged_config j]) = Some (j_new_config_digest j)"

definition resumable ::
  "(bytes \<Rightarrow> bytes) \<Rightarrow> (bytes \<Rightarrow> CommitJournal option) \<Rightarrow> path \<Rightarrow> path \<Rightarrow> CommitJournal \<Rightarrow> fs \<Rightarrow> bool" where
  "resumable sha256 from_slice root canonical j fs \<longleftrightarrow>
     (\<exists>j'. same_commit j j' \<and> journal_at from_slice root fs j' \<and> config_ready sha256 root canonical j fs)
     \<or> fs (journal_path root) = None \<and> digest_at sha256 fs canonical = Some (j_new_config_digest j)"

definition completed ::
  "(bytes \<Rightarrow> bytes) \<Rightarrow> path \<Rightarrow> path \<Rightarrow> CommitJournal \<Rightarrow> fs \<Rightarrow> bool" where
  "completed sha256 root canonical j fs \<longleftrightarrow>
     fs (journal_path root) = None \<and> fs (root @ [j_staged_config j]) = None
     \<and> digest_at sha256 fs canonical = Some (j_new_config_digest j)"

text \<open>Where the canonical configuration may lie.\<close>

definition apart :: "path \<Rightarrow> path \<Rightarrow> CommitJournal \<Rightarrow> bool" where
  "apart root canonical j \<longleftrightarrow>
     canonical \<notin> temp_paths \<and> canonical \<noteq> journal_path root \<and> \<not> under (root @ [j_staged_config j]) canonical"

lemma same_commit_refl [simp]: "same_commit j j"
  unfolding same_commit_def by (metis CommitJournal.surjective CommitJournal.update_convs(6))

lemma same_commit_phase: "same_commit j j' \<Longrightarrow> same_commit j (j'\<lparr>j_phase := phase\<rparr>)"
  by (auto simp: same_commit_def)

lemma same_commit_fields:
  "same_commit j j' \<Longrightarrow> j_new_config_digest j' = j_new_config_digest j \<and> j_staged_config j' = j_staged_config j
     \<and> j_new_generation j' = j_new_generation j \<and> journal_validate j' = journal_validate j"
  by (auto simp: same_commit_def journal_validate_def)

text \<open>The last two steps: remove the staged configuration, then the journal.\<close>

lemma finish_recovery:
  assumes run: "io_bind (remove_owned_staged (root @ [j_staged_config j])) (\<lambda>_. journal_clear root) w = (r, w')"
    and w: "neat w" "same_commit j0 j" "journal_at from_slice root (w_fs w) j"
    and j: "journal_validate j = Ok ()" "apart root canonical j"
    and ready: "digest_at sha256 (w_fs w) canonical = Some (j_new_config_digest j)"
  shows "resumable sha256 from_slice root canonical j0 (w_fs w')
    \<and> (is_ok r \<longrightarrow> completed sha256 root canonical j0 (w_fs w'))"
proof -
  let ?staged = "root @ [j_staged_config j]" and ?jp = "journal_path root"
  note paths = staged_config_paths [OF j(1), of root]
  have new: "j_new_config_digest j0 = j_new_config_digest j" "j_staged_config j0 = j_staged_config j"
    using same_commit_fields [OF w(2)] by simp_all
  obtain q v where rm: "remove_owned_staged ?staged w = (q, v)" by fastforce
  have fr: "framed {p. under ?staged p} w v" using frameD [OF frame_remove_owned_staged rm w(1)] by simp
  have v: "w_fs v ?jp = w_fs w ?jp" "w_fs v canonical = w_fs w canonical"
    using framed_same [OF fr] paths j(2) journal_path_not_temp by (simp_all add: apart_def)
  have v_facts: "digest_at sha256 (w_fs v) canonical = digest_at sha256 (w_fs w) canonical"
      "journal_at from_slice root (w_fs v) j = journal_at from_slice root (w_fs w) j"
    using v by (simp_all add: digest_at_def journal_at_def)
  show ?thesis
  proof (cases q)
    case (Inl e)
    then have "w' = v" "is_err r" using run rm by (auto simp: io_bind_def)
    then show ?thesis
      using w(2,3) ready v_facts by (auto simp: resumable_def config_ready_def new is_err_not_ok)
  next
    case (Inr u)
    then have clear: "journal_clear root v = (r, w')" using run rm by (simp add: io_bind_def)
    note cl = journal_clear_cases [OF clear framed_neat [OF fr]]
    have "?staged \<noteq> ?jp" using paths(2) under_refl by metis
    then have "w_fs w' canonical = w_fs v canonical" "w_fs w' ?staged = w_fs v ?staged"
      using cl framed_same [of "{?jp}" v w'] j(2) paths by (auto simp: apart_def)
    moreover have "w_fs v ?staged = None" using remove_owned_staged_Ok rm Inr by blast
    ultimately show ?thesis
      using cl w(2,3) ready v
      by (cases "is_ok r") (auto simp: resumable_def completed_def config_ready_def digest_at_def journal_at_def new)
  qed
qed

text \<open>Publishing the staged configuration, whatever fails on the way.\<close>

lemma journal_write_cases:
  assumes run: "journal_write to_vec root j w = (r, w')" and w: "neat w"
    and codec: "\<And>bytes. to_vec j = Some bytes \<Longrightarrow> from_slice bytes = Some j"
    and old: "journal_at from_slice root (w_fs w) j0"
  shows "framed {journal_path root} w w'
    \<and> (journal_at from_slice root (w_fs w') j0 \<or> journal_at from_slice root (w_fs w') j)
    \<and> (is_ok r \<longrightarrow> journal_at from_slice root (w_fs w') j)"
proof -
  let ?jp = "journal_path root"
  have fr: "framed {?jp} w w'" using frameD [OF frame_journal_write run w] by simp
  consider "is_err r" "w' = w"
    | bytes r0 where "to_vec j = Some bytes" "atomic_write ?jp bytes w = (r0, w')" "r = map_err (\<lambda>_. JWriteFailed) r0"
  proof (cases "journal_validate j")
    case (Inr u)
    with run that show thesis
      by (auto simp: journal_write_def io_bind_def io_result_def io_fail_def io_map_err_def is_err_iff
          ok_or_def split: option.splits if_splits prod.splits)
  next
    case (Inl e)
    then have "r = Err e" "w' = w" using run by (simp_all add: journal_write_def io_bind_def io_result_def)
    then show thesis using that(1) by simp
  qed
  then show ?thesis
  proof cases
    case 1
    then show ?thesis using fr old by (simp add: is_err_not_ok)
  next
    case (2 bytes r0)
    have "w_fs w' ?jp = w_fs w ?jp \<or> w_fs w' ?jp = Some (File 384 0 bytes)"
      "is_ok r0 \<longrightarrow> w_fs w' ?jp = Some (File 384 0 bytes)"
      using atomic_write_cases [OF 2(2) journal_path_not_temp] w by (auto simp: neat_def wrote_def)
    then show ?thesis
      using fr old 2(1,3) codec [of bytes] by (cases r0) (auto simp: journal_at_def)
  qed
qed

lemma commit_and_finish:
  assumes run: "io_bind (journal_write to_vec root (j\<lparr>j_phase := Committed\<rparr>)) (\<lambda>_.
        io_bind (remove_owned_staged (root @ [j_staged_config j])) (\<lambda>_. journal_clear root)) w = (r, w')"
    and w: "neat w" "same_commit j0 j" "journal_at from_slice root (w_fs w) j"
      "digest_at sha256 (w_fs w) canonical = Some (j_new_config_digest j)"
    and j: "journal_validate j = Ok ()" "apart root canonical j"
    and codec: "\<And>j bytes. to_vec j = Some bytes \<Longrightarrow> from_slice bytes = Some j"
  shows "resumable sha256 from_slice root canonical j0 (w_fs w')
    \<and> (is_ok r \<longrightarrow> completed sha256 root canonical j0 (w_fs w'))"
proof -
  let ?j = "j\<lparr>j_phase := Committed\<rparr>"
  obtain q v where jw: "journal_write to_vec root ?j w = (q, v)" by fastforce
  note written = journal_write_cases [OF jw w(1) codec w(3), simplified]
  have commit: "same_commit j0 ?j" using w(2) by (rule same_commit_phase)
  have new: "j_new_config_digest j0 = j_new_config_digest j" using same_commit_fields [OF w(2)] by simp
  have "w_fs v canonical = w_fs w canonical"
    using framed_same [of "{journal_path root}" w v] written j(2) by (simp add: apart_def)
  then have canon: "digest_at sha256 (w_fs v) canonical = Some (j_new_config_digest j)" using w(4) by (simp add: digest_at_def)
  show ?thesis
  proof (cases q)
    case (Inl e)
    then have "w' = v" "is_err r" using run jw by (auto simp: io_bind_def)
    then show ?thesis
      using written commit w(2) canon by (auto simp: resumable_def config_ready_def new is_err_not_ok)
  next
    case (Inr u)
    show ?thesis
    proof (rule finish_recovery [OF _ _ commit])
      show "io_bind (remove_owned_staged (root @ [j_staged_config ?j])) (\<lambda>_. journal_clear root) v = (r, w')"
        using run jw Inr by (simp add: io_bind_def)
      show "journal_validate ?j = Ok ()" using j(1) by (simp add: journal_validate_def)
    qed (use written Inr canon j(2) framed_neat in \<open>auto simp: apart_def\<close>)
  qed
qed

lemma publish_staged:
  assumes run: "perform_action sha256 to_vec root canonical j CompleteConfigPublish w = (r, w')"
    and w: "neat w" "same_commit j0 j" "journal_at from_slice root (w_fs w) j"
      "digest_at sha256 (w_fs w) (root @ [j_staged_config j]) = Some (j_new_config_digest j)"
    and j: "journal_validate j = Ok ()" "apart root canonical j"
    and codec: "\<And>j bytes. to_vec j = Some bytes \<Longrightarrow> from_slice bytes = Some j"
  shows "resumable sha256 from_slice root canonical j0 (w_fs w')
    \<and> (is_ok r \<longrightarrow> completed sha256 root canonical j0 (w_fs w'))"
proof -
  let ?staged = "root @ [j_staged_config j]" and ?jp = "journal_path root" and ?new = "j_new_config_digest j"
  note paths = staged_config_paths [OF j(1), of root]
  have new: "j_new_config_digest j0 = ?new" "j_staged_config j0 = j_staged_config j"
    using same_commit_fields [OF w(2)] by simp_all
  have staged_apart: "?staged \<noteq> canonical" "?staged \<noteq> ?jp" using paths(2) j(2) under_refl by (metis apart_def)+
  have keep: "resumable sha256 from_slice root canonical j0 (w_fs v)"
    if "w_fs v ?jp = w_fs w ?jp" "w_fs v ?staged = w_fs w ?staged" for v :: world
    using that w(2-4) by (auto simp: resumable_def config_ready_def digest_at_def journal_at_def new)
  obtain q v where rd: "read_file ?staged w = (q, v)" by fastforce
  have fr: "framed {} w v" using frameD [OF frame_reading(2) rd w(1)] .
  have v: "w_fs v ?jp = w_fs w ?jp" "w_fs v ?staged = w_fs w ?staged" "w_fs v canonical = w_fs w canonical"
    using framed_same [OF fr] paths journal_path_not_temp j(2) by (simp_all add: apart_def)
  show ?thesis
  proof (cases "\<exists>bytes. q = Inr bytes \<and> hex (sha256 bytes) = ?new")
    case False
    then have "is_err r \<and> w' = v"
      using run rd by (cases q) (auto simp: perform_action_def Let_def io_bind_def io_map_err_def io_fail_def)
    then show ?thesis using keep [OF v(1,2)] by (simp add: is_err_not_ok)
  next
    case True
    then obtain bytes where b: "q = Inr bytes" "hex (sha256 bytes) = ?new" by blast
    obtain q1 v1 where aw: "atomic_write canonical bytes v = (q1, v1)" by fastforce
    have c: "canonical \<notin> temp_paths" using j(2) by (simp add: apart_def)
    have fr1: "framed {canonical} v v1" using frameD [OF frame_atomic_write aw framed_neat [OF fr]] c by simp
    have v1: "w_fs v1 ?jp = w_fs w ?jp" "w_fs v1 ?staged = w_fs w ?staged"
      using framed_same [OF fr1] paths journal_path_not_temp [of root] j(2) v staged_apart by (auto simp: apart_def)
    show ?thesis
    proof (cases q1)
      case (Inl e)
      then have "is_err r \<and> w' = v1"
        using run rd b aw by (auto simp: perform_action_def Let_def io_bind_def io_map_err_def)
      then show ?thesis using keep [OF v1] by (simp add: is_err_not_ok)
    next
      case (Inr u)
      have canon: "digest_at sha256 (w_fs v1) canonical = Some ?new"
        using atomic_write_cases [OF aw c] framed_neat [OF fr] Inr b(2) by (simp add: neat_def digest_at_def)
      have rest: "io_bind (journal_write to_vec root (j\<lparr>j_phase := Committed\<rparr>)) (\<lambda>_.
          io_bind (remove_owned_staged ?staged) (\<lambda>_. journal_clear root)) v1 = (r, w')"
        using run rd b aw Inr
        by (simp add: perform_action_def Let_def io_bind_def io_map_err_def io_result_def advance_Committed)
      have "journal_at from_slice root (w_fs v1) j" using w(3) v1(1) by (simp add: journal_at_def)
      from rest framed_neat [OF fr1] w(2) this canon j codec show ?thesis by (rule commit_and_finish)
    qed
  qed
qed

lemma journal_load_Some:
  assumes "journal_load from_slice root w = (Inr (Some j), w')"
  shows "journal_at from_slice root (w_fs w) j \<and> journal_validate j = Ok () \<and> w_fs w' = w_fs w"
proof -
  obtain q v where md: "symlink_metadata (journal_path root) w = (q, v)" by fastforce
  obtain node where q: "q = Inr node"
    using assms md by (cases q) (auto simp: journal_load_def io_try_def io_return_def io_fail_def split: io_error.splits)
  then have md_facts: "w_fs w (journal_path root) = Some node" "w_fs v = w_fs w" "same_machine w v"
    using symlink_metadata_Ok md by blast+
  obtain bytes v1 where rd: "md_is_file node" "read_file (journal_path root) v = (Inr bytes, v1)"
      "from_slice bytes = Some j" "journal_validate j = Ok ()" "w' = v1"
    using assms md q
    by (auto simp: journal_load_def io_try_def io_cases io_result_def io_return_def io_fail_def ok_or_def
        split: if_splits option.splits)
  have "plain (w_fs v) (journal_path root)" using md_facts rd(1) by (simp add: plain_def md_is_file_def split: node.splits)
  then have "\<exists>m u. w_fs w (journal_path root) = Some (File m u bytes)" "w_fs v1 = w_fs v"
    using read_file_Ok [OF rd(2)] resolve_plain md_facts(2) by force+
  then show ?thesis using rd md_facts by (auto simp: journal_at_def)
qed

lemma journal_load_None:
  "journal_load from_slice root w = (Inr None, w') \<Longrightarrow> w_fs w (journal_path root) = None \<and> w_fs w' = w_fs w"
  by (auto simp: journal_load_def io_try_def io_cases io_return_def io_fail_def io_result_def ok_or_def
      dest: symlink_metadata_NotFound split: prod.splits sum.splits io_error.splits if_splits option.splits)

subsection \<open>Operations that only remove\<close>

definition node_world :: "(node option \<Rightarrow> bool) \<Rightarrow> path \<Rightarrow> world \<Rightarrow> bool" where
  "node_world Q p w \<longleftrightarrow> neat w \<and> Q (w_fs w p)"

abbreviation plain_world :: "path \<Rightarrow> world \<Rightarrow> bool" where
  "plain_world \<equiv> node_world not_link"

lemma plain_world_iff: "plain_world p w \<longleftrightarrow> neat w \<and> plain (w_fs w) p"
  by (simp add: node_world_def plain_def not_link_def)

lemma keeps_node_frame:
  assumes "frame S m" "p \<notin> S" "p \<notin> temp_paths"
  shows "keeps (node_world Q p) m"
  using assms by (auto simp: keeps_def node_world_def frame_def framed_def)

lemma keeps_node_remove_file:
  assumes "p \<notin> temp_paths" "Q None"
  shows "keeps (node_world Q p) (remove_file q)"
  unfolding keeps_def
proof (intro allI impI)
  fix w
  assume w: "node_world Q p w"
  obtain r w' where rm: "remove_file q w = (r, w')" by fastforce
  have "neat w'" using frameD [OF frame_remove_file rm, of UNIV] w by (simp add: node_world_def framed_def)
  moreover have "Q (w_fs w' p)"
    using w assms rm remove_file_Err [of q w _ w' temp_paths] remove_file_Ok [of q w _ w']
    by (cases r) (auto simp: node_world_def neat_def)
  ultimately show "node_world Q p (snd (remove_file q w))" by (simp add: rm node_world_def)
qed

lemma keeps_node_remove_dir_all:
  assumes "p \<notin> temp_paths" "Q None"
  shows "keeps (node_world Q p) (remove_dir_all q)"
proof -
  have crash: "node_world Q p (crashed g w)" if "node_world Q p w" for g w
    using that framed_crashed [OF framed_refl, of w UNIV g] crashed_within [of temp_paths w p g] assms(1)
    by (simp add: node_world_def framed_def neat_def)
  have trees: "node_world Q p (remove_trees ps w)" if "node_world Q p w" for ps w
    using that framed_remove_trees [of w ps UNIV] assms(2) by (simp add: node_world_def framed_def remove_trees_def)
  have link: "node_world Q p (set_node q None w)" if "node_world Q p w" "w_fs w q = Some (Symlink t)" for w t
    using that tree_set_node [of w q None] assms(2)
    by (auto simp: node_world_def neat_def set_node_def dirty_within_def is_dir_def)
  have out: "node_world Q p (w\<lparr>w_outcomes := os\<rparr>) = node_world Q p w" for w os
    by (simp add: node_world_def neat_outcomes)
  show ?thesis
    by (auto simp: keeps_def remove_dir_all_def fs_call_def out trees crash link
        split: list.split outcome.split option.split node.split)
qed

lemma keeps_node_remove:
  assumes "p \<notin> temp_paths" "Q None"
  shows "keeps (node_world Q p) (remove_owned_staged q)"
  using keeps_node_remove_file [of p Q q] keeps_node_remove_dir_all [of p Q q]
    keeps_node_frame [OF frame_reading(1) _ assms(1), of "{}" Q q] assms
  unfolding remove_owned_staged_def by (auto intro!: keeps_intros split: sum.split io_error.split)

lemma keeps_node_clear:
  assumes "p \<notin> temp_paths" "Q None"
  shows "keeps (node_world Q p) (journal_clear root)"
  using keeps_node_remove_file [of p Q "journal_path root"] assms
  unfolding journal_clear_def by (auto intro!: keeps_intros split: sum.split io_error.split)

lemma keeps_plain_atomic_write:
  assumes "p \<notin> temp_paths" "q \<notin> temp_paths"
  shows "keeps (plain_world p) (atomic_write q bytes)"
  unfolding keeps_def
proof (intro allI impI)
  fix w
  assume w: "plain_world p w"
  obtain r w' where run: "atomic_write q bytes w = (r, w')" by fastforce
  have "neat w'" using frameD [OF frame_atomic_write run, of UNIV] w assms(2) by (simp add: node_world_def framed_def)
  moreover have "w_fs w' p = w_fs w p \<or> w_fs w' p = Some (File 384 0 bytes)"
    using atomic_write_cases [OF run assms(2)] w assms(1) by (cases "p = q") (auto simp: node_world_def neat_def wrote_def)
  ultimately show "plain_world p (snd (atomic_write q bytes w))" using w by (auto simp: run node_world_def)
qed

lemma keeps_plain_recover:
  assumes "p \<notin> temp_paths" "canonical \<notin> temp_paths"
  shows "keeps (plain_world p) (recover sha256 to_vec from_slice root canonical gen)"
proof -
  note read = keeps_node_frame [OF frame_reading(2) _ assms(1), of "{}", simplified]
    keeps_node_frame [OF frame_journal_load _ assms(1), of "{}", simplified]
    keeps_node_frame [OF frame_read_digest _ assms(1), of "{}", simplified]
  have "keeps (plain_world p) (journal_write to_vec root j)" for j
    unfolding journal_write_def
    by (auto intro!: keeps_intros keeps_plain_atomic_write assms journal_path_not_temp)
  then show ?thesis
    unfolding recover_def perform_action_def Let_def
    using read keeps_node_remove [OF assms(1)] keeps_node_clear [OF assms(1)] keeps_plain_atomic_write [OF assms]
    by (auto intro!: keeps_intros split: option.split RecoveryAction.split)
qed

subsection \<open>Recovery, interrupted and tried again\<close>

lemma read_digest_Ok: "\<exists>d. read_digest sha256 p w = (Inr d, snd (read_digest sha256 p w))"
  by (auto simp: read_digest_def io_try_def io_return_def split: prod.split)

lemma recover_loaded:
  assumes run: "io_bind (read_digest sha256 (root @ [j_staged_config j])) (\<lambda>sd.
        io_bind (read_digest sha256 canonical) (\<lambda>cd.
        io_bind (io_result (choose_action j (Some (j_new_generation j)) sd cd)) (\<lambda>action.
        io_bind (perform_action sha256 to_vec root canonical j action) (\<lambda>_. io_return action)))) w = (r, w')"
    and w: "neat w" "same_commit j0 j" "journal_at from_slice root (w_fs w) j" "config_ready sha256 root canonical j (w_fs w)"
      "plain (w_fs w) canonical" "plain (w_fs w) (root @ [j_staged_config j])"
    and j: "journal_validate j = Ok ()" "apart root canonical j"
    and codec: "\<And>j bytes. to_vec j = Some bytes \<Longrightarrow> from_slice bytes = Some j"
  shows "resumable sha256 from_slice root canonical j0 (w_fs w')
    \<and> (is_ok r \<longrightarrow> completed sha256 root canonical j0 (w_fs w'))"
proof -
  let ?staged = "root @ [j_staged_config j]" and ?new = "j_new_config_digest j"
  obtain sd v where sd: "read_digest sha256 ?staged w = (Inr sd, v)" using read_digest_Ok by blast
  obtain cd u where cd: "read_digest sha256 canonical v = (Inr cd, u)" using read_digest_Ok by blast
  have wv: "framed {} w v" using frameD [OF frame_read_digest sd w(1)] .
  have wu: "framed {} w u" using framed_trans [OF wv frameD [OF frame_read_digest cd framed_neat [OF wv]]] .
  have same: "w_fs v p = w_fs w p" "w_fs u p = w_fs w p" if "p \<in> {canonical, ?staged, journal_path root}" for p
    using that framed_same [OF wv, of p] framed_same [OF wu, of p] staged_config_paths(1) [OF j(1), of root]
      journal_path_not_temp [of root] j(2) by (auto simp: apart_def)
  have u: "neat u" "journal_at from_slice root (w_fs u) j" "config_ready sha256 root canonical j (w_fs u)"
    using framed_neat [OF wu] w(3,4) same by (simp_all add: journal_at_def config_ready_def digest_at_def)
  have staged: "digest_at sha256 (w_fs u) ?staged = Some ?new" if "sd = Some ?new"
    using read_digest_plain [OF sd [unfolded that] w(6)] same by (simp add: digest_at_def)
  have "plain (w_fs v) canonical" using w(5) same by (simp add: plain_def)
  then have canon: "digest_at sha256 (w_fs u) canonical = Some ?new" if "cd = Some ?new"
    using read_digest_plain [OF cd [unfolded that]] same by (simp add: digest_at_def)
  let ?rest = "\<lambda>action. io_bind (perform_action sha256 to_vec root canonical j action) (\<lambda>_. io_return action) u"
  consider "cd = Some ?new" "?rest ClearJournal = (r, w')"
    | "sd = Some ?new" "?rest CompleteConfigPublish = (r, w')" | "is_err r" "w' = u"
    using run sd cd
    by (auto simp: io_bind_def [of "read_digest _ _"] io_bind_result choose_action_def split: if_splits)
  then show ?thesis
  proof cases
    case 1
    obtain r0 where "io_bind (remove_owned_staged ?staged) (\<lambda>_. journal_clear root) u = (r0, w')" "is_ok r = is_ok r0"
      using 1(2) by (auto simp: perform_action_def Let_def io_bind_def [of "io_bind _ _"] io_return_def
          split: prod.splits sum.splits)
    then show ?thesis using finish_recovery [OF _ u(1) w(2) u(2) j canon [OF 1(1)]] by simp
  next
    case 2
    obtain r0 where r0: "perform_action sha256 to_vec root canonical j CompleteConfigPublish u = (r0, w')" "is_ok r = is_ok r0"
      using 2(2) by (auto simp: io_bind_def io_return_def split: prod.splits sum.splits)
    from r0(1) u(1) w(2) u(2) staged [OF 2(1)] j codec
    have "resumable sha256 from_slice root canonical j0 (w_fs w')
        \<and> (is_ok r0 \<longrightarrow> completed sha256 root canonical j0 (w_fs w'))" by (rule publish_staged)
    then show ?thesis using r0(2) by simp
  next
    case 3
    then show ?thesis using u w(2) same_commit_fields [OF w(2)]
      by (auto simp: resumable_def config_ready_def is_err_not_ok)
  qed
qed

lemma recover_step:
  assumes run: "recover sha256 to_vec from_slice root canonical (Some (j_new_generation j0)) w = (r, w')"
    and w: "neat w" "resumable sha256 from_slice root canonical j0 (w_fs w)"
      "plain (w_fs w) canonical" "plain (w_fs w) (root @ [j_staged_config j0])"
    and j0: "journal_validate j0 = Ok ()" "apart root canonical j0"
    and codec: "\<And>j bytes. to_vec j = Some bytes \<Longrightarrow> from_slice bytes = Some j"
  shows "resumable sha256 from_slice root canonical j0 (w_fs w')
    \<and> (is_ok r \<longrightarrow> w_fs w' (journal_path root) = None
         \<and> digest_at sha256 (w_fs w') canonical = Some (j_new_config_digest j0))"
proof -
  let ?staged = "root @ [j_staged_config j0]" and ?jp = "journal_path root" and ?new = "j_new_config_digest j0"
  note paths = staged_config_paths(1) [OF j0(1), of root] journal_path_not_temp [of root]
  have c: "canonical \<notin> temp_paths" using j0(2) by (simp add: apart_def)
  have keep: "resumable sha256 from_slice root canonical j0 (w_fs v)" if "framed {} w v" for v
    using w(2) framed_same [OF that] paths c by (simp add: resumable_def config_ready_def digest_at_def journal_at_def)
  obtain q v where load: "journal_load from_slice root w = (q, v)" by fastforce
  have fr: "framed {} w v" using frameD [OF frame_journal_load load w(1)] .
  consider e where "q = Inl e" | "q = Inr None" | j where "q = Inr (Some j)" by (metis sum.exhaust option.exhaust)
  then show ?thesis
  proof cases
    case 1
    then show ?thesis using run load keep [OF fr] by (auto simp: recover_def io_bind_def)
  next
    case 2
    then show ?thesis
      using run load w(2) journal_load_None [of from_slice root w v]
      by (auto simp: recover_def io_bind_def io_return_def resumable_def journal_at_def)
  next
    case (3 j)
    note loaded = journal_load_Some [OF load [unfolded 3]]
    then have commit: "same_commit j0 j" and ready: "config_ready sha256 root canonical j0 (w_fs w)"
      using w(2) by (auto simp: resumable_def journal_at_def)
    note fields = same_commit_fields [OF commit]
    have nodes: "w_fs v = w_fs w" using loaded by simp
    have "resumable sha256 from_slice root canonical j0 (w_fs w')
        \<and> (is_ok r \<longrightarrow> completed sha256 root canonical j0 (w_fs w'))"
    proof (rule recover_loaded [OF _ framed_neat [OF fr] commit])
      show "io_bind (read_digest sha256 (root @ [j_staged_config j])) (\<lambda>sd.
          io_bind (read_digest sha256 canonical) (\<lambda>cd.
          io_bind (io_result (choose_action j (Some (j_new_generation j)) sd cd)) (\<lambda>action.
          io_bind (perform_action sha256 to_vec root canonical j action) (\<lambda>_. io_return action)))) v = (r, w')"
        using run load 3 fields by (simp add: recover_def io_bind_def [of "journal_load _ _"])
    qed (use loaded ready fields w(3,4) j0 nodes codec in \<open>simp_all add: config_ready_def apart_def\<close>)
    then show ?thesis by (simp add: completed_def)
  qed
qed

text \<open>Recovery tried again and again, each time with its own failures and its own crash.\<close>

fun retry ::
  "(bytes \<Rightarrow> bytes) \<Rightarrow> (CommitJournal \<Rightarrow> bytes option) \<Rightarrow> (bytes \<Rightarrow> CommitJournal option) \<Rightarrow> path \<Rightarrow> path \<Rightarrow> u64 option
   \<Rightarrow> outcome list list \<Rightarrow> world \<Rightarrow> world" where
  "retry sha256 to_vec from_slice root canonical gen [] w = w"
| "retry sha256 to_vec from_slice root canonical gen (os # oss) w =
     retry sha256 to_vec from_slice root canonical gen oss
       (snd (recover sha256 to_vec from_slice root canonical gen (restart os w)))"

definition retry_inv ::
  "(bytes \<Rightarrow> bytes) \<Rightarrow> (bytes \<Rightarrow> CommitJournal option) \<Rightarrow> path \<Rightarrow> path \<Rightarrow> CommitJournal \<Rightarrow> world \<Rightarrow> bool" where
  "retry_inv sha256 from_slice root canonical j w \<longleftrightarrow>
     tree (w_fs w) \<and> resumable sha256 from_slice root canonical j (w_fs w)
     \<and> plain (w_fs w) canonical \<and> plain (w_fs w) (root @ [j_staged_config j])"

lemma restart_facts: "neat (restart os w) = tree (w_fs w)" "w_fs (restart os w) = w_fs w"
  by (simp_all add: neat_def restart_def dirty_within_def)

lemma retry_step:
  assumes inv: "retry_inv sha256 from_slice root canonical j w"
    and j: "journal_validate j = Ok ()" "apart root canonical j"
    and codec: "\<And>j bytes. to_vec j = Some bytes \<Longrightarrow> from_slice bytes = Some j"
    and run: "recover sha256 to_vec from_slice root canonical (Some (j_new_generation j)) (restart os w) = (r, w')"
  shows "retry_inv sha256 from_slice root canonical j w'
    \<and> (is_ok r \<longrightarrow> w_fs w' (journal_path root) = None
         \<and> digest_at sha256 (w_fs w') canonical = Some (j_new_config_digest j))"
proof -
  let ?staged = "root @ [j_staged_config j]"
  have w: "neat (restart os w)" "resumable sha256 from_slice root canonical j (w_fs (restart os w))"
      "plain (w_fs (restart os w)) canonical" "plain (w_fs (restart os w)) ?staged"
    using inv by (simp_all add: retry_inv_def restart_facts)
  have c: "canonical \<notin> temp_paths" "?staged \<notin> temp_paths"
    using j(2) staged_config_paths [OF j(1)] by (simp_all add: apart_def)
  have "plain_world canonical w'" "plain_world ?staged w'"
    using keepsD [OF keeps_plain_recover [OF c(1) c(1)] run] keepsD [OF keeps_plain_recover [OF c(2) c(1)] run] w
    by (simp_all add: plain_world_iff)
  moreover from run w j codec
  have "resumable sha256 from_slice root canonical j (w_fs w')
    \<and> (is_ok r \<longrightarrow> w_fs w' (journal_path root) = None
         \<and> digest_at sha256 (w_fs w') canonical = Some (j_new_config_digest j))"
    by (rule recover_step)
  ultimately show ?thesis by (simp add: retry_inv_def plain_world_iff neat_def)
qed

lemma retry_inv_retry:
  assumes "journal_validate j = Ok ()" "apart root canonical j"
    and "\<And>j bytes. to_vec j = Some bytes \<Longrightarrow> from_slice bytes = Some j"
  shows "retry_inv sha256 from_slice root canonical j w \<Longrightarrow>
    retry_inv sha256 from_slice root canonical j
      (retry sha256 to_vec from_slice root canonical (Some (j_new_generation j)) oss w)"
proof (induction oss arbitrary: w)
  case (Cons os oss)
  obtain r w' where run: "recover sha256 to_vec from_slice root canonical (Some (j_new_generation j)) (restart os w) = (r, w')"
    by fastforce
  from retry_step [OF Cons.prems assms run] Cons.IH [of w'] run show ?case by simp
qed simp

subsection \<open>Discarding\<close>

definition discarded_paths :: "path \<Rightarrow> CommitJournal \<Rightarrow> path list" where
  "discarded_paths root j =
     [root @ [j_staged_generation j], root @ [''generations'', show_u64 (j_new_generation j)], root @ [j_staged_config j]]"

lemma no_dots_not_temp: "root @ [''generations'', show_u64 n] \<notin> temp_paths"
proof
  assume "root @ [''generations'', show_u64 n] \<in> temp_paths"
  then have "CHR ''.'' \<in> set (show_nat (unat n))"
    by (auto simp: temp_paths_def temp_name_def show_u64_def butlast_append dest: arg_cong [where f = last])
  then show False using show_nat_digit by (fastforce simp: is_ascii_digit_def)
qed

lemma staged_generation_not_temp: "journal_validate j = Ok () \<Longrightarrow> root @ [j_staged_generation j] \<notin> temp_paths"
  by (auto simp: journal_validate_def valid_staged_name_def starts_with_iff temp_paths_def temp_name_def split: if_splits)

lemma discard_effect:
  assumes run: "perform_action sha256 to_vec root canonical j DiscardStaged w = (r, w')" and w: "neat w"
    and j: "journal_validate j = Ok ()"
  shows "framed ({journal_path root} \<union> {q. \<exists>p\<in>set (discarded_paths root j). under p q}) w w'
    \<and> (is_ok r \<longrightarrow> w_fs w' (journal_path root) = None \<and> (\<forall>p\<in>set (discarded_paths root j). w_fs w' p = None))"
proof -
  obtain a b c where paths: "discarded_paths root j = [a, b, c]" by (simp add: discarded_paths_def)
  have temps: "a \<notin> temp_paths" "b \<notin> temp_paths" "c \<notin> temp_paths"
    using paths staged_generation_not_temp [OF j, of root] no_dots_not_temp [of root] staged_config_paths(1) [OF j, of root]
    by (auto simp: discarded_paths_def)
  let ?m = "io_bind (remove_owned_staged a) (\<lambda>_. io_bind (remove_owned_staged b) (\<lambda>_.
      io_bind (remove_owned_staged c) (\<lambda>_. journal_clear root)))"
  have m: "?m w = (r, w')" using run paths by (simp add: perform_action_def Let_def discarded_paths_def)
  have "frame ({journal_path root} \<union> {q. \<exists>p\<in>set [a, b, c]. under p q}) ?m" by (intro frame_intros) auto
  from frameD [OF this m w] have "framed ({journal_path root} \<union> {q. \<exists>p\<in>set [a, b, c]. under p q}) w w'" .
  moreover have "w_fs w' (journal_path root) = None \<and> (\<forall>p\<in>{a, b, c}. w_fs w' p = None)" if "is_ok r"
  proof -
    obtain u where "r = Inr u" using \<open>is_ok r\<close> by (auto simp: is_ok_iff)
    with m obtain u1 v1 u2 v2 u3 v3 where s: "remove_owned_staged a w = (Inr u1, v1)" "remove_owned_staged b v1 = (Inr u2, v2)"
        "remove_owned_staged c v2 = (Inr u3, v3)" "journal_clear root v3 = (Inr u, w')"
      by (auto simp: io_bind_Inr)
    have rm: "framed UNIV w v1" "framed UNIV v1 v2" "framed UNIV v2 v3"
      using frameD [OF frame_remove_owned_staged s(1) w, of UNIV] frameD [OF frame_remove_owned_staged s(2), of UNIV]
        frameD [OF frame_remove_owned_staged s(3), of UNIV] by (auto simp: framed_def)
    note keep = keepsD [OF keeps_node_remove [where Q = "\<lambda>n. n = None"]] keepsD [OF keeps_node_clear [where Q = "\<lambda>n. n = None"]]
    have "w_fs v1 a = None" "w_fs v2 b = None" "w_fs v3 c = None" using s remove_owned_staged_Ok by blast+
    then have "w_fs v3 a = None" "w_fs v3 b = None" "w_fs v3 c = None"
      using keep(1) [OF temps(1) _ s(2)] keep(1) [OF temps(1) _ s(3)] keep(1) [OF temps(2) _ s(3)] rm
      by (auto simp: node_world_def framed_def)
    then show ?thesis
      using keep(2) [OF _ _ s(4)] temps rm(3) journal_clear_cases [OF s(4)] by (auto simp: node_world_def framed_def)
  qed
  ultimately show ?thesis unfolding paths by auto
qed

subsection \<open>Properties\<close>

text \<open>C5. Recovery after the new generation was published can be interrupted by failures and crashes
  any number of times: the journal is never lost before the canonical configuration is the new one, the
  new configuration stays available, and the first attempt that returns \<open>Ok\<close> leaves the new
  configuration published and the journal removed.\<close>

theorem recovery_survives_crashes:
  assumes "\<And>j bytes. to_vec j = Some bytes \<Longrightarrow> from_slice bytes = Some j"
    and "journal_validate j = Ok ()" "apart root canonical j"
    and "retry_inv sha256 from_slice root canonical j w0"
    and "w = retry sha256 to_vec from_slice root canonical (Some (j_new_generation j)) oss w0"
    and "recover sha256 to_vec from_slice root canonical (Some (j_new_generation j)) (restart os w) = (r, w')"
  shows "resumable sha256 from_slice root canonical j (w_fs w')
    \<and> (is_ok r \<longrightarrow> w_fs w' (journal_path root) = None
         \<and> digest_at sha256 (w_fs w') canonical = Some (j_new_config_digest j))"
proof -
  from assms(2,3,1,4) have "retry_inv sha256 from_slice root canonical j w" unfolding assms(5) by (rule retry_inv_retry)
  from this assms(2,3,1,6) have "retry_inv sha256 from_slice root canonical j w'
    \<and> (is_ok r \<longrightarrow> w_fs w' (journal_path root) = None
         \<and> digest_at sha256 (w_fs w') canonical = Some (j_new_config_digest j))" by (rule retry_step)
  then show ?thesis by (simp add: retry_inv_def)
qed

text \<open>A journal of one change, a hash and a codec for it, and the disk after the generation was
  published and before the configuration was.\<close>

definition sample_hash :: "bytes \<Rightarrow> bytes" where
  "sample_hash bytes = replicate 32 (hd (bytes @ ''0''))"

definition sample_journal :: CommitJournal where
  "sample_journal =
     \<lparr>j_schema = 1, j_old_config_digest = hex (sample_hash ''o''), j_new_config_digest = hex (sample_hash ''n''),
      j_old_generation = Some 1, j_new_generation = 2, j_phase = Journaled,
      j_staged_generation = ''.candidate-2-transaction'', j_staged_config = ''.candidate-config-2''\<rparr>"

definition sample_to_vec :: "CommitJournal \<Rightarrow> bytes option" where
  "sample_to_vec j = (if j = sample_journal\<lparr>j_phase := Committed\<rparr> then Some ''C'' else None)"

definition sample_from_slice :: "bytes \<Rightarrow> CommitJournal option" where
  "sample_from_slice bytes =
     (if bytes = ''C'' then Some (sample_journal\<lparr>j_phase := Committed\<rparr>)
      else if bytes = ''J'' then Some sample_journal else None)"

definition sample_disk :: fs where
  "sample_disk =
     [[] \<mapsto> Dir 493 0, [''nethop''] \<mapsto> Dir 448 0, [''nethop'', ''nethop.toml''] \<mapsto> File 384 0 ''old'',
      [''nethop'', ''.candidate-config-2''] \<mapsto> File 384 0 ''new'',
      [''nethop'', ''subscription.commit.json''] \<mapsto> File 384 0 ''J'']"

definition journal_world :: world where
  "journal_world = (sample_world [])\<lparr>w_fs := sample_disk\<rparr>"

lemma sample_journal_valid: "journal_validate sample_journal = Ok ()"
proof -
  have "is_digest (hex (sample_hash bytes))" for bytes
    using hex_lower [of "sample_hash bytes"] by (simp add: is_digest_def sample_hash_def)
  moreover have "valid_staged_name ''.candidate-2-transaction'' ''.candidate-''"
    "valid_staged_name ''.candidate-config-2'' ''.candidate-config-''"
    by (simp_all add: valid_staged_name_def starts_with_def is_ascii_alphanumeric_def is_ascii_digit_def
        is_ascii_lowercase_def is_ascii_uppercase_def)
  ultimately show ?thesis by (simp add: journal_validate_def sample_journal_def JOURNAL_SCHEMA_def)
qed

lemma sample_codec: "sample_to_vec j = Some bytes \<Longrightarrow> sample_from_slice bytes = Some j"
  by (auto simp: sample_to_vec_def sample_from_slice_def split: if_splits)

lemma sample_apart: "apart [''nethop''] [''nethop'', ''nethop.toml''] sample_journal"
  by (auto simp: apart_def journal_path_def JOURNAL_FILE_def sample_journal_def under_def temp_paths_def temp_name_def
      Cons_eq_append_conv)

lemma sample_tree: "tree sample_disk"
proof -
  have "p @ [x] = [''nethop''] \<longleftrightarrow> p = [] \<and> x = ''nethop''"
    "p @ [x] = [''nethop'', y] \<longleftrightarrow> p = [''nethop''] \<and> x = y" for p x y
    by (cases p rule: rev_cases; auto)+
  then show ?thesis by (auto simp: tree_def sample_disk_def is_dir_def)
qed

lemma sample_retry_inv:
  "retry_inv sample_hash sample_from_slice [''nethop''] [''nethop'', ''nethop.toml''] sample_journal journal_world"
proof -
  have "journal_at sample_from_slice [''nethop''] sample_disk sample_journal"
    by (simp add: journal_at_def sample_disk_def journal_path_def JOURNAL_FILE_def sample_from_slice_def)
  moreover have "config_ready sample_hash [''nethop''] [''nethop'', ''nethop.toml''] sample_journal sample_disk"
    by (simp add: config_ready_def digest_at_def sample_disk_def sample_journal_def sample_hash_def)
  moreover have "plain sample_disk [''nethop'', ''nethop.toml'']" "plain sample_disk [''nethop'', ''.candidate-config-2'']"
    by (simp_all add: plain_def sample_disk_def)
  moreover have "j_staged_config sample_journal = ''.candidate-config-2''" by (simp add: sample_journal_def)
  ultimately show ?thesis
    using sample_tree same_commit_refl [of sample_journal]
    by (auto simp: retry_inv_def journal_world_def resumable_def)
qed

definition sample_crash :: "outcome list list" where
  "sample_crash = [Done, Done, Crash 0 [] (\<lambda>_. [])] # []"

theorem recovery_survives_crashes_witness:
  "let w = retry sample_hash sample_to_vec sample_from_slice [''nethop''] [''nethop'', ''nethop.toml'']
         (Some (j_new_generation sample_journal)) sample_crash journal_world;
       (r, w') = recover sample_hash sample_to_vec sample_from_slice [''nethop''] [''nethop'', ''nethop.toml'']
         (Some (j_new_generation sample_journal)) (restart [] w)
   in resumable sample_hash sample_from_slice [''nethop''] [''nethop'', ''nethop.toml''] sample_journal (w_fs w')"
proof -
  let ?w = "retry sample_hash sample_to_vec sample_from_slice [''nethop''] [''nethop'', ''nethop.toml'']
         (Some (j_new_generation sample_journal)) sample_crash journal_world"
  obtain r w' where run: "recover sample_hash sample_to_vec sample_from_slice [''nethop''] [''nethop'', ''nethop.toml'']
         (Some (j_new_generation sample_journal)) (restart [] ?w) = (r, w')" by fastforce
  from sample_codec sample_journal_valid sample_apart sample_retry_inv refl run
  have "resumable sample_hash sample_from_slice [''nethop''] [''nethop'', ''nethop.toml''] sample_journal (w_fs w')
    \<and> (is_ok r \<longrightarrow> w_fs w' (journal_path [''nethop'']) = None
       \<and> digest_at sample_hash (w_fs w') [''nethop'', ''nethop.toml''] = Some (j_new_config_digest sample_journal))"
    by (rule recovery_survives_crashes)
  then show ?thesis unfolding Let_def run by (simp only: prod.case)
qed

text \<open>C38. When the new generation is not the current one, recovery discards the change: it touches
  nothing but the journal and what was staged for it (so the configuration stays as it is, also when
  the new one was already written), and when it returns \<open>Ok\<close> all of that is gone.\<close>

theorem unpublished_change_is_discarded:
  assumes "journal_at from_slice root (w_fs w) j" "gen \<noteq> Some (j_new_generation j)" "neat w"
    and "recover sha256 to_vec from_slice root canonical gen w = (r, w')"
  shows "(\<forall>q. q \<notin> temp_paths \<longrightarrow> q \<noteq> journal_path root \<longrightarrow> (\<forall>p\<in>set (discarded_paths root j). \<not> under p q) \<longrightarrow> w_fs w' q = w_fs w q)
    \<and> (is_ok r \<longrightarrow> r = Ok DiscardStaged \<and> w_fs w' (journal_path root) = None
         \<and> (\<forall>p\<in>set (discarded_paths root j). w_fs w' p = None))"
proof -
  obtain q v where load: "journal_load from_slice root w = (q, v)" by fastforce
  have wv: "framed {} w v" using frameD [OF frame_journal_load load assms(3)] .
  show ?thesis
  proof (cases "\<exists>j. q = Inr (Some j)")
    case False
    moreover have "q \<noteq> Inr None" using load journal_load_None assms(1) by (fastforce simp: journal_at_def)
    ultimately have "is_err r \<and> w' = v"
      using assms(4) load by (cases q) (auto simp: recover_def io_bind_def split: option.splits)
    then show ?thesis using framed_same [OF wv] by (simp add: is_err_not_ok)
  next
    case True
    then have q: "q = Inr (Some j)" and valid: "journal_validate j = Ok ()"
      using load journal_load_Some assms(1) by (fastforce simp: journal_at_def)+
    obtain sd v1 where sd: "read_digest sha256 (root @ [j_staged_config j]) v = (Inr sd, v1)" using read_digest_Ok by blast
    obtain cd v2 where cd: "read_digest sha256 canonical v1 = (Inr cd, v2)" using read_digest_Ok by blast
    have v1: "framed {} v v1" using frameD [OF frame_read_digest sd framed_neat [OF wv]] .
    have v2: "framed {} w v2"
      using framed_trans [OF framed_trans [OF wv v1] frameD [OF frame_read_digest cd framed_neat [OF v1]]] .
    obtain r0 where run: "perform_action sha256 to_vec root canonical j DiscardStaged v2 = (r0, w')"
        "r = (case r0 of Inl e \<Rightarrow> Inl e | Inr _ \<Rightarrow> Ok DiscardStaged)"
      using assms(4) load q sd cd assms(2)
      by (auto simp: recover_def io_bind_def io_result_def choose_action_def io_return_def split: prod.splits sum.splits)
    from discard_effect [OF run(1) framed_neat [OF v2] valid] framed_same [OF v2] show ?thesis
      by (cases r0) (auto simp: run(2) framed_def)
  qed
qed

theorem unpublished_change_is_discarded_witness:
  "let (r, w') = recover sample_hash sample_to_vec sample_from_slice [''nethop''] [''nethop'', ''nethop.toml''] (Some 1) journal_world
   in w_fs w' [''nethop'', ''nethop.toml''] = Some (File 384 0 ''old'')"
proof -
  obtain r w' where run: "recover sample_hash sample_to_vec sample_from_slice [''nethop''] [''nethop'', ''nethop.toml'']
      (Some 1) journal_world = (r, w')" by fastforce
  have w: "journal_at sample_from_slice [''nethop''] (w_fs journal_world) sample_journal" "neat journal_world"
      "Some 1 \<noteq> Some (j_new_generation sample_journal)"
    using sample_tree
    by (simp_all add: journal_world_def journal_at_def sample_disk_def journal_path_def JOURNAL_FILE_def
        sample_from_slice_def neat_def dirty_within_def sample_world_def sample_journal_def)
  have "[''nethop'', ''nethop.toml''] \<notin> temp_paths" "[''nethop'', ''nethop.toml''] \<noteq> journal_path [''nethop'']"
      "\<forall>p\<in>set (discarded_paths [''nethop''] sample_journal). \<not> under p [''nethop'', ''nethop.toml'']"
    using sample_apart
    by (auto simp: apart_def discarded_paths_def sample_journal_def under_def)
  with unpublished_change_is_discarded [OF w(1,3,2) run]
  have "w_fs w' [''nethop'', ''nethop.toml''] = w_fs journal_world [''nethop'', ''nethop.toml'']" by blast
  then show ?thesis unfolding Let_def run by (simp add: journal_world_def sample_disk_def)
qed

text \<open>The stand-alone decision and the recovery disagree on a journal that records the published
  generation while another generation is current.\<close>

lemma recovery_action_disagrees:
  assumes "journal_validate j = Ok ()" "j_phase j = GenerationPublished" "gen \<noteq> Some (j_new_generation j)"
  shows "recovery_action j gen (Some (j_new_config_digest j)) = Ok CompleteConfigPublish
    \<and> choose_action j gen (Some (j_new_config_digest j)) cd = Ok DiscardStaged"
  using assms by (simp add: recovery_action_def choose_action_def)

end
