(* ===== verification/Generation.thy ===== *)
theory Generation
  imports Composer Capture Slices Fs
begin

section \<open>Generations: nodes, manifests and candidates\<close>

text \<open>
  The data of \<open>nethop-core/src/generation.rs\<close> and the errors of \<open>diagnostics.rs\<close>: the records of the
  nodes of a generation, the registry that indexes them, the manifest and the candidate built from a
  composed configuration. The serialisation of the registry is an argument. A message that is the
  text of an I/O error is that error.
\<close>

subsection \<open>Errors\<close>

datatype failure_message = Text string | IoText io_error

datatype CoreError =
    CoreComposer ComposerError
  | CoreCapture CapturePolicyError
  | InvalidGenerationId
  | ValidationFailed
  | GenerationPublishFailed string failure_message
  | SerializationFailure string
  | InvalidCurrentPointer

datatype CoreDiagnosticCode =
    DC_InvalidStateTransition | DC_InvalidGenerationId | DC_GenerationPublishFailed | DC_ValidationFailed
  | DC_ComposerRejected | DC_CaptureRejected | DC_IoFailure | DC_SerializationFailure

definition diagnostic_as_str :: "CoreDiagnosticCode \<Rightarrow> string" where
  "diagnostic_as_str code =
     (case code of
        DC_InvalidStateTransition \<Rightarrow> ''invalid_state_transition''
      | DC_InvalidGenerationId \<Rightarrow> ''invalid_generation_id''
      | DC_GenerationPublishFailed \<Rightarrow> ''generation_publish_failed''
      | DC_ValidationFailed \<Rightarrow> ''validation_failed''
      | DC_ComposerRejected \<Rightarrow> ''composer_rejected''
      | DC_CaptureRejected \<Rightarrow> ''capture_rejected''
      | DC_IoFailure \<Rightarrow> ''io_failure''
      | DC_SerializationFailure \<Rightarrow> ''serialization_failure'')"

definition core_error_code :: "CoreError \<Rightarrow> CoreDiagnosticCode" where
  "core_error_code e =
     (case e of
        CoreComposer _ \<Rightarrow> DC_ComposerRejected
      | CoreCapture _ \<Rightarrow> DC_CaptureRejected
      | InvalidGenerationId \<Rightarrow> DC_InvalidGenerationId
      | ValidationFailed \<Rightarrow> DC_ValidationFailed
      | GenerationPublishFailed _ _ \<Rightarrow> DC_GenerationPublishFailed
      | SerializationFailure _ \<Rightarrow> DC_SerializationFailure
      | InvalidCurrentPointer \<Rightarrow> DC_GenerationPublishFailed)"

definition publish_error :: "string \<Rightarrow> string \<Rightarrow> CoreError" where
  "publish_error operation message = GenerationPublishFailed operation (Text message)"

definition io_error :: "string \<Rightarrow> io_error \<Rightarrow> CoreError" where
  "io_error operation e = GenerationPublishFailed operation (IoText e)"

subsection \<open>Node records\<close>

definition MANIFEST_SCHEMA :: string where
  "MANIFEST_SCHEMA = ''nethop-generation-v1''"

definition NODE_REGISTRY_SCHEMA :: string where
  "NODE_REGISTRY_SCHEMA = ''nethop-generation-nodes-v3''"

definition MAX_GENERATION_NODES :: nat where
  "MAX_GENERATION_NODES = 2000"

definition MAX_NODE_NAME_BYTES :: nat where
  "MAX_NODE_NAME_BYTES = 128"

definition MAX_TAG_BYTES :: nat where
  "MAX_TAG_BYTES = 128"

definition MAX_PROTOCOL_BYTES :: nat where
  "MAX_PROTOCOL_BYTES = 32"

definition MAX_SOURCE_IDS :: nat where
  "MAX_SOURCE_IDS = 16"

type_synonym GenerationId = u64

definition generation_id_new :: "u64 \<Rightarrow> (CoreError, GenerationId) rresult" where
  "generation_id_new value = (if value \<noteq> 0 then Ok value else Err InvalidGenerationId)"

record GenerationNodeRecord =
  gr_stable_node_id :: string
  gr_internal_tag :: string
  gr_display_name :: string
  gr_protocol :: string
  gr_source_ids :: "string list"
  gr_auto_candidate :: bool
  gr_display_territory_code :: "string option"

definition valid_source_id :: "string \<Rightarrow> bool" where
  "valid_source_id value \<longleftrightarrow>
     starts_with value ''src_'' \<and> length value = 36 \<and> list_all is_hex_lower (drop 4 value)"

definition valid_stable_node_id :: "string \<Rightarrow> bool" where
  "valid_stable_node_id value \<longleftrightarrow>
     length value = 21 \<and> starts_with value ''nh1s-'' \<and> list_all is_hex_lower (drop 5 value)"

definition generation_node_record_new ::
  "string \<Rightarrow> string \<Rightarrow> string \<Rightarrow> string \<Rightarrow> string list \<Rightarrow> bool \<Rightarrow> (CoreError, GenerationNodeRecord) rresult" where
  "generation_node_record_new node_id tag display protocol sources candidate =
     (let valid_tag = tag \<noteq> [] \<and> length tag \<le> MAX_TAG_BYTES \<and> \<not> has_control tag;
          valid_name = display \<noteq> [] \<and> length display \<le> MAX_NODE_NAME_BYTES \<and> \<not> has_control display;
          valid_protocol = protocol \<noteq> [] \<and> length protocol \<le> MAX_PROTOCOL_BYTES
            \<and> list_all (\<lambda>byte. is_ascii_lowercase byte \<or> is_ascii_digit byte) protocol;
          valid_sources = sources \<noteq> [] \<and> length sources \<le> MAX_SOURCE_IDS
            \<and> length (remdups sources) = length sources \<and> list_all valid_source_id sources
      in if \<not> valid_stable_node_id node_id \<or> \<not> valid_tag \<or> \<not> valid_name \<or> \<not> valid_protocol \<or> \<not> valid_sources
         then Err (publish_error ''node_registry'' ''generation node record is invalid'')
         else Ok \<lparr>gr_stable_node_id = node_id, gr_internal_tag = tag, gr_display_name = display,
                  gr_protocol = protocol, gr_source_ids = sources, gr_auto_candidate = candidate,
                  gr_display_territory_code = None\<rparr>)"

definition with_display_territory_code :: "GenerationNodeRecord \<Rightarrow> string option \<Rightarrow> GenerationNodeRecord" where
  "with_display_territory_code r code = r\<lparr>gr_display_territory_code := code\<rparr>"

subsection \<open>The registry\<close>

record GenerationNodeRegistry =
  nr_schema :: string
  nr_auto_pool :: "string list"
  nr_records :: "GenerationNodeRecord list"

definition pool_matches :: "GenerationNodeRecord list \<Rightarrow> string list \<Rightarrow> bool" where
  "pool_matches records pool \<longleftrightarrow>
     \<not> list_ex (\<lambda>node_id. case binary_search_by_key gr_stable_node_id records node_id of
                   Inl _ \<Rightarrow> True | Inr index \<Rightarrow> \<not> gr_auto_candidate (records ! index)) pool
     \<and> \<not> list_ex (\<lambda>r. gr_auto_candidate r \<noteq> list_ex (\<lambda>node_id. node_id = gr_stable_node_id r) pool) records"

definition registry_with_auto_pool ::
  "GenerationNodeRecord list \<Rightarrow> string list \<Rightarrow> (CoreError, GenerationNodeRegistry) rresult" where
  "registry_with_auto_pool unsorted pool =
     (if unsorted = [] \<or> length unsorted > MAX_GENERATION_NODES
      then Err (publish_error ''node_registry'' ''generation node registry size is invalid'')
      else let records = sort_key gr_stable_node_id unsorted in
           if length (remdups (map gr_stable_node_id records)) \<noteq> length records
              \<or> length (remdups (map gr_internal_tag records)) \<noteq> length records
           then Err (publish_error ''node_registry'' ''generation node registry contains duplicate mappings'')
           else if pool = [] \<or> length pool > 64 \<or> length (remdups pool) \<noteq> length pool
                   \<or> \<not> pool_matches records pool
           then Err (publish_error ''node_registry'' ''generation auto pool is invalid'')
           else Ok \<lparr>nr_schema = NODE_REGISTRY_SCHEMA, nr_auto_pool = pool, nr_records = records\<rparr>)"

definition registry_new :: "GenerationNodeRecord list \<Rightarrow> (CoreError, GenerationNodeRegistry) rresult" where
  "registry_new records =
     registry_with_auto_pool records (map gr_stable_node_id (filter gr_auto_candidate records))"

definition by_stable_id :: "GenerationNodeRegistry \<Rightarrow> string \<Rightarrow> GenerationNodeRecord option" where
  "by_stable_id registry node_id = search_items gr_stable_node_id (nr_records registry) node_id"

definition by_internal_tag :: "GenerationNodeRegistry \<Rightarrow> string \<Rightarrow> GenerationNodeRecord option" where
  "by_internal_tag registry tag = find (\<lambda>r. gr_internal_tag r = tag) (nr_records registry)"

subsection \<open>Manifests and candidates\<close>

record GenerationManifest =
  gm_schema :: string
  gm_generation :: GenerationId
  gm_config_sha256 :: string
  gm_node_count :: nat
  gm_node_registry_sha256 :: "string option"
  gm_source_config_digest :: "string option"
  gm_source_ids :: "string list"

record Candidate =
  cd_generation :: GenerationId
  cd_config :: ManagedConfig
  cd_manifest :: GenerationManifest
  cd_node_registry :: "GenerationNodeRegistry option"

definition candidate_new :: "GenerationId \<Rightarrow> ManagedConfig \<Rightarrow> Candidate" where
  "candidate_new gen config =
     \<lparr>cd_generation = gen, cd_config = config,
      cd_manifest = \<lparr>gm_schema = MANIFEST_SCHEMA, gm_generation = gen, gm_config_sha256 = cfg_digest config,
        gm_node_count = cfg_node_count config, gm_node_registry_sha256 = None, gm_source_config_digest = None,
        gm_source_ids = []\<rparr>,
      cd_node_registry = None\<rparr>"

definition sha256_hex :: "(bytes \<Rightarrow> bytes) \<Rightarrow> bytes \<Rightarrow> string" where
  "sha256_hex sha256 bytes = hex (sha256 bytes)"

text \<open>The bytes of a registry: \<open>serde_json::to_vec\<close>, whose error carries a text.\<close>

definition with_node_registry ::
  "(bytes \<Rightarrow> bytes) \<Rightarrow> (GenerationNodeRegistry \<Rightarrow> (string, bytes) rresult) \<Rightarrow> Candidate \<Rightarrow> GenerationNodeRegistry
   \<Rightarrow> (CoreError, Candidate) rresult" where
  "with_node_registry sha256 registry_bytes c registry =
     (if length (nr_records registry) \<noteq> cfg_node_count (cd_config c)
      then Err (publish_error ''node_registry'' ''generation node registry does not match terminal node count'')
      else and_then (map_err SerializationFailure (registry_bytes registry)) (\<lambda>bytes.
        Ok (c\<lparr>cd_manifest := (cd_manifest c)\<lparr>gm_node_registry_sha256 := Some (sha256_hex sha256 bytes)\<rparr>,
              cd_node_registry := Some registry\<rparr>)))"

definition bind_sources :: "Candidate \<Rightarrow> string \<Rightarrow> string list \<Rightarrow> (CoreError, Candidate) rresult" where
  "bind_sources c digest sources =
     (let valid_digest = length digest = 64 \<and> list_all is_hex_lower digest;
          valid_ids = sources \<noteq> [] \<and> length sources \<le> 16 \<and> list_all valid_source_id sources
      in if \<not> valid_digest \<or> \<not> valid_ids
         then Err (publish_error ''bind_sources'' ''source generation binding is invalid'')
         else Ok (c\<lparr>cd_manifest := (cd_manifest c)\<lparr>gm_source_config_digest := Some digest, gm_source_ids := sources\<rparr>\<rparr>))"

subsection \<open>The registry is an index\<close>

definition registry_wf :: "GenerationNodeRegistry \<Rightarrow> bool" where
  "registry_wf r \<longleftrightarrow>
     nr_schema r = NODE_REGISTRY_SCHEMA
     \<and> 1 \<le> length (nr_records r) \<and> length (nr_records r) \<le> MAX_GENERATION_NODES
     \<and> sorted (map gr_stable_node_id (nr_records r)) \<and> distinct (map gr_stable_node_id (nr_records r))
     \<and> distinct (map gr_internal_tag (nr_records r))
     \<and> 1 \<le> length (nr_auto_pool r) \<and> length (nr_auto_pool r) \<le> 64 \<and> distinct (nr_auto_pool r)
     \<and> set (nr_auto_pool r) = gr_stable_node_id ` {x \<in> set (nr_records r). gr_auto_candidate x}"

interpretation registry_index: key_index nr_records gr_stable_node_id registry_wf
  by standard (simp_all add: registry_wf_def)

lemma length_remdups_distinct: "length (remdups xs) = length xs \<longleftrightarrow> distinct xs"
  by (metis card_distinct distinct_card length_remdups_card_conv)

lemma length_remdups_map: "length (remdups (map f xs)) = length xs \<longleftrightarrow> distinct (map f xs)"
  using length_remdups_distinct [of "map f xs"] by simp

lemma pool_matches_iff:
  assumes "sorted (map gr_stable_node_id records)" "distinct (map gr_stable_node_id records)"
  shows "pool_matches records pool \<longleftrightarrow> set pool = gr_stable_node_id ` {x \<in> set records. gr_auto_candidate x}"
    (is "_ \<longleftrightarrow> set pool = ?auto")
proof -
  have found: "(case binary_search_by_key gr_stable_node_id records node_id of
      Inl _ \<Rightarrow> True | Inr index \<Rightarrow> \<not> gr_auto_candidate (records ! index)) \<longleftrightarrow> node_id \<notin> ?auto" for node_id
  proof (cases "binary_search_by_key gr_stable_node_id records node_id")
    case (Inl i)
    with binary_search_by_key_Err [OF assms(1) Inl] show ?thesis by auto
  next
    case (Inr i)
    with binary_search_by_key_Ok [OF Inr] assms(2) show ?thesis
      by (auto simp: distinct_map dest: inj_onD [of gr_stable_node_id "set records" "records ! i"])
  qed
  have auto_iff: "gr_stable_node_id r \<in> ?auto \<longleftrightarrow> gr_auto_candidate r" if "r \<in> set records" for r
    using that assms(2) by (auto simp: distinct_map dest: inj_onD)
  show ?thesis
    unfolding pool_matches_def found using auto_iff by (auto simp: list_ex_iff)
qed

lemma sort_key_Nil_iff: "sort_key f xs = [] \<longleftrightarrow> xs = []"
  by (metis set_sort set_empty)

lemma find_distinct_key:
  assumes "distinct (map key xs)"
  shows "find (\<lambda>x. key x = k) xs = Some x \<longleftrightarrow> x \<in> set xs \<and> key x = k"
  using assms by (induction xs) (auto intro: rev_image_eqI)

lemma registry_with_auto_pool_Ok:
  "registry_with_auto_pool records pool = Ok r \<longleftrightarrow>
     r = \<lparr>nr_schema = NODE_REGISTRY_SCHEMA, nr_auto_pool = pool,
          nr_records = sort_key gr_stable_node_id records\<rparr> \<and> registry_wf r"
  by (auto simp: registry_with_auto_pool_def registry_wf_def Let_def length_remdups_distinct length_remdups_map
      pool_matches_iff Suc_le_eq sort_key_Nil_iff split: if_splits)

text \<open>C39. The type of registries. A registry is built exactly from the records and pools that satisfy the
  invariant: between 1 and 2000 records with no identifier and no tag twice, and a pool of 1 to 64
  distinct identifiers that are exactly those of the records flagged as automatic candidates. The
  registry holds those records sorted, and then looking up an identifier by binary search, or a tag by
  scanning, returns precisely the record that has it.
\<close>

theorem registries_are_well_formed:
  assumes "registry_with_auto_pool records pool = Ok r"
  shows "registry_wf r \<and> mset (nr_records r) = mset records \<and> nr_auto_pool r = pool
    \<and> (\<forall>node_id x. by_stable_id r node_id = Some x \<longleftrightarrow> x \<in> set records \<and> gr_stable_node_id x = node_id)
    \<and> (\<forall>tag x. by_internal_tag r tag = Some x \<longleftrightarrow> x \<in> set records \<and> gr_internal_tag x = tag)"
proof -
  have wf: "registry_wf r" and r: "nr_records r = sort_key gr_stable_node_id records" "nr_auto_pool r = pool"
    using assms by (auto simp: registry_with_auto_pool_Ok)
  moreover have "by_stable_id r node_id = Some x \<longleftrightarrow> x \<in> set records \<and> gr_stable_node_id x = node_id" for node_id x
    using registry_index.search_iff [OF wf] r by (simp add: by_stable_id_def)
  moreover have "by_internal_tag r tag = Some x \<longleftrightarrow> x \<in> set records \<and> gr_internal_tag x = tag" for tag x
    using wf r find_distinct_key [of gr_internal_tag "nr_records r"] by (simp add: by_internal_tag_def registry_wf_def)
  ultimately show ?thesis by simp
qed

definition sample_node :: "string \<Rightarrow> string \<Rightarrow> bool \<Rightarrow> GenerationNodeRecord" where
  "sample_node node_id tag candidate =
     \<lparr>gr_stable_node_id = node_id, gr_internal_tag = tag, gr_display_name = ''n'', gr_protocol = ''trojan'',
      gr_source_ids = [], gr_auto_candidate = candidate, gr_display_territory_code = None\<rparr>"

theorem registries_are_well_formed_witness:
  "\<exists>r. registry_with_auto_pool [sample_node ''b'' ''t1'' True, sample_node ''a'' ''t2'' False] [''b''] = Ok r
     \<and> registry_wf r \<and> by_stable_id r ''a'' = Some (sample_node ''a'' ''t2'' False)"
proof -
  let ?records = "[sample_node ''b'' ''t1'' True, sample_node ''a'' ''t2'' False]"
  let ?r = "\<lparr>nr_schema = NODE_REGISTRY_SCHEMA, nr_auto_pool = [''b''], nr_records = rev ?records\<rparr>"
  have r: "registry_with_auto_pool ?records [''b''] = Ok ?r" by code_simp
  from registries_are_well_formed [OF r] r show ?thesis by (auto simp: sample_node_def)
qed

end
