(* ===== verification/Calm.thy ===== *)
theory Calm
  imports Fs
begin

section \<open>Directories without links\<close>

text \<open>
  A store that keeps no symbolic links below its directory opens the files it names. The number of
  failing calls still to come only shrinks. Both are kept by the calls of the store, and together
  with the tree they make the operations stay within a set of paths.
\<close>

definition is_fail :: "outcome \<Rightarrow> bool" where
  "is_fail o' = (case o' of Fail _ _ \<Rightarrow> True | _ \<Rightarrow> False)"

definition failures :: "world \<Rightarrow> nat" where
  "failures w = length (filter is_fail (w_outcomes w))"

definition linkfree :: "path \<Rightarrow> fs \<Rightarrow> bool" where
  "linkfree g fs \<longleftrightarrow> (\<forall>q. under g q \<longrightarrow> not_link (fs q))"

definition quiet :: "path \<Rightarrow> nat \<Rightarrow> world \<Rightarrow> bool" where
  "quiet g n w \<longleftrightarrow> linkfree g (w_fs w) \<and> failures w \<le> n"

lemma not_link_crashed: "not_link (w_fs (crashed garbage w) q) = not_link (w_fs w q)"
  by (auto simp: crashed_def not_link_def split: option.split node.split)

lemma quiet_crashed [simp]: "quiet g n (crashed garbage w) = quiet g n w"
  by (simp add: quiet_def linkfree_def not_link_crashed) (simp add: failures_def crashed_def)

lemma quiet_set: "quiet g n w \<Longrightarrow> not_link node \<Longrightarrow> quiet g n (set_node p node w)"
  by (simp add: quiet_def linkfree_def set_node_def failures_def)

lemma quiet_set_dirty [simp]: "quiet g n (set_dirty p d w) = quiet g n w"
  by (simp add: quiet_def set_dirty_def failures_def)

lemma quiet_put: "quiet g n w \<Longrightarrow> quiet g n (put_bytes p bytes w)"
  by (auto simp: put_bytes_def quiet_set split: option.split node.split)

lemma quiet_remove_trees: "quiet g n w \<Longrightarrow> quiet g n (remove_trees ps w)"
  by (simp add: quiet_def linkfree_def remove_trees_def failures_def)

lemma keeps_quiet_fs_call:
  assumes act: "\<And>w. quiet g n w \<Longrightarrow> quiet g n (snd (act w))" and part: "\<And>m ps w. quiet g n w \<Longrightarrow> quiet g n (partial m ps w)"
  shows "keeps (quiet g n) (fs_call act partial)"
  unfolding keeps_def
proof (intro allI impI)
  fix w
  assume w: "quiet g n w"
  have out: "quiet g n (w\<lparr>w_outcomes := os\<rparr>)" if "w_outcomes w = x # os" for x os
    using w that by (auto simp: quiet_def failures_def split: if_splits)
  then show "quiet g n (snd (fs_call act partial w))"
    using w assms by (auto simp: fs_call_def split: list.split outcome.split)
qed

lemma quiet_no_part: "quiet g n w \<Longrightarrow> quiet g n (no_part m ps w)"
  by (simp add: no_part_def)

lemmas quiet_call = keeps_quiet_fs_call quiet_no_part quiet_put quiet_remove_trees

lemma keeps_quiet_reading [keeps_intros]:
  "keeps (quiet g n) (symlink_metadata p)" "keeps (quiet g n) (read_file p)" "keeps (quiet g n) (open_dir p)"
  unfolding symlink_metadata_def read_file_def open_dir_def
  by (intro quiet_call; simp split: option.split node.split)+

lemma keeps_quiet_syncing [keeps_intros]:
  "keeps (quiet g n) (sync_all p)" "keeps (quiet g n) (sync_directory p)" "keeps (quiet g n) (io_exists p)"
  unfolding sync_all_def sync_directory_def io_exists_try
  by (intro keeps_intros quiet_call; simp)+

lemma keeps_quiet_writing [keeps_intros]:
  "keeps (quiet g n) (create_dir p m)" "keeps (quiet g n) (write_all p bytes)" "keeps (quiet g n) (set_mode p m)"
  unfolding create_dir_def write_all_def set_mode_def
  by (intro quiet_call; auto simp: quiet_set quiet_put split: option.split node.split)+

lemma keeps_quiet_remove_dir_all [keeps_intros]: "keeps (quiet g n) (remove_dir_all p)"
  unfolding remove_dir_all_def
  by (intro quiet_call; auto simp: quiet_set quiet_remove_trees split: option.split node.split)

lemma linkfree_move:
  assumes "linkfree g fs" "under g a"
  shows "linkfree g (move_tree a b fs None)"
  using assms under_append unfolding linkfree_def move_tree_def by auto

lemma keeps_quiet_rename [keeps_intros]:
  assumes "under g a"
  shows "keeps (quiet g n) (rename a b)"
  unfolding rename_def
  by (intro quiet_call) (auto simp: quiet_def failures_def linkfree_move assms)

subsection \<open>Operations that stay within a set of paths\<close>

definition stays :: "path \<Rightarrow> nat \<Rightarrow> path set \<Rightarrow> ('e, 'a) io \<Rightarrow> bool" where
  "stays g n S m \<longleftrightarrow>
     (\<forall>w. wtree w \<and> quiet g n w \<and> dirty_within S w \<longrightarrow>
        wtree (snd (m w)) \<and> quiet g n (snd (m w)) \<and> step_within S w (snd (m w)))"

named_theorems stays_intros \<open>operations that stay within a set of paths\<close>

lemma staysD:
  "stays g n S m \<Longrightarrow> m w = (r, w') \<Longrightarrow> wtree w \<Longrightarrow> quiet g n w \<Longrightarrow> dirty_within S w \<Longrightarrow>
     wtree w' \<and> quiet g n w' \<and> step_within S w w' \<and> dirty_within S w'"
  by (auto simp: stays_def step_within_def dest: spec [of _ w])

lemma stays_call: "keeps wtree m \<Longrightarrow> keeps (quiet g n) m \<Longrightarrow> confined S m \<Longrightarrow> stays g n S m"
  by (simp add: stays_def keeps_def confined_def)

lemma stays_return [stays_intros]: "stays g n S (io_return x)" "stays g n S (io_fail e)" "stays g n S (io_result r)"
  by (simp_all add: stays_def io_defs)

lemma stays_try [stays_intros]:
  assumes "stays g n S m" "\<And>r. stays g n S (f r)"
  shows "stays g n S (io_try m f)"
  unfolding stays_def
proof (intro allI impI)
  fix w
  assume w: "wtree w \<and> quiet g n w \<and> dirty_within S w"
  obtain r v where m: "m w = (r, v)" by fastforce
  obtain r' v' where f: "f r v = (r', v')" by fastforce
  have v: "wtree v \<and> quiet g n v \<and> step_within S w v \<and> dirty_within S v" using staysD [OF assms(1) m] w by blast
  then have "wtree v' \<and> quiet g n v' \<and> step_within S v v'" using staysD [OF assms(2) f] by blast
  then show "wtree (snd (io_try m f w)) \<and> quiet g n (snd (io_try m f w)) \<and> step_within S w (snd (io_try m f w))"
    using v m f step_within_trans [of S w v v'] by (simp add: io_try_def)
qed

lemma stays_bind [stays_intros]: "stays g n S m \<Longrightarrow> (\<And>x. stays g n S (f x)) \<Longrightarrow> stays g n S (io_bind m f)"
  unfolding io_bind_try by (intro stays_intros) (auto split: sum.split intro: stays_intros)

lemma stays_map_err [stays_intros]: "stays g n S m \<Longrightarrow> stays g n S (io_map_err h m)"
  unfolding io_map_err_try by (intro stays_intros)

lemma stays_reading [stays_intros]:
  "stays g n S (symlink_metadata p)" "stays g n S (read_file p)" "stays g n S (sync_directory p)" "stays g n S (io_exists p)"
  by (intro stays_call keeps_intros confined_intros)+

lemma stays_writing [stays_intros]:
  "p \<in> S \<Longrightarrow> stays g n S (create_dir p m)" "p \<in> S \<Longrightarrow> stays g n S (write_all p bytes)"
  "p \<in> S \<Longrightarrow> stays g n S (set_mode p m)" "p \<in> S \<Longrightarrow> stays g n S (sync_all p)"
  by (intro stays_call keeps_intros confined_intros; assumption)+

lemma stays_remove_dir_all [stays_intros]: "(\<And>q. under p q \<Longrightarrow> q \<in> S) \<Longrightarrow> stays g n S (remove_dir_all p)"
  by (intro stays_call keeps_intros confined_intros)

lemma stays_rename [stays_intros]:
  "under g a \<Longrightarrow> (\<And>q. under a q \<Longrightarrow> q \<in> S) \<Longrightarrow> (\<And>q. under b q \<Longrightarrow> q \<in> S) \<Longrightarrow> stays g n S (rename a b)"
  by (intro stays_call keeps_intros confined_intros)

subsection \<open>Opening a file that is not a link\<close>

definition open_act :: "path \<Rightarrow> u32 \<Rightarrow> (io_error, path) io" where
  "open_act p m w =
     (case w_fs w p of
        Some (File m' u _) \<Rightarrow> (Ok p, set_dirty p True (set_node p (Some (File m' u [])) w))
      | Some _ \<Rightarrow> (Err OtherError, w)
      | None \<Rightarrow>
          if p \<noteq> [] \<and> is_dir (w_fs w) (butlast p)
          then (Ok p, set_dirty p True (set_node p (Some (File (m AND NOT (w_umask w)) 0 [])) w))
          else (Err (missing (w_fs w) p), w))"

definition open_plain :: "path \<Rightarrow> u32 \<Rightarrow> (io_error, path) io" where
  "open_plain p m = fs_call (open_act p m) no_part"

lemma resolve_not_link:
  assumes "not_link (fs p)"
  shows "resolve MAXSYMLINKS fs p = Some p"
proof -
  have "MAXSYMLINKS = Suc 39" by (simp add: MAXSYMLINKS_def)
  moreover have "resolve (Suc 39) fs p = Some p"
    unfolding resolve.simps using assms by (auto simp: not_link_def split: option.split node.splits)
  ultimately show ?thesis by argo
qed

lemma fs_call_cong:
  assumes "\<And>os. act (w\<lparr>w_outcomes := os\<rparr>) = act' (w\<lparr>w_outcomes := os\<rparr>)"
  shows "fs_call act partial w = fs_call act' partial w"
  using assms assms [of "w_outcomes w"] by (simp add: fs_call_def split: list.split outcome.split)

lemma open_truncate_plain: "not_link (w_fs w p) \<Longrightarrow> open_truncate p m w = open_plain p m w"
  unfolding open_truncate_def open_plain_def by (rule fs_call_cong) (simp add: resolve_not_link open_act_def)

lemma open_act_cases:
  "snd (open_act p m w) = w
   \<or> \<not> is_dir (w_fs w) p \<and> (w_fs w p \<noteq> None \<or> p \<noteq> [] \<and> is_dir (w_fs w) (butlast p))
     \<and> (\<exists>m' u. snd (open_act p m w) = set_dirty p True (set_node p (Some (File m' u [])) w))"
  by (cases "w_fs w p") (auto simp: open_act_def is_dir_def split: node.split)

lemma open_act_Ok:
  "open_act p m w = (Inr q, w') \<Longrightarrow>
     q = p \<and> (\<exists>m' u. w' = set_dirty p True (set_node p (Some (File m' u [])) w) \<and> (w_fs w p = None \<longrightarrow> u = 0))"
  by (cases "w_fs w p") (auto simp: open_act_def split: node.splits if_splits)

lemma open_plain_Ok:
  "open_plain p m w = (Inr q, w') \<Longrightarrow>
     same_machine w w' \<and> q = p \<and> w_dirty w' = (w_dirty w)(p := True)
     \<and> (\<exists>m' u. w_fs w' = (w_fs w)(p \<mapsto> File m' u []) \<and> (w_fs w p = None \<longrightarrow> u = 0))"
  by (auto simp: open_plain_def same_machine_def set_node_def set_dirty_def elim!: fs_call_Ok dest!: open_act_Ok) blast+

lemma open_act_keeps:
  "wtree w \<Longrightarrow> wtree (snd (open_act p m w))"
  "quiet g n w \<Longrightarrow> quiet g n (snd (open_act p m w))"
  "p \<in> S \<Longrightarrow> \<not> w_halted w \<Longrightarrow> step_within S w (snd (open_act p m w))"
  using open_act_cases [of p m w] by (auto simp: tree_set_node quiet_set step_within_set)

lemma stays_open_plain [stays_intros]:
  assumes "p \<in> S"
  shows "stays g n S (open_plain p m)"
  unfolding open_plain_def
  by (intro stays_call keeps_fs_call keeps_no_part quiet_call confined_fs_call no_part_within)
    (simp_all add: open_act_keeps assms)

lemma step_within_mono:
  assumes "step_within S w v" "S \<subseteq> T" "dirty_within S w"
  shows "step_within T w v" "dirty_within T v"
proof -
  have v: "dirty_within S v" "\<forall>p. p \<notin> S \<longrightarrow> w_fs v p = w_fs w p" using assms(1,3) by (simp_all add: step_within_def)
  then show "dirty_within T v" using assms(2) by (auto simp: dirty_within_def)
  then show "step_within T w v" using assms(1,2) v(2) by (simp add: step_within_def subset_iff) blast
qed


end
