(* ===== verification/Generation_Store.thy ===== *)
theory Generation_Store
  imports Generation Atomic_File Calm
begin

section \<open>The store of generations\<close>

text \<open>
  \<open>GenerationStore\<close> of \<open>nethop-core/src/generation.rs\<close> on the file system of \<open>Fs\<close>. A candidate is
  written to a staging directory, sealed by renaming the directory to its number, and published by
  renaming a new pointer file over \<open>current\<close>. The functions on Unix are modelled. The encodings
  of \<open>serde_json\<close> and the hash are the fields of a record of functions; the validator that
  \<open>publish\<close> is given reads the file system and does not change it.
\<close>

subsection \<open>Names\<close>

record codecs =
  k_sha256 :: "bytes \<Rightarrow> bytes"
  k_registry_to :: "GenerationNodeRegistry \<Rightarrow> (string, bytes) rresult"
  k_registry_from :: "bytes \<Rightarrow> GenerationNodeRegistry option"
  k_manifest_to :: "GenerationManifest \<Rightarrow> (string, bytes) rresult"
  k_manifest_from :: "bytes \<Rightarrow> GenerationManifest option"

record GenerationStore =
  gs_root :: path

definition generations_root :: "GenerationStore \<Rightarrow> path" where
  "generations_root store = gs_root store @ [''generations'']"

text \<open>The tokens of a candidate written and not yet at a stable path, and of a generation at its path.\<close>

record PreparedCandidate =
  pc_store_root :: path
  pc_generation :: GenerationId
  pc_directory :: path

record SealedGeneration =
  sg_store_root :: path
  sg_generation :: GenerationId
  sg_directory :: path

definition prepared_config_path :: "PreparedCandidate \<Rightarrow> path" where
  "prepared_config_path prepared = pc_directory prepared @ [''config.json'']"

definition prepared_node_registry_path :: "PreparedCandidate \<Rightarrow> path" where
  "prepared_node_registry_path prepared = pc_directory prepared @ [''nodes.json'']"

definition sealed_config_path :: "SealedGeneration \<Rightarrow> path" where
  "sealed_config_path sealed = sg_directory sealed @ [''config.json'']"

definition sealed_node_registry_path :: "SealedGeneration \<Rightarrow> path" where
  "sealed_node_registry_path sealed = sg_directory sealed @ [''nodes.json'']"

definition final_dir :: "GenerationStore \<Rightarrow> GenerationId \<Rightarrow> path" where
  "final_dir store gen = generations_root store @ [show_u64 gen]"

definition candidate_dir :: "GenerationStore \<Rightarrow> GenerationId \<Rightarrow> u32 \<Rightarrow> path" where
  "candidate_dir store gen pid =
     generations_root store @ [''.candidate-'' @ show_u64 gen @ ''-'' @ show_nat (unat pid)]"

definition current_path :: "GenerationStore \<Rightarrow> path" where
  "current_path store = generations_root store @ [''current'']"

definition current_temp :: "GenerationStore \<Rightarrow> GenerationId \<Rightarrow> path" where
  "current_temp store gen = generations_root store @ [''.current-'' @ show_u64 gen]"

subsection \<open>Helpers\<close>

definition is_private_regular_file :: "path \<Rightarrow> (CoreError, bool) io" where
  "is_private_regular_file p =
     io_try (symlink_metadata p) (\<lambda>r. io_return
       (case r of Inl _ \<Rightarrow> False
                | Inr md \<Rightarrow> md_is_file md \<and> \<not> md_is_symlink md \<and> no_group_or_other (md_mode md)))"

definition is_plain_directory :: "path \<Rightarrow> (CoreError, bool) io" where
  "is_plain_directory p =
     io_try (symlink_metadata p) (\<lambda>r. io_return
       (case r of Inl _ \<Rightarrow> False | Inr md \<Rightarrow> md_is_dir md \<and> \<not> md_is_symlink md))"

definition remove_directory_if_present :: "path \<Rightarrow> string \<Rightarrow> (CoreError, unit) io" where
  "remove_directory_if_present p operation =
     io_bind (io_exists p) (\<lambda>present.
       if present then io_map_err (io_error operation) (remove_dir_all p) else io_return ())"

definition open_private_file :: "path \<Rightarrow> (io_error, path) io" where
  "open_private_file p =
     io_bind (open_truncate p 384) (\<lambda>handle. io_bind (set_mode handle 384) (\<lambda>_. io_return handle))"

definition write_sync :: "path \<Rightarrow> bytes \<Rightarrow> (io_error, unit) io" where
  "write_sync p bytes =
     io_bind (open_private_file p) (\<lambda>handle. io_bind (write_all handle bytes) (\<lambda>_. sync_all handle))"

definition create_private_dir :: "path \<Rightarrow> (io_error, unit) io" where
  "create_private_dir p = create_dir p 448"

subsection \<open>Opening a store\<close>

text \<open>\<open>Path::is_dir\<close>, \<open>DirBuilder::recursive\<close>, \<open>fs::set_permissions\<close> and \<open>Path::canonicalize\<close> of the
  standard library; all but the second follow a link.\<close>

definition path_is_dir :: "path \<Rightarrow> ('e, bool) io" where
  "path_is_dir p =
     io_try (fs_call (\<lambda>w. case resolve MAXSYMLINKS (w_fs w) p of
                None \<Rightarrow> (Err OtherError, w)
              | Some q \<Rightarrow> (case w_fs w q of None \<Rightarrow> (Err (missing (w_fs w) q), w) | Some node \<Rightarrow> (Ok (md_is_dir node), w))) no_part)
       (\<lambda>r. io_return (r = Ok True))"

definition create_or_find :: "path \<Rightarrow> u32 \<Rightarrow> (io_error, unit) io" where
  "create_or_find p m =
     io_try (create_dir p m) (\<lambda>r.
       case r of
         Inr _ \<Rightarrow> io_return ()
       | Inl e \<Rightarrow> io_bind (path_is_dir p) (\<lambda>present. if present then io_return () else io_fail e))"

function create_dir_all :: "u32 \<Rightarrow> path \<Rightarrow> (io_error, unit) io" where
  "create_dir_all m p =
     io_try (create_dir p m) (\<lambda>r.
       case r of
         Inr _ \<Rightarrow> io_return ()
       | Inl NotFound \<Rightarrow>
           if p = [] then io_fail OtherError
           else io_bind (create_dir_all m (butlast p)) (\<lambda>_. create_or_find p m)
       | Inl e \<Rightarrow> io_bind (path_is_dir p) (\<lambda>present. if present then io_return () else io_fail e))"
  by pat_completeness auto
termination
  by (relation "measure (\<lambda>(m, p). length p)") auto

declare create_dir_all.simps [simp del]

definition create_private_dir_all :: "path \<Rightarrow> (io_error, unit) io" where
  "create_private_dir_all p = create_dir_all 448 p"

definition set_private_dir_permissions :: "path \<Rightarrow> (io_error, unit) io" where
  "set_private_dir_permissions p =
     (\<lambda>w. case resolve MAXSYMLINKS (w_fs w) p of None \<Rightarrow> (Err OtherError, w) | Some q \<Rightarrow> set_mode q 448 w)"

definition canonicalize :: "path \<Rightarrow> (io_error, path) io" where
  "canonicalize p =
     fs_call (\<lambda>w. case resolve MAXSYMLINKS (w_fs w) p of
                     None \<Rightarrow> (Err OtherError, w)
                   | Some q \<Rightarrow> (case w_fs w q of None \<Rightarrow> (Err (missing (w_fs w) q), w) | Some _ \<Rightarrow> (Ok q, w))) no_part"

definition generation_store_new :: "path \<Rightarrow> (CoreError, GenerationStore) io" where
  "generation_store_new root =
     (let generations = root @ [''generations''] in
      io_bind (io_map_err (io_error ''create_root'') (create_private_dir_all root)) (\<lambda>_.
      io_bind (io_map_err (io_error ''create_root'') (create_private_dir_all generations)) (\<lambda>_.
      io_bind (io_map_err (io_error ''secure_root'') (set_private_dir_permissions root)) (\<lambda>_.
      io_bind (io_map_err (io_error ''secure_generations'') (set_private_dir_permissions generations)) (\<lambda>_.
      io_bind (io_map_err (io_error ''canonicalize_root'') (canonicalize root)) (\<lambda>root.
        io_return \<lparr>gs_root = root\<rparr>))))))"

subsection \<open>Reading the store\<close>

text \<open>\<open>fs::read_to_string\<close> fails on bytes that are not UTF-8.\<close>

definition read_to_string :: "path \<Rightarrow> (io_error, string) io" where
  "read_to_string p = io_bind (read_file p) (\<lambda>bytes. if utf8 bytes then io_return bytes else io_fail OtherError)"

definition current_generation :: "GenerationStore \<Rightarrow> (CoreError, GenerationId option) io" where
  "current_generation store =
     (let p = current_path store in
      io_bind (io_exists p) (\<lambda>present.
        if \<not> present then io_return None
        else io_bind (io_map_err (io_error ''read_current'') (read_to_string p)) (\<lambda>value.
          case parse_u64 (trim value) of
            None \<Rightarrow> io_fail InvalidCurrentPointer
          | Some n \<Rightarrow> io_bind (io_result (generation_id_new n)) (\<lambda>gen. io_return (Some gen)))))"

definition ensure_owned :: "GenerationStore \<Rightarrow> path \<Rightarrow> (CoreError, unit) io" where
  "ensure_owned store token_root =
     (if token_root = gs_root store then io_return ()
      else io_fail (publish_error ''verify_store_owner'' ''generation token belongs to another store''))"

definition read_bytes :: "string \<Rightarrow> path \<Rightarrow> (CoreError, bytes) io" where
  "read_bytes operation p = io_map_err (io_error operation) (read_file p)"

definition decode :: "string \<Rightarrow> string \<Rightarrow> (bytes \<Rightarrow> 'a option) \<Rightarrow> bytes \<Rightarrow> (CoreError, 'a) io" where
  "decode operation message from_slice bytes =
     (case from_slice bytes of None \<Rightarrow> io_fail (publish_error operation message) | Some x \<Rightarrow> io_return x)"

definition check_registry :: "codecs \<Rightarrow> path \<Rightarrow> GenerationManifest \<Rightarrow> (CoreError, unit) io" where
  "check_registry k directory manifest =
     (let p = directory @ [''nodes.json''] in
      case gm_node_registry_sha256 manifest of
        Some expected \<Rightarrow>
          io_bind (is_private_regular_file p) (\<lambda>private.
            if \<not> private
            then io_fail (publish_error ''verify_node_registry'' ''generation node registry is missing or insecure'')
            else io_bind (read_bytes ''read_node_registry'' p) (\<lambda>bytes.
              io_bind (decode ''verify_node_registry'' ''generation node registry is invalid'' (k_registry_from k) bytes)
                (\<lambda>registry.
                  if expected \<noteq> sha256_hex (k_sha256 k) bytes \<or> nr_schema registry \<noteq> NODE_REGISTRY_SCHEMA
                     \<or> length (nr_records registry) \<noteq> gm_node_count manifest
                  then io_fail (publish_error ''verify_node_registry'' ''generation node registry does not match manifest'')
                  else io_return ())))
      | None \<Rightarrow>
          io_bind (io_exists p) (\<lambda>present.
            if present
            then io_fail (publish_error ''verify_node_registry'' ''unbound generation node registry is not allowed'')
            else io_return ()))"

text \<open>The three conditions are joined by \<open>||\<close>: a later one is not evaluated once an earlier holds.\<close>

definition ensure_sealed_exists :: "codecs \<Rightarrow> GenerationStore \<Rightarrow> GenerationId \<Rightarrow> (CoreError, unit) io" where
  "ensure_sealed_exists k store gen =
     (let directory = final_dir store gen; config = directory @ [''config.json''];
          manifest = directory @ [''manifest.json''];
          incomplete = io_fail (publish_error ''verify_generation'' ''generation is incomplete or missing'') in
      io_bind (is_plain_directory directory) (\<lambda>valid. if \<not> valid then incomplete else
      io_bind (is_private_regular_file config) (\<lambda>valid. if \<not> valid then incomplete else
      io_bind (is_private_regular_file manifest) (\<lambda>valid. if \<not> valid then incomplete else
      io_bind (read_bytes ''read_manifest'' manifest) (\<lambda>bytes.
      io_bind (decode ''verify_manifest'' ''generation manifest is invalid'' (k_manifest_from k) bytes) (\<lambda>manifest.
      io_bind (read_bytes ''read_config'' config) (\<lambda>config.
        if gm_schema manifest \<noteq> MANIFEST_SCHEMA \<or> gm_generation manifest \<noteq> gen
           \<or> gm_config_sha256 manifest \<noteq> sha256_hex (k_sha256 k) config
        then io_fail (publish_error ''verify_manifest'' ''generation manifest does not match config'')
        else check_registry k directory manifest)))))))"

definition verify_generation :: "codecs \<Rightarrow> GenerationStore \<Rightarrow> GenerationId \<Rightarrow> (CoreError, unit) io" where
  "verify_generation k store gen = ensure_sealed_exists k store gen"

definition sealed_generation :: "codecs \<Rightarrow> GenerationStore \<Rightarrow> GenerationId \<Rightarrow> (CoreError, SealedGeneration) io" where
  "sealed_generation k store gen =
     io_bind (ensure_sealed_exists k store gen) (\<lambda>_.
       io_return \<lparr>sg_store_root = gs_root store, sg_generation = gen, sg_directory = final_dir store gen\<rparr>)"

definition current_sealed_generation :: "codecs \<Rightarrow> GenerationStore \<Rightarrow> (CoreError, SealedGeneration option) io" where
  "current_sealed_generation k store =
     io_bind (current_generation store) (\<lambda>current.
       case current of
         None \<Rightarrow> io_return None
       | Some gen \<Rightarrow> io_bind (sealed_generation k store gen) (\<lambda>sealed. io_return (Some sealed)))"

definition current_manifest :: "codecs \<Rightarrow> GenerationStore \<Rightarrow> (CoreError, GenerationManifest option) io" where
  "current_manifest k store =
     io_bind (current_generation store) (\<lambda>current.
       case current of
         None \<Rightarrow> io_return None
       | Some gen \<Rightarrow>
           io_bind (verify_generation k store gen) (\<lambda>_.
           io_bind (read_bytes ''read_manifest'' (final_dir store gen @ [''manifest.json''])) (\<lambda>bytes.
           io_bind (decode ''read_manifest'' ''generation manifest is invalid'' (k_manifest_from k) bytes) (\<lambda>manifest.
             io_return (Some manifest)))))"

definition read_node_registry ::
  "codecs \<Rightarrow> GenerationStore \<Rightarrow> GenerationId \<Rightarrow> (CoreError, GenerationNodeRegistry) io" where
  "read_node_registry k store gen =
     io_bind (verify_generation k store gen) (\<lambda>_.
     io_bind (read_bytes ''read_node_registry'' (final_dir store gen @ [''nodes.json''])) (\<lambda>bytes.
       decode ''read_node_registry'' ''node registry is invalid'' (k_registry_from k) bytes))"

subsection \<open>Changing the store\<close>

definition write_part :: "string \<Rightarrow> path \<Rightarrow> bytes \<Rightarrow> (CoreError, unit) io" where
  "write_part operation p bytes = io_map_err (io_error operation) (write_sync p bytes)"

definition write_candidate :: "codecs \<Rightarrow> Candidate \<Rightarrow> path \<Rightarrow> (CoreError, unit) io" where
  "write_candidate k c directory =
     io_bind (write_part ''write_config'' (directory @ [''config.json'']) (cfg_bytes (cd_config c))) (\<lambda>_.
     io_bind (case cd_node_registry c of
                None \<Rightarrow> io_return ()
              | Some registry \<Rightarrow>
                  io_bind (io_result (map_err SerializationFailure (k_registry_to k registry))) (\<lambda>bytes.
                    write_part ''write_node_registry'' (directory @ [''nodes.json'']) bytes)) (\<lambda>_.
     io_bind (io_result (map_err SerializationFailure (k_manifest_to k (cd_manifest c)))) (\<lambda>manifest.
     io_bind (write_part ''write_manifest'' (directory @ [''manifest.json'']) manifest) (\<lambda>_.
       io_map_err (io_error ''sync_candidate'') (sync_directory directory)))))"

definition fill_candidate :: "codecs \<Rightarrow> GenerationStore \<Rightarrow> Candidate \<Rightarrow> path \<Rightarrow> (CoreError, PreparedCandidate) io" where
  "fill_candidate k store c directory =
     io_bind (io_map_err (io_error ''create_candidate'') (create_private_dir directory)) (\<lambda>_.
     io_try (write_candidate k c directory) (\<lambda>result.
       case result of
         Inl e \<Rightarrow> io_try (remove_dir_all directory) (\<lambda>_. io_fail e)
       | Inr _ \<Rightarrow> io_return \<lparr>pc_store_root = gs_root store, pc_generation = cd_generation c, pc_directory = directory\<rparr>))"

definition remove_stale :: "path \<Rightarrow> bool \<Rightarrow> (CoreError, unit) io" where
  "remove_stale directory stale =
     (if stale then io_map_err (io_error ''remove_stale_candidate'') (remove_dir_all directory) else io_return ())"

definition prepare_candidate :: "codecs \<Rightarrow> GenerationStore \<Rightarrow> Candidate \<Rightarrow> (CoreError, PreparedCandidate) io" where
  "prepare_candidate k store c w =
     (let directory = candidate_dir store (cd_generation c) (w_pid w) in
      io_bind (io_exists (final_dir store (cd_generation c))) (\<lambda>present.
        if present then io_fail (publish_error ''reserve_generation'' ''generation already exists'')
        else io_bind (io_exists directory) (\<lambda>stale.
          io_bind (remove_stale directory stale) (\<lambda>_. fill_candidate k store c directory))) w)"

definition seal_candidate :: "GenerationStore \<Rightarrow> PreparedCandidate \<Rightarrow> (CoreError, SealedGeneration) io" where
  "seal_candidate store prepared =
     (let final = final_dir store (pc_generation prepared) in
      io_bind (ensure_owned store (pc_store_root prepared)) (\<lambda>_.
      io_bind (io_exists final) (\<lambda>present.
        if present then io_fail (publish_error ''seal_generation'' ''generation already exists'')
        else io_bind (io_map_err (io_error ''seal_generation'') (rename (pc_directory prepared) final)) (\<lambda>_.
             io_bind (io_map_err (io_error ''sync_generations'') (sync_directory (generations_root store))) (\<lambda>_.
               io_return \<lparr>sg_store_root = gs_root store, sg_generation = pc_generation prepared, sg_directory = final\<rparr>)))))"

definition write_current :: "GenerationStore \<Rightarrow> GenerationId \<Rightarrow> (CoreError, unit) io" where
  "write_current store gen =
     io_bind (write_part ''write_current'' (current_temp store gen) (show_u64 gen @ [CHR 0x0A])) (\<lambda>_.
     io_bind (io_map_err (io_error ''publish_current'') (rename (current_temp store gen) (current_path store))) (\<lambda>_.
       io_map_err (io_error ''sync_generations'') (sync_directory (generations_root store))))"

definition commit_generation :: "codecs \<Rightarrow> GenerationStore \<Rightarrow> SealedGeneration \<Rightarrow> (CoreError, unit) io" where
  "commit_generation k store sealed =
     io_bind (ensure_owned store (sg_store_root sealed)) (\<lambda>_.
     io_bind (ensure_sealed_exists k store (sg_generation sealed)) (\<lambda>_.
       write_current store (sg_generation sealed)))"

definition discard_prepared :: "GenerationStore \<Rightarrow> PreparedCandidate \<Rightarrow> (CoreError, unit) io" where
  "discard_prepared store prepared =
     io_bind (ensure_owned store (pc_store_root prepared)) (\<lambda>_.
       remove_directory_if_present (pc_directory prepared) ''discard_candidate'')"

definition discard_sealed :: "GenerationStore \<Rightarrow> SealedGeneration \<Rightarrow> (CoreError, unit) io" where
  "discard_sealed store sealed =
     io_bind (ensure_owned store (sg_store_root sealed)) (\<lambda>_.
     io_bind (current_generation store) (\<lambda>current.
       if current = Some (sg_generation sealed)
       then io_fail (publish_error ''discard_generation'' ''active generation cannot be discarded'')
       else io_bind (remove_directory_if_present (sg_directory sealed) ''discard_generation'') (\<lambda>_.
              io_map_err (io_error ''sync_generations'') (sync_directory (generations_root store)))))"

definition rollback_to :: "codecs \<Rightarrow> GenerationStore \<Rightarrow> GenerationId \<Rightarrow> (CoreError, unit) io" where
  "rollback_to k store gen = io_bind (ensure_sealed_exists k store gen) (\<lambda>_. write_current store gen)"

text \<open>The validator of \<open>publish_with_path\<close> is given the path and the bytes of the staged
  configuration.\<close>

type_synonym validator = "path \<Rightarrow> bytes \<Rightarrow> fs \<Rightarrow> (CoreError, unit) rresult"

definition run_validator :: "validator \<Rightarrow> path \<Rightarrow> bytes \<Rightarrow> (CoreError, unit) io" where
  "run_validator validate p bytes w = (validate p bytes (w_fs w), w)"

definition seal_and_commit :: "codecs \<Rightarrow> GenerationStore \<Rightarrow> PreparedCandidate \<Rightarrow> (CoreError, unit) io" where
  "seal_and_commit k store prepared =
     io_try (seal_candidate store prepared) (\<lambda>sealed.
       case sealed of
         Inl e \<Rightarrow> io_try (discard_prepared store prepared) (\<lambda>_. io_fail e)
       | Inr sealed \<Rightarrow>
           io_try (commit_generation k store sealed) (\<lambda>committed.
             case committed of
               Inl e \<Rightarrow> io_try (discard_sealed store sealed) (\<lambda>_. io_fail e)
             | Inr _ \<Rightarrow> io_return ()))"

definition publish_with_path ::
  "codecs \<Rightarrow> GenerationStore \<Rightarrow> Candidate \<Rightarrow> validator \<Rightarrow> (CoreError, unit) io" where
  "publish_with_path k store c validate =
     io_bind (prepare_candidate k store c) (\<lambda>prepared.
     io_try (run_validator validate (prepared_config_path prepared) (cfg_bytes (cd_config c))) (\<lambda>checked.
       case checked of
         Inl e \<Rightarrow> io_try (discard_prepared store prepared) (\<lambda>_. io_fail e)
       | Inr _ \<Rightarrow> seal_and_commit k store prepared))"

definition publish ::
  "codecs \<Rightarrow> GenerationStore \<Rightarrow> Candidate \<Rightarrow> (bytes \<Rightarrow> (CoreError, unit) rresult) \<Rightarrow> (CoreError, unit) io" where
  "publish k store c validate = publish_with_path k store c (\<lambda>_ bytes _. validate bytes)"

subsection \<open>Where the operations write\<close>

lemma under_snoc: "under (g @ [x]) (g @ [y] @ r) \<longleftrightarrow> x = y"
  by (auto simp: under_def)

lemma under_parent: "under (g @ [x]) q \<Longrightarrow> under g q"
  by (auto simp: under_iff)

lemma show_u64_digit: "c \<in> set (show_u64 n) \<Longrightarrow> is_ascii_digit c"
  by (simp add: show_u64_def show_nat_digit)

lemma show_u64_start: "show_u64 n \<noteq> c # s" if "\<not> is_ascii_digit c"
  using that show_u64_digit [of c n] by auto

lemma show_u64_names [simp]:
  "show_u64 n \<noteq> CHR ''.'' # s" "show_u64 n \<noteq> CHR ''c'' # s" "CHR ''.'' # s \<noteq> show_u64 n" "CHR ''c'' # s \<noteq> show_u64 n"
  using show_u64_start [of "CHR ''c''" n s] show_u64_start [of "CHR ''.''" n s] by (auto simp: is_ascii_digit_def)

definition write_plain :: "path \<Rightarrow> bytes \<Rightarrow> (io_error, unit) io" where
  "write_plain p bytes =
     io_bind (open_plain p 384) (\<lambda>_. io_bind (set_mode p 384) (\<lambda>_. io_bind (write_all p bytes) (\<lambda>_. sync_all p)))"

lemma write_sync_plain:
  assumes "not_link (w_fs w p)"
  shows "write_sync p bytes w = write_plain p bytes w"
proof -
  obtain r v where o: "open_plain p 384 w = (r, v)" by fastforce
  then have "r = Inr x \<Longrightarrow> x = p" for x using open_plain_Ok [of p 384 w x v] by blast
  then show ?thesis
    using o open_truncate_plain [OF assms]
    by (auto simp: write_sync_def open_private_file_def write_plain_def io_bind_def io_return_def split: sum.split prod.split)
qed

lemma write_sync_Ok:
  assumes "write_sync p bytes w = (Inr x, w')" "not_link (w_fs w p)"
  shows "same_machine w w' \<and> w_dirty w' = (w_dirty w)(p := False)
    \<and> (\<exists>u. w_fs w' = (w_fs w)(p \<mapsto> File 384 u bytes) \<and> (w_fs w p = None \<longrightarrow> u = 0))"
proof -
  from assms obtain q v1 x2 v2 x3 v3 where run: "open_plain p 384 w = (Inr q, v1)" "set_mode p 384 v1 = (Inr x2, v2)"
      "write_all p bytes v2 = (Inr x3, v3)" "sync_all p v3 = (Inr x, w')"
    by (auto simp: write_sync_plain write_plain_def io_cases)
  from open_plain_Ok [OF run(1)] obtain m u where v1: "same_machine w v1" "w_dirty v1 = (w_dirty w)(p := True)"
      "w_fs v1 = (w_fs w)(p \<mapsto> File m u [])" "w_fs w p = None \<longrightarrow> u = 0" by (elim conjE exE)
  have v2: "same_machine v1 v2 \<and> w_fs v2 = (w_fs w)(p \<mapsto> File 384 u []) \<and> w_dirty v2 = w_dirty v1"
    using set_mode_file_Ok [OF run(2)] v1(3) by fastforce
  have v3: "same_machine v2 v3 \<and> w_fs v3 = (w_fs w)(p \<mapsto> File 384 u bytes) \<and> w_dirty v3 = (w_dirty v2)(p := True)"
    using write_all_Ok [OF run(3)] v2 by fastforce
  then show ?thesis using sync_all_Ok [OF run(4)] v1 v2 by (auto simp: same_machine_def)
qed

lemma stays_write_sync [stays_intros]:
  assumes "p \<in> S" "under g p"
  shows "stays g n S (write_sync p bytes)"
proof -
  have "stays g n S (write_plain p bytes)"
    unfolding write_plain_def using assms(1) by (intro stays_intros)
  moreover have "write_sync p bytes w = write_plain p bytes w" if "quiet g n w" for w
    using that assms(2) by (intro write_sync_plain) (simp add: quiet_def linkfree_def)
  ultimately show ?thesis by (simp add: stays_def)
qed


lemma stays_checks [stays_intros]:
  "stays g n S (is_private_regular_file p)" "stays g n S (is_plain_directory p)" "stays g n S (read_bytes operation p)"
  "stays g n S (decode operation message from_slice bytes)" "stays g n S (ensure_owned store root)"
  unfolding is_private_regular_file_def is_plain_directory_def read_bytes_def decode_def ensure_owned_def
  by (auto intro!: stays_intros split: option.split)

lemma stays_check_registry [stays_intros]: "stays g n S (check_registry k directory manifest)"
  unfolding check_registry_def Let_def by (auto intro!: stays_intros split: option.split)

lemma stays_ensure_sealed [stays_intros]: "stays g n S (ensure_sealed_exists k store gen)"
  unfolding ensure_sealed_exists_def Let_def by (auto intro!: stays_intros)

lemma stays_current_generation [stays_intros]: "stays g n S (current_generation store)"
  unfolding current_generation_def read_to_string_def Let_def by (auto intro!: stays_intros split: option.split)

lemma stays_remove_directory [stays_intros]:
  "(\<And>q. under p q \<Longrightarrow> q \<in> S) \<Longrightarrow> stays g n S (remove_directory_if_present p operation)"
  unfolding remove_directory_if_present_def by (auto intro!: stays_intros)

lemma stays_write_part [stays_intros]:
  "p \<in> S \<Longrightarrow> under g p \<Longrightarrow> stays g n S (write_part operation p bytes)"
  unfolding write_part_def by (intro stays_intros)

lemma stays_write_candidate [stays_intros]:
  assumes "\<And>q. under directory q \<Longrightarrow> q \<in> S" "under g directory"
  shows "stays g n S (write_candidate k c directory)"
proof -
  have "under directory (directory @ r)" for r by (simp add: under_def)
  then have "directory @ r \<in> S" for r using assms(1) by blast
  then show ?thesis
    unfolding write_candidate_def
    using under_append [OF assms(2)] by (auto intro!: stays_intros split: option.split)
qed

lemma stays_fill_candidate [stays_intros]:
  assumes "\<And>q. under directory q \<Longrightarrow> q \<in> S" "under g directory"
  shows "stays g n S (fill_candidate k store c directory)"
  unfolding fill_candidate_def create_private_dir_def
  using assms by (auto intro!: stays_intros split: sum.split)

lemma stays_seal [stays_intros]:
  assumes "\<And>q. under (pc_directory prepared) q \<Longrightarrow> q \<in> S" "under g (pc_directory prepared)"
    "\<And>q. under (final_dir store (pc_generation prepared)) q \<Longrightarrow> q \<in> S"
  shows "stays g n S (seal_candidate store prepared)"
  unfolding seal_candidate_def Let_def using assms by (auto intro!: stays_intros)

lemma stays_discard_prepared [stays_intros]:
  "(\<And>q. under (pc_directory prepared) q \<Longrightarrow> q \<in> S) \<Longrightarrow> stays g n S (discard_prepared store prepared)"
  unfolding discard_prepared_def by (auto intro!: stays_intros)

lemma stays_discard_sealed [stays_intros]:
  "(\<And>q. under (sg_directory sealed) q \<Longrightarrow> q \<in> S) \<Longrightarrow> stays g n S (discard_sealed store sealed)"
  unfolding discard_sealed_def by (auto intro!: stays_intros)

subsection \<open>What a prepared candidate holds\<close>

definition holds_candidate :: "codecs \<Rightarrow> fs \<Rightarrow> path \<Rightarrow> Candidate \<Rightarrow> bool" where
  "holds_candidate k fs directory c \<longleftrightarrow>
     is_dir fs directory
     \<and> fs (directory @ [''config.json'']) = Some (File 384 0 (cfg_bytes (cd_config c)))
     \<and> (\<exists>bytes. k_manifest_to k (cd_manifest c) = Ok bytes \<and> fs (directory @ [''manifest.json'']) = Some (File 384 0 bytes))
     \<and> (case cd_node_registry c of
          None \<Rightarrow> fs (directory @ [''nodes.json'']) = None
        | Some registry \<Rightarrow>
            \<exists>bytes. k_registry_to k registry = Ok bytes \<and> fs (directory @ [''nodes.json'']) = Some (File 384 0 bytes))"

lemma holds_candidate_cong:
  assumes "holds_candidate k fs d c" "\<And>r. fs' (d' @ r) = fs (d @ r)"
  shows "holds_candidate k fs' d' c"
  using assms(1) assms(2) [of "[]"] assms(2) [of "[_]"] by (simp add: holds_candidate_def is_dir_def split: option.splits)

lemma write_part_Ok:
  assumes "write_part operation p bytes w = (Inr x, w')" "w_fs w p = None"
  shows "w_fs w' = (w_fs w)(p \<mapsto> File 384 0 bytes) \<and> w_dirty w' = (w_dirty w)(p := False) \<and> \<not> w_halted w'"
  using assms write_sync_Ok [of p bytes w x w'] by (auto simp: write_part_def io_cases same_machine_def)

lemma write_candidate_Ok:
  assumes run: "write_candidate k c d w = (Inr x, w')" and d: "is_dir (w_fs w) d" "\<And>r. r \<noteq> [] \<Longrightarrow> w_fs w (d @ r) = None"
    and dirty: "dirty_within Z w"
  shows "holds_candidate k (w_fs w') d c \<and> dirty_within Z w' \<and> \<not> w_halted w'"
proof -
  let ?c = "d @ [''config.json'']" and ?n = "d @ [''nodes.json'']" and ?m = "d @ [''manifest.json'']"
  obtain x1 v1 x2 v2 mb x3 v3 where s: "write_part ''write_config'' ?c (cfg_bytes (cd_config c)) w = (Inr x1, v1)"
      "(case cd_node_registry c of None \<Rightarrow> io_return ()
        | Some registry \<Rightarrow> io_bind (io_result (map_err SerializationFailure (k_registry_to k registry))) (\<lambda>bytes.
            write_part ''write_node_registry'' ?n bytes)) v1 = (Inr x2, v2)"
      "k_manifest_to k (cd_manifest c) = Inr mb" "write_part ''write_manifest'' ?m mb v2 = (Inr x3, v3)"
      "sync_directory d v3 = (Inr x, w')"
    using run by (auto simp: write_candidate_def io_cases io_result_def map_err_def split: sum.splits)
  have v1: "w_fs v1 = (w_fs w)(?c \<mapsto> File 384 0 (cfg_bytes (cd_config c)))" "dirty_within Z v1"
    using write_part_Ok [OF s(1)] d(2) dirty by (auto simp: dirty_within_def)
  have v2: "(case cd_node_registry c of None \<Rightarrow> w_fs v2 = w_fs v1
      | Some registry \<Rightarrow> \<exists>bytes. k_registry_to k registry = Ok bytes \<and> w_fs v2 = (w_fs v1)(?n \<mapsto> File 384 0 bytes))
    \<and> dirty_within Z v2"
  proof (cases "cd_node_registry c")
    case None
    then show ?thesis using s(2) v1 by (simp add: io_return_def)
  next
    case (Some registry)
    then obtain bytes where "k_registry_to k registry = Inr bytes" "write_part ''write_node_registry'' ?n bytes v1 = (Inr x2, v2)"
      using s(2) by (auto simp: io_cases io_result_def map_err_def split: sum.splits)
    then show ?thesis using Some v1 d(2) write_part_Ok [of _ ?n bytes v1 x2 v2] by (auto simp: dirty_within_def)
  qed
  then have "w_fs v2 ?m = None" using v1(1) d(2) by (auto split: option.splits)
  from write_part_Ok [OF s(4) this]
  have v3: "w_fs v3 = (w_fs v2)(?m \<mapsto> File 384 0 mb)" "dirty_within Z v3" using v2 by (auto simp: dirty_within_def)
  have "w_fs w' = w_fs v3" "w_dirty w' = w_dirty v3" "\<not> w_halted w'" using sync_directory_Ok [OF s(5)] by (auto simp: same_machine_def)
  then show ?thesis
    using v1 v2 v3 d s(3) by (auto simp: holds_candidate_def is_dir_def dirty_within_def split: option.splits)
qed


subsection \<open>The steps of a publication\<close>

lemma io_try_iff: "io_try m f w = (r, w'') \<longleftrightarrow> (\<exists>q w'. m w = (q, w') \<and> f q w' = (r, w''))"
  by (auto simp: io_try_def split: prod.splits)

lemma create_dir_Ok:
  "create_dir p m w = (Inr x, w') \<Longrightarrow>
     same_machine w w' \<and> w_fs w p = None \<and> w_dirty w' = w_dirty w
     \<and> w_fs w' = (w_fs w)(p \<mapsto> Dir (m AND NOT (w_umask w)) 0)"
  by (auto simp: create_dir_def same_machine_def set_node_def elim!: fs_call_Ok split: if_splits)

lemma remove_dir_all_Ok:
  "remove_dir_all p w = (Inr x, w') \<Longrightarrow> same_machine w w' \<and> (\<forall>q. w_dirty w' q \<longrightarrow> w_dirty w q)"
  by (auto simp: remove_dir_all_def same_machine_def remove_trees_def set_node_def
      elim!: fs_call_Ok split: option.splits node.splits if_splits)

text \<open>The paths a publication may touch, besides those in \<open>Z\<close> that waited for their synchronisation.\<close>

definition below :: "path \<Rightarrow> path set" where
  "below p = {q. under p q}"

lemma below_simps [simp]: "q \<in> below p \<longleftrightarrow> under p q"
  by (simp add: below_def)

lemma fill_candidate_Ok:
  assumes run: "fill_candidate k store c d w = (Inr prepared, w')" and w: "wtree w" "dirty_within Z w"
  shows "prepared = \<lparr>pc_store_root = gs_root store, pc_generation = cd_generation c, pc_directory = d\<rparr>
    \<and> holds_candidate k (w_fs w') d c \<and> dirty_within Z w' \<and> \<not> w_halted w'"
proof -
  obtain x v q v' where c: "create_dir d 448 w = (Inr x, v)" "write_candidate k c d v = (q, v')"
      "(case q of Inl e \<Rightarrow> io_try (remove_dir_all d) (\<lambda>_. io_fail e)
        | Inr _ \<Rightarrow> io_return \<lparr>pc_store_root = gs_root store, pc_generation = cd_generation c, pc_directory = d\<rparr>) v'
       = (Inr prepared, w')"
    using run by (auto simp: fill_candidate_def create_private_dir_def io_bind_Inr io_map_err_Inr io_try_iff)
  then obtain y where s: "create_dir d 448 w = (Inr x, v)" "write_candidate k c d v = (Inr y, w')"
      "prepared = \<lparr>pc_store_root = gs_root store, pc_generation = cd_generation c, pc_directory = d\<rparr>"
    by (cases q) (auto simp: io_try_iff io_fail_def io_return_def)
  note v = create_dir_Ok [OF s(1)]
  have below: "w_fs v (d @ r) = None" if "r \<noteq> []" for r
    using v tree_below_None [OF w(1), of d "d @ r"] that by (auto simp: is_dir_def under_def)
  from v have "is_dir (w_fs v) d" "dirty_within Z v" using w(2) by (simp_all add: is_dir_def dirty_within_def)
  from write_candidate_Ok [OF s(2) this(1) below this(2)] s(3) show ?thesis by simp
qed

definition prepare_at :: "codecs \<Rightarrow> GenerationStore \<Rightarrow> Candidate \<Rightarrow> path \<Rightarrow> (CoreError, PreparedCandidate) io" where
  "prepare_at k store c directory =
     io_bind (io_exists (final_dir store (cd_generation c))) (\<lambda>present.
       if present then io_fail (publish_error ''reserve_generation'' ''generation already exists'')
       else io_bind (io_exists directory) (\<lambda>stale.
         io_bind (remove_stale directory stale) (\<lambda>_. fill_candidate k store c directory)))"

lemma prepare_candidate_at:
  "prepare_candidate k store c w = prepare_at k store c (candidate_dir store (cd_generation c) (w_pid w)) w"
  by (simp add: prepare_candidate_def prepare_at_def Let_def)

lemma stays_prepare_at [stays_intros]:
  "(\<And>q. under directory q \<Longrightarrow> q \<in> S) \<Longrightarrow> under g directory \<Longrightarrow> stays g n S (prepare_at k store c directory)"
  unfolding prepare_at_def remove_stale_def by (auto intro!: stays_intros)

lemma prepare_at_Ok:
  assumes run: "prepare_at k store c d w = (Inr prepared, w')" and w: "wtree w" "dirty_within Z w" "quiet g n w"
  shows "prepared = \<lparr>pc_store_root = gs_root store, pc_generation = cd_generation c, pc_directory = d\<rparr>
    \<and> holds_candidate k (w_fs w') d c \<and> dirty_within Z w' \<and> \<not> w_halted w'"
proof -
  obtain v1 stale v2 x v3 where s: "io_exists (final_dir store (cd_generation c)) w = (Inr False :: (CoreError, bool) rresult, v1)"
      "io_exists d v1 = (Inr stale :: (CoreError, bool) rresult, v2)" "remove_stale d stale v2 = (Inr x, v3)" "fill_candidate k store c d v3 = (Inr prepared, w')"
    using run by (auto simp: prepare_at_def io_cases io_fail_def split: if_splits)
  note ex = stays_reading(4) [of g n Z]
  from staysD [OF ex s(1) w(1,3,2)] have "wtree v1" "quiet g n v1" "dirty_within Z v1" by auto
  from staysD [OF ex s(2) this] have v2: "wtree v2" "quiet g n v2" "dirty_within Z v2" by auto
  have "stays g n UNIV (remove_stale d stale)" unfolding remove_stale_def by (auto intro!: stays_intros)
  from staysD [OF this s(3) v2(1,2)] have "wtree v3" by (simp add: dirty_within_def)
  moreover have "dirty_within Z v3"
    using s(3) v2(3) remove_dir_all_Ok [of d v2 x v3]
    by (auto simp: remove_stale_def dirty_within_def io_map_err_Inr io_return_def split: if_splits)
  ultimately show ?thesis using fill_candidate_Ok [OF s(4)] by blast
qed

lemma seal_candidate_Ok:
  assumes run: "seal_candidate store prepared w = (Inr sealed, w')"
    and d: "\<not> under (pc_directory prepared) f" "f = final_dir store (pc_generation prepared)"
    and held: "holds_candidate k (w_fs w) (pc_directory prepared) c" and w: "wtree w" "dirty_within Z w" "quiet g n w"
    and Z: "\<And>q. under (pc_directory prepared) q \<Longrightarrow> q \<notin> Z"
  shows "sealed = \<lparr>sg_store_root = gs_root store, sg_generation = pc_generation prepared, sg_directory = f\<rparr>
    \<and> holds_candidate k (w_fs w') f c \<and> dirty_within Z w' \<and> pc_store_root prepared = gs_root store"
proof -
  let ?d = "pc_directory prepared"
  obtain present v1 x v2 y where s: "io_exists f w = (Inr present :: (CoreError, bool) rresult, v1)" "rename ?d f v1 = (Inr x, v2)"
      "sync_directory (generations_root store) v2 = (Inr y, w')"
      "sealed = \<lparr>sg_store_root = gs_root store, sg_generation = pc_generation prepared, sg_directory = f\<rparr>"
    and owned: "pc_store_root prepared = gs_root store"
    using run d(2) by (auto simp: seal_candidate_def Let_def ensure_owned_def io_cases io_fail_def io_return_def split: if_splits)
  have "step_within Z w v1 \<and> dirty_within Z v1" using staysD [OF stays_reading(4) s(1) w(1,3,2)] by blast
  then have v1: "w_fs v1 q = w_fs w q" if "q \<notin> Z" for q using that by (auto simp: step_within_def)
  have dirty: "dirty_within Z v1" using \<open>step_within Z w v1 \<and> dirty_within Z v1\<close> by blast
  have "?d \<noteq> f" using d(1) by auto
  from rename_Ok [OF s(2) this] have v2: "w_fs v2 = move_tree ?d f (w_fs v1) None" "w_dirty v2 = move_tree ?d f (w_dirty v1) False"
    by auto
  have "w_fs v2 (f @ r) = w_fs w (?d @ r)" for r
    using v1 [of "?d @ r"] Z [of "?d @ r"] by (simp add: v2(1) move_tree_def under_def)
  then have "holds_candidate k (w_fs v2) f c" using holds_candidate_cong [OF held] by blast
  moreover have "dirty_within Z v2"
    using dirty Z under_append [OF under_refl, of ?d] by (auto simp: v2(2) dirty_within_def move_tree_def split: if_splits)
  moreover have "w_fs w' = w_fs v2" "w_dirty w' = w_dirty v2" using sync_directory_Ok [OF s(3)] by auto
  ultimately show ?thesis using s(4) owned by (simp add: dirty_within_def)
qed


subsection \<open>The pointer\<close>

definition pointer_line :: "GenerationId \<Rightarrow> bytes" where
  "pointer_line gen = show_u64 gen @ [CHR 0x0A]"

definition points_to :: "GenerationStore \<Rightarrow> fs \<Rightarrow> GenerationId \<Rightarrow> bool" where
  "points_to store fs gen \<longleftrightarrow> (\<exists>u. fs (current_path store) = Some (File 384 u (pointer_line gen)))"

lemma halted_inert:
  assumes "stays g n UNIV m" "m w = (r, w')" "wtree w" "quiet g n w" "w_halted w"
  shows "w_fs w' = w_fs w"
  using staysD [OF assms(1-4)] assms(5) by (simp add: dirty_within_def step_within_def)

text \<open>A call while no failure is to come: its effect, or the crash.\<close>

lemma fs_call_unfailing:
  assumes "fs_call act no_part w = (r, w')" "failures w = 0" "\<not> w_halted w"
  shows "(\<exists>os. act (w\<lparr>w_outcomes := os\<rparr>) = (r, w') \<and> failures (w\<lparr>w_outcomes := os\<rparr>) = 0) \<or> is_err r \<and> w_halted w'"
proof (cases "w_outcomes w")
  case Nil
  then have eq: "w\<lparr>w_outcomes := []\<rparr> = w" by simp
  moreover have "act w = (r, w')" using assms Nil by (simp add: fs_call_def)
  ultimately have "act (w\<lparr>w_outcomes := []\<rparr>) = (r, w')" by argo
  then show ?thesis by (intro disjI1 exI [of _ "[]"]) (simp add: failures_def)
next
  case (Cons x os)
  then show ?thesis
    using assms by (cases x) (auto simp: fs_call_def failures_def is_fail_def no_part_def crashed_def)
qed

lemma open_dir_unfailing:
  assumes "open_dir p w = (r, w')" "failures w = 0" "\<not> w_halted w" "not_link (w_fs w p)" "w_fs w p \<noteq> None"
  shows "is_ok r \<and> w_fs w' = w_fs w \<and> \<not> w_halted w' \<and> failures w' = 0 \<or> is_err r \<and> w_halted w'"
  using fs_call_unfailing [OF assms(1) [unfolded open_dir_def] assms(2,3)] assms(3-5)
  by (auto simp: resolve_not_link failures_def)

lemma read_file_unfailing:
  assumes "read_file p w = (r, w')" "failures w = 0" "\<not> w_halted w" "w_fs w p = Some (File m u bytes)"
  shows "r = Inr bytes \<and> w_fs w' = w_fs w \<or> is_err r \<and> w_halted w'"
  using fs_call_unfailing [OF assms(1) [unfolded read_file_def] assms(2,3)] assms(4)
  by (auto simp: resolve_not_link)

text \<open>The first failure of \<open>sync_directory\<close> is the last one, when only one call fails.\<close>

lemma fs_call_failed:
  assumes "fs_call act no_part w = (Inl e, w')" "failures w \<le> 1" "\<not> w_halted w" "\<And>os. is_ok (fst (act (w\<lparr>w_outcomes := os\<rparr>)))"
  shows "w_halted w' \<or> failures w' = 0"
proof (cases "w_outcomes w")
  case Nil
  then have eq: "w\<lparr>w_outcomes := []\<rparr> = w" by simp
  have "is_ok (fst (act w))" using assms(4) [of "[]"] eq by argo
  then show ?thesis using assms(1,3) Nil by (simp add: fs_call_def)
next
  case (Cons x os)
  then show ?thesis
    using assms(1-3) assms(4) [of os] by (cases x) (auto simp: fs_call_def failures_def is_fail_def no_part_def crashed_def)
qed

lemma sync_directory_failed:
  assumes "sync_directory p w = (Inl e, w')" "quiet g 1 w" "\<not> w_halted w" "not_link (w_fs w p)" "w_fs w p \<noteq> None"
  shows "w_halted w' \<or> failures w' = 0"
proof -
  obtain q v where o: "open_dir p w = (q, v)" by fastforce
  have "quiet g 1 v" using keepsD [OF keeps_quiet_reading(3) o assms(2)] .
  moreover have "\<not> w_halted v" if "q = Inr x" for x
    using o that by (auto simp: open_dir_def elim!: fs_call_Ok split: option.splits)
  moreover have "w_halted v \<or> failures v = 0" if "q = Inl e'" for e'
  proof (rule fs_call_failed)
    show "fs_call (\<lambda>w. case resolve MAXSYMLINKS (w_fs w) p of None \<Rightarrow> (Err OtherError, w)
        | Some q \<Rightarrow> (case w_fs w q of None \<Rightarrow> (Err (missing (w_fs w) q), w) | Some _ \<Rightarrow> (Ok (), w))) no_part w = (Inl e', v)"
      using o that by (simp add: open_dir_def)
  qed (use assms in \<open>auto simp: quiet_def resolve_not_link\<close>)
  ultimately show ?thesis
    using assms(1) o fs_call_failed [of "\<lambda>w. (Ok (), w)" v e w']
    by (cases q) (auto simp: sync_directory_def io_bind_def quiet_def)
qed

text \<open>A generation the pointer names is not discarded, as long as the pointer can be read.\<close>

lemma current_generation_unfailing:
  assumes run: "current_generation store w = (r, w')" and current: "points_to store (w_fs w) gen" and gen: "gen \<noteq> 0"
    and w: "failures w = 0" "\<not> w_halted w"
  shows "r = Ok (Some gen) \<or> w_halted w'"
proof -
  let ?c = "current_path store"
  obtain u where c: "w_fs w ?c = Some (File 384 u (pointer_line gen))" using current by (auto simp: points_to_def)
  obtain q v where o: "open_dir ?c w = (q, v)" by fastforce
  have v: "is_ok q \<and> w_fs v = w_fs w \<and> \<not> w_halted v \<and> failures v = 0 \<or> is_err q \<and> w_halted v"
    using open_dir_unfailing [OF o w] c by simp
  obtain q' v' where f: "read_file ?c v = (q', v')" by fastforce
  have ex: "io_exists ?c w = (Ok (is_ok q) :: (CoreError, bool) rresult, v)" by (simp add: io_exists_try io_try_def io_return_def o)
  from v show ?thesis
  proof
    assume ok: "is_ok q \<and> w_fs v = w_fs w \<and> \<not> w_halted v \<and> failures v = 0"
    then have "q' = Inr (pointer_line gen) \<or> is_err q' \<and> w_halted v'"
      using read_file_unfailing [OF f, of 384 u "pointer_line gen"] c by auto
    with run ok ex f gen show ?thesis
      by (auto simp: current_generation_def Let_def read_to_string_def io_bind_def io_map_err_def io_return_def io_result_def
          map_err_def pointer_line_def utf8_line parse_trim_line generation_id_new_def split: sum.splits)
  next
    assume "is_err q \<and> w_halted v"
    with run ex show ?thesis by (simp add: current_generation_def Let_def io_bind_def io_return_def is_err_not_ok)
  qed
qed

lemma discard_active:
  assumes run: "discard_sealed store sealed w = (r, w')" and current: "points_to store (w_fs w) (sg_generation sealed)"
    and gen: "sg_generation sealed \<noteq> 0" and w: "wtree w" "quiet g n w" "dirty_within Z w" "w_halted w \<or> failures w = 0"
    and owned: "sg_store_root sealed = gs_root store"
  shows "\<forall>q. q \<notin> Z \<longrightarrow> w_fs w' q = w_fs w q"
proof (cases "w_halted w")
  case True
  have "stays g n UNIV (discard_sealed store sealed)" by (intro stays_intros) simp
  from halted_inert [OF this run w(1,2) True] show ?thesis by simp
next
  case False
  let ?rest = "\<lambda>current. if current = Some (sg_generation sealed)
       then io_fail (publish_error ''discard_generation'' ''active generation cannot be discarded'')
       else io_bind (remove_directory_if_present (sg_directory sealed) ''discard_generation'') (\<lambda>_.
              io_map_err (io_error ''sync_generations'') (sync_directory (generations_root store)))"
  obtain q v where cur: "current_generation store w = (q, v)" by fastforce
  from staysD [OF stays_current_generation cur w(1-3)]
  have v: "wtree v" "quiet g n v" "\<forall>q. q \<notin> Z \<longrightarrow> w_fs v q = w_fs w q" by (auto simp: step_within_def)
  have rest: "io_bind (current_generation store) ?rest w = (r, w')"
    using run owned by (simp add: discard_sealed_def ensure_owned_def io_bind_def io_return_def)
  from current_generation_unfailing [OF cur current gen] w(4) False have "q = Ok (Some (sg_generation sealed)) \<or> w_halted v" by simp
  then have "w_fs w' = w_fs v"
  proof
    assume "q = Ok (Some (sg_generation sealed))"
    then show ?thesis using rest cur by (simp add: io_bind_def io_fail_def)
  next
    assume halted: "w_halted v"
    have "stays g n UNIV (?rest x)" for x by (auto intro!: stays_intros)
    from halted_inert [OF this _ v(1,2) halted] rest cur show ?thesis by (cases q) (auto simp: io_bind_def)
  qed
  then show ?thesis using v(3) by simp
qed

lemma current_temp_facts:
  "current_temp store gen \<noteq> current_path store" "butlast (current_path store) = generations_root store"
  "generations_root store \<noteq> current_path store" "generations_root store \<noteq> current_temp store gen"
  "under (generations_root store) (current_path store)" "under (generations_root store) (current_temp store gen)"
  by (auto simp: current_temp_def current_path_def under_def dest: arg_cong [where f = length])

lemma stays_write_temp:
  "current_temp store gen \<in> S \<Longrightarrow> stays (generations_root store) n S (write_part operation (current_temp store gen) bytes)"
  by (intro stays_intros) (simp_all add: current_temp_facts)

lemma rename_pointer:
  assumes ren: "rename (current_temp store gen) (current_path store) v = (Inr x, v')"
    and v: "wtree v" "w_fs v (current_temp store gen) = Some (File 384 u (pointer_line gen))" "dirty_within Z v"
      "quiet (generations_root store) n v"
    and Z: "\<And>q. under (generations_root store) q \<Longrightarrow> q \<notin> Z"
  shows "w_fs v' = (w_fs v)(current_path store \<mapsto> File 384 u (pointer_line gen), current_temp store gen := None)
    \<and> wtree v' \<and> quiet (generations_root store) n v' \<and> dirty_within Z v' \<and> \<not> w_halted v'
    \<and> is_dir (w_fs v') (generations_root store)"
proof -
  let ?t = "current_temp store gen" and ?c = "current_path store"
  note moved = rename_Ok [OF ren current_temp_facts(1)]
  have "\<not> is_dir (w_fs v) ?t" using v(2) by (simp add: is_dir_def)
  moreover from this have "\<not> is_dir (w_fs v) ?c" "\<not> under ?t ?c" using moved by (auto simp: rename_ok_def)
  ultimately have fs: "w_fs v' = (w_fs v)(?c \<mapsto> File 384 u (pointer_line gen), ?t := None)"
    using moved v(1,2) by (simp add: move_file)
  have clean: "\<not> w_dirty v (?t @ r)" for r
    using v(3) Z [of "?t @ r"] current_temp_facts(6) under_append unfolding dirty_within_def by blast
  have "dirty_within Z v'"
    using moved v(3) clean by (auto simp: dirty_within_def move_tree_def split: if_splits)
  moreover have "wtree v'" "quiet (generations_root store) n v'"
    using keepsD [OF keeps_rename ren v(1)] keepsD [OF keeps_quiet_rename ren v(4)] current_temp_facts(6) by auto
  moreover have "is_dir (w_fs v) (generations_root store)" using moved by (simp add: rename_ok_def current_temp_facts)
  then have "is_dir (w_fs v') (generations_root store)" unfolding fs by (simp add: is_dir_def current_temp_facts)
  ultimately show ?thesis using fs moved by (simp add: same_machine_def)
qed

text \<open>Writing the pointer: an error before the rename leaves it alone; after it, it names the generation.\<close>

definition republished :: "GenerationStore \<Rightarrow> GenerationId \<Rightarrow> nat \<Rightarrow> path set \<Rightarrow> world \<Rightarrow> world \<Rightarrow> bool" where
  "republished store gen n Z w v \<longleftrightarrow>
     points_to store (w_fs v) gen
     \<and> (\<forall>q. q \<noteq> current_path store \<longrightarrow> q \<noteq> current_temp store gen \<longrightarrow> q \<notin> Z \<longrightarrow> w_fs v q = w_fs w q)
     \<and> wtree v \<and> quiet (generations_root store) n v \<and> dirty_within Z v \<and> \<not> w_halted v
     \<and> is_dir (w_fs v) (generations_root store)"

lemma write_current_cases:
  assumes run: "write_current store gen w = (r, w')"
    and w: "wtree w" "quiet (generations_root store) n w" "dirty_within Z w"
    and Z: "\<And>q. under (generations_root store) q \<Longrightarrow> q \<notin> Z"
  shows "is_err r \<and> step_within (insert (current_temp store gen) Z) w w'
    \<or> (\<exists>v. republished store gen n Z w v
         \<and> io_map_err (io_error ''sync_generations'') (sync_directory (generations_root store)) v = (r, w'))"
proof -
  let ?t = "current_temp store gen" and ?c = "current_path store" and ?g = "generations_root store"
  let ?S = "insert ?t Z"
  have dirty: "dirty_within ?S w" using w(3) by (auto simp: dirty_within_def)
  obtain q v where wr: "write_part ''write_current'' ?t (pointer_line gen) w = (q, v)" by fastforce
  from staysD [OF stays_write_temp [OF insertI1] wr w(1,2) dirty]
  have v: "wtree v" "quiet ?g n v" "step_within ?S w v" "dirty_within ?S v" by auto
  obtain q2 v2 where ren: "rename ?t ?c v = (q2, v2)" by fastforce
  show ?thesis
  proof (cases q)
    case (Inl e)
    then have "r = Inl e" "w' = v" using run wr by (auto simp: write_current_def pointer_line_def io_bind_def)
    then show ?thesis using v by simp
  next
    case (Inr x)
    have "not_link (w_fs w ?t)" using w(2) current_temp_facts(6) by (auto simp: quiet_def linkfree_def)
    then obtain u where written: "w_fs v = (w_fs w)(?t \<mapsto> File 384 u (pointer_line gen))" "w_dirty v = (w_dirty w)(?t := False)"
        "\<not> w_halted v"
      using wr Inr write_sync_Ok [of ?t "pointer_line gen" w x v] by (auto simp: write_part_def io_cases same_machine_def)
    then have clean: "dirty_within Z v" using w(3) by (auto simp: dirty_within_def)
    have rest: "io_bind (io_map_err (io_error ''publish_current'') (rename ?t ?c)) (\<lambda>_.
        io_map_err (io_error ''sync_generations'') (sync_directory ?g)) v = (r, w')"
      using run wr Inr by (simp add: write_current_def pointer_line_def io_bind_def)
    show ?thesis
    proof (cases q2)
      case (Inl e)
      then have "is_err r" "w' = v2" using rest ren by (auto simp: io_bind_def io_map_err_def)
      then show ?thesis
        using rename_Err_within [OF ren [unfolded Inl] v(4) written(3)] step_within_trans [OF v(3)] by simp
    next
      case (Inr y)
      have sync: "io_map_err (io_error ''sync_generations'') (sync_directory ?g) v2 = (r, w')"
        using rest ren Inr by (simp add: io_bind_def io_map_err_def)
      from rename_pointer [OF ren [unfolded Inr] v(1) _ clean v(2) Z] written(1)
      have "republished store gen n Z w v2" by (auto simp: republished_def points_to_def current_temp_facts not_sym [OF current_temp_facts(1)])
      with sync show ?thesis by blast
    qed
  qed
qed


subsection \<open>Publishing\<close>

definition published :: "codecs \<Rightarrow> GenerationStore \<Rightarrow> Candidate \<Rightarrow> fs \<Rightarrow> bool" where
  "published k store c fs \<longleftrightarrow>
     points_to store fs (cd_generation c) \<and> holds_candidate k fs (final_dir store (cd_generation c)) c"

text \<open>The paths a publication writes, besides the pointer.\<close>

definition publication_paths :: "GenerationStore \<Rightarrow> GenerationId \<Rightarrow> u32 \<Rightarrow> path set" where
  "publication_paths store gen pid =
     below (candidate_dir store gen pid) \<union> below (final_dir store gen) \<union> {current_temp store gen}"

definition publication ::
  "codecs \<Rightarrow> GenerationStore \<Rightarrow> Candidate \<Rightarrow> path set \<Rightarrow> nat \<Rightarrow> (CoreError, unit) rresult \<Rightarrow> world \<Rightarrow> world \<Rightarrow> bool" where
  "publication k store c S n r w w' \<longleftrightarrow>
     (\<forall>q. q \<notin> S \<longrightarrow> q \<noteq> current_path store \<longrightarrow> w_fs w' q = w_fs w q)
     \<and> (is_ok r \<longrightarrow> published k store c (w_fs w'))
     \<and> (n \<le> 1 \<longrightarrow> w_fs w' (current_path store) = w_fs w (current_path store) \<or> published k store c (w_fs w'))"

lemma publication_failed:
  "is_err r \<Longrightarrow> step_within S w w' \<Longrightarrow> current_path store \<notin> S \<Longrightarrow> publication k store c S n r w w'"
  by (auto simp: publication_def step_within_def is_err_not_ok)

lemma publication_after:
  assumes "step_within S w v" "current_path store \<notin> S" "publication k store c S n r v w'"
  shows "publication k store c S n r w w'"
  using assms by (auto simp: publication_def step_within_def)

lemma published_cong:
  assumes "published k store c fs" "\<And>q. under (generations_root store) q \<Longrightarrow> fs' q = fs q"
  shows "published k store c fs'"
proof -
  let ?f = "final_dir store (cd_generation c)"
  have "under (generations_root store) (?f @ r)" for r by (simp add: final_dir_def under_def)
  then have "fs' (?f @ r) = fs (?f @ r)" for r by (rule assms(2))
  moreover have "holds_candidate k fs ?f c" using assms(1) by (simp add: published_def)
  ultimately have "holds_candidate k fs' ?f c" by (metis holds_candidate_cong)
  moreover have "fs' (current_path store) = fs (current_path store)" by (rule assms(2) [OF current_temp_facts(5)])
  ultimately show ?thesis using assms(1) by (simp add: published_def points_to_def)
qed

lemma current_not_below: "current_path store \<notin> publication_paths store gen pid"
  using current_temp_facts(1) [of store gen]
  by (simp add: publication_paths_def current_path_def candidate_dir_def final_dir_def under_def current_temp_def)

lemma final_untouched:
  assumes "under (final_dir store gen) q"
  shows "q \<noteq> current_path store" "q \<noteq> current_temp store gen" "under (generations_root store) q"
proof -
  obtain r where q: "q = generations_root store @ show_u64 gen # r" using assms by (auto simp: under_iff final_dir_def)
  show "q \<noteq> current_path store" by (simp add: q current_path_def)
  show "q \<noteq> current_temp store gen" by (simp add: q current_temp_def)
  show "under (generations_root store) q" by (simp add: q under_def)
qed

definition commit_or_discard :: "codecs \<Rightarrow> GenerationStore \<Rightarrow> SealedGeneration \<Rightarrow> (CoreError, unit) io" where
  "commit_or_discard k store sealed =
     io_try (commit_generation k store sealed) (\<lambda>committed.
       case committed of
         Inl e \<Rightarrow> io_try (discard_sealed store sealed) (\<lambda>_. io_fail e)
       | Inr _ \<Rightarrow> io_return ())"

lemma commit_cases:
  assumes run: "commit_generation k store sealed w = (r, w')" and owned: "sg_store_root sealed = gs_root store"
    and w: "wtree w" "quiet (generations_root store) n w" "dirty_within Z w"
    and Z: "\<And>q. under (generations_root store) q \<Longrightarrow> q \<notin> Z"
  shows "is_err r \<and> step_within (insert (current_temp store (sg_generation sealed)) Z) w w'
    \<or> (\<exists>v. republished store (sg_generation sealed) n Z w v
         \<and> io_map_err (io_error ''sync_generations'') (sync_directory (generations_root store)) v = (r, w'))"
proof -
  let ?gen = "sg_generation sealed"
  let ?S = "insert (current_temp store ?gen) Z"
  obtain q v where en: "ensure_sealed_exists k store ?gen w = (q, v)" by fastforce
  from staysD [OF stays_ensure_sealed en w]
  have v: "wtree v" "quiet (generations_root store) n v" "step_within Z w v" "dirty_within Z v" by auto
  then have step: "step_within ?S w v" using w(3) by (auto simp: step_within_def dirty_within_def)
  show ?thesis
  proof (cases q)
    case (Inl e)
    then have "r = Inl e \<and> w' = v"
      using run en owned by (auto simp: commit_generation_def ensure_owned_def io_bind_def io_return_def)
    then show ?thesis using step by simp
  next
    case (Inr x)
    then have wr: "write_current store ?gen v = (r, w')"
      using run en owned by (simp add: commit_generation_def ensure_owned_def io_bind_def io_return_def)
    have "republished store ?gen n Z w v'" if "republished store ?gen n Z v v'" for v'
      using that v(3) by (auto simp: republished_def step_within_def)
    then show ?thesis using write_current_cases [OF wr v(1,2,4) Z] step_within_trans [OF step] by blast
  qed
qed


lemma synced_pointer:
  assumes sync: "io_map_err (io_error ''sync_generations'') (sync_directory (generations_root store)) v = (r, w')"
    and v: "republished store gen n Z w v"
  shows "wtree w' \<and> quiet (generations_root store) n w' \<and> dirty_within Z w' \<and> (\<forall>q. q \<notin> Z \<longrightarrow> w_fs w' q = w_fs v q)
    \<and> (is_err r \<and> n \<le> 1 \<longrightarrow> w_halted w' \<or> failures w' = 0)"
proof -
  let ?g = "generations_root store"
  have facts: "wtree v" "quiet ?g n v" "dirty_within Z v" "\<not> w_halted v" "is_dir (w_fs v) ?g"
    using v by (simp_all add: republished_def)
  obtain q where q: "sync_directory ?g v = (q, w')" "r = map_err (io_error ''sync_generations'') q"
    using sync by (auto simp: io_map_err_def split: prod.splits)
  have "stays ?g n Z (sync_directory ?g)" by (rule stays_reading)
  note kept = staysD [OF this q(1) facts(1-3)]
  have "w_halted w' \<or> failures w' = 0" if "q = Inl e" "n \<le> 1" for e
  proof (rule sync_directory_failed)
    show "sync_directory ?g v = (Inl e, w')" using q(1) that(1) by simp
    show "quiet ?g 1 v" using facts(2) that(2) by (auto simp: quiet_def)
  qed (use facts in \<open>auto simp: is_dir_def not_link_def split: option.splits node.splits\<close>)
  then show ?thesis using kept q(2) by (cases q) (auto simp: step_within_def map_err_def)
qed

lemma stays_commit: "stays (generations_root store) n UNIV (commit_generation k store sealed)"
  unfolding commit_generation_def write_current_def by (intro stays_intros) (simp_all add: current_temp_facts)

lemma republished_publishes:
  assumes u: "republished store (cd_generation c) n Z w u"
    and same: "\<And>q. q \<notin> Z \<Longrightarrow> w_fs x q = w_fs u q"
    and held: "holds_candidate k (w_fs w) (final_dir store (cd_generation c)) c"
    and Z: "\<And>q. under (generations_root store) q \<Longrightarrow> q \<notin> Z"
  shows "published k store c (w_fs x)"
proof -
  let ?f = "final_dir store (cd_generation c)"
  have "w_fs u (?f @ r) = w_fs w (?f @ r)" for r
    using u final_untouched [of store "cd_generation c" "?f @ r"] Z by (simp add: republished_def under_def)
  then have "holds_candidate k (w_fs u) ?f c" using holds_candidate_cong [OF held] by blast
  then have "published k store c (w_fs u)" using u by (simp add: published_def republished_def)
  then show ?thesis by (rule published_cong) (simp add: same Z)
qed

lemma stays_discard_publication:
  assumes "sg_directory sealed = final_dir store gen"
  shows "stays g n (publication_paths store gen pid \<union> Z) (discard_sealed store sealed)"
  using assms by (intro stays_intros) (simp add: publication_paths_def)

lemma publication_paths_facts:
  "insert (current_temp store gen) Z \<subseteq> publication_paths store gen pid \<union> Z"
  "(\<And>q. under (generations_root store) q \<Longrightarrow> q \<notin> Z) \<Longrightarrow> current_path store \<notin> publication_paths store gen pid \<union> Z"
  using current_not_below [of store gen pid] current_temp_facts(5) by (auto simp: publication_paths_def)

lemma dirty_within_mono: "dirty_within Z w \<Longrightarrow> Z \<subseteq> T \<Longrightarrow> dirty_within T w"
  by (auto simp: dirty_within_def)

lemma commit_or_discard_publishes:
  assumes run: "commit_or_discard k store sealed w = (r, w')"
    and sealed: "sealed = \<lparr>sg_store_root = gs_root store, sg_generation = cd_generation c, sg_directory = final_dir store (cd_generation c)\<rparr>"
    and c: "cd_generation c \<noteq> 0" "holds_candidate k (w_fs w) (final_dir store (cd_generation c)) c"
    and w: "wtree w" "quiet (generations_root store) n w" "dirty_within Z w"
    and Z: "\<And>q. under (generations_root store) q \<Longrightarrow> q \<notin> Z"
  shows "publication k store c (publication_paths store (cd_generation c) pid \<union> Z) n r w w'" (is "publication _ _ _ ?S _ _ _ _")
proof -
  let ?gen = "cd_generation c" and ?g = "generations_root store"
  obtain q v where cm: "commit_generation k store sealed w = (q, v)" by fastforce
  obtain q' v' where dc: "discard_sealed store sealed v = (q', v')" by fastforce
  have result: "w' = (if is_err q then v' else v)" "is_ok r = is_ok q"
    using run cm dc by (cases q; auto simp: commit_or_discard_def io_try_def io_fail_def io_return_def)+
  have paths: "insert (current_temp store ?gen) Z \<subseteq> ?S" "current_path store \<notin> ?S"
    using publication_paths_facts [where Z = Z and gen = ?gen and pid = pid and store = store] Z by blast+
  have "stays ?g n ?S (discard_sealed store sealed)" by (rule stays_discard_publication) (simp add: sealed)
  then have discard: "step_within ?S v v'" if "wtree v" "quiet ?g n v" "dirty_within ?S v" using that dc staysD by blast
  from commit_cases [OF cm _ w Z] sealed
  have "is_err q \<and> step_within (insert (current_temp store ?gen) Z) w v
    \<or> (\<exists>u. republished store ?gen n Z w u
         \<and> io_map_err (io_error ''sync_generations'') (sync_directory ?g) u = (q, v))" by simp
  then show ?thesis
  proof
    assume err: "is_err q \<and> step_within (insert (current_temp store ?gen) Z) w v"
    have "wtree v \<and> quiet ?g n v" using staysD [OF stays_commit cm w(1,2)] by (simp add: dirty_within_def)
    moreover have "dirty_within (insert (current_temp store ?gen) Z) w" using w(3) by (auto simp: dirty_within_def)
    then have "step_within ?S w v" "dirty_within ?S v" using step_within_mono [OF _ paths(1)] err by blast+
    ultimately have "step_within ?S w v'" using discard step_within_trans by blast
    then show ?thesis using err result paths(2) by (auto simp: is_err_not_ok intro: publication_failed)
  next
    assume "\<exists>u. republished store ?gen n Z w u
      \<and> io_map_err (io_error ''sync_generations'') (sync_directory ?g) u = (q, v)"
    then obtain u where u: "republished store ?gen n Z w u"
      "io_map_err (io_error ''sync_generations'') (sync_directory ?g) u = (q, v)" by blast
    note v = synced_pointer [OF u(2,1)]
    have new: "published k store c (w_fs x)" if "\<And>p. p \<notin> Z \<Longrightarrow> w_fs x p = w_fs u p" for x
      by (rule republished_publishes [OF u(1) that c(2) Z])
    have kept: "\<forall>p. p \<notin> Z \<longrightarrow> w_fs v' p = w_fs v p" if "is_err q" "n \<le> 1"
    proof (rule discard_active [OF dc])
      show "points_to store (w_fs v) (sg_generation sealed)" using new [of v] v by (simp add: published_def sealed)
    qed (use v that c(1) sealed in auto)
    have "step_within ?S v v'" using discard v dirty_within_mono [of Z v ?S] by blast
    then have "w_fs w' p = w_fs v p" if "p \<notin> ?S" for p using that result(1) by (auto simp: step_within_def)
    moreover have "w_fs v p = w_fs w p" if "p \<notin> ?S" "p \<noteq> current_path store" for p
      using that v u(1) paths(1) by (auto simp: republished_def)
    ultimately show ?thesis using kept new [of v] new [of v'] v result by (auto simp: publication_def is_err_not_ok)
  qed
qed


lemma candidate_inside:
  "under (candidate_dir store gen pid) q \<Longrightarrow> under (generations_root store) q"
  "\<not> under (candidate_dir store gen pid) (final_dir store gen)"
  by (auto simp: candidate_dir_def final_dir_def under_iff)

lemma seal_and_commit_publishes:
  assumes run: "seal_and_commit k store prepared w = (r, w')"
    and prepared: "prepared = \<lparr>pc_store_root = gs_root store, pc_generation = cd_generation c,
      pc_directory = candidate_dir store (cd_generation c) pid\<rparr>"
    and c: "cd_generation c \<noteq> 0" "holds_candidate k (w_fs w) (candidate_dir store (cd_generation c) pid) c"
    and w: "wtree w" "quiet (generations_root store) n w" "dirty_within Z w"
    and Z: "\<And>q. under (generations_root store) q \<Longrightarrow> q \<notin> Z"
  shows "publication k store c (publication_paths store (cd_generation c) pid \<union> Z) n r w w'" (is "publication _ _ _ ?S _ _ _ _")
proof -
  let ?gen = "cd_generation c" and ?g = "generations_root store"
  have paths: "current_path store \<notin> ?S" "Z \<subseteq> ?S" by (rule publication_paths_facts(2) [OF Z]) auto
  have dirty: "dirty_within ?S w" using w(3) paths(2) by (rule dirty_within_mono)
  obtain q v where sl: "seal_candidate store prepared w = (q, v)" by fastforce
  have "stays ?g n ?S (seal_candidate store prepared)"
    by (rule stays_seal) (simp_all add: prepared publication_paths_def candidate_inside(1) [OF under_refl])
  from staysD [OF this sl w(1,2) dirty]
  have v: "wtree v" "quiet ?g n v" "step_within ?S w v" "dirty_within ?S v" by auto
  show ?thesis
  proof (cases q)
    case (Inl e)
    obtain q' v' where dc: "discard_prepared store prepared v = (q', v')" by fastforce
    have "stays ?g n ?S (discard_prepared store prepared)"
      by (rule stays_discard_prepared) (simp add: prepared publication_paths_def)
    from staysD [OF this dc v(1,2,4)] have "step_within ?S w v'" using step_within_trans [OF v(3)] by blast
    moreover have "r = Inl e" "w' = v'"
      using run sl dc Inl by (auto simp: seal_and_commit_def io_try_def io_fail_def)
    ultimately show ?thesis using paths(1) by (auto intro: publication_failed)
  next
    case (Inr sealed)
    have commit: "commit_or_discard k store sealed v = (r, w')"
      using run sl Inr by (simp add: seal_and_commit_def commit_or_discard_def io_try_def)
    have "sealed = \<lparr>sg_store_root = gs_root store, sg_generation = pc_generation prepared, sg_directory = final_dir store ?gen\<rparr>
      \<and> holds_candidate k (w_fs v) (final_dir store ?gen) c \<and> dirty_within Z v \<and> pc_store_root prepared = gs_root store"
    proof (rule seal_candidate_Ok [OF sl [unfolded Inr] _ _ _ w(1,3,2)])
      show "q \<notin> Z" if "under (pc_directory prepared) q" for q
        using that by (intro Z candidate_inside(1) [of store ?gen pid]) (simp add: prepared)
    qed (simp_all add: prepared c(2) candidate_inside(2))
    then have sealed: "sealed = \<lparr>sg_store_root = gs_root store, sg_generation = ?gen, sg_directory = final_dir store ?gen\<rparr>"
      "holds_candidate k (w_fs v) (final_dir store ?gen) c" "dirty_within Z v" by (simp_all add: prepared)
    have "publication k store c ?S n r v w'"
      by (rule commit_or_discard_publishes [OF commit sealed(1) c(1) sealed(2) v(1,2) sealed(3) Z])
    then show ?thesis by (rule publication_after [OF v(3) paths(1)])
  qed
qed


lemma publish_with_path_run:
  "publish_with_path k store c validate w =
     (case prepare_at k store c (candidate_dir store (cd_generation c) (w_pid w)) w of
        (Inl e, v) \<Rightarrow> (Inl e, v)
      | (Inr prepared, v) \<Rightarrow>
          (case validate (prepared_config_path prepared) (cfg_bytes (cd_config c)) (w_fs v) of
             Inl e \<Rightarrow> (Inl e, snd (discard_prepared store prepared v))
           | Inr _ \<Rightarrow> seal_and_commit k store prepared v))"
  unfolding publish_with_path_def io_bind_def prepare_candidate_at
  by (auto simp: run_validator_def io_try_def io_fail_def split: prod.split sum.split)

lemma publish_with_path_publishes:
  assumes run: "publish_with_path k store c validate w = (r, w')" and gen: "cd_generation c \<noteq> 0"
    and w: "wtree w" "quiet (generations_root store) n w" "dirty_within Z w"
    and Z: "\<And>q. under (generations_root store) q \<Longrightarrow> q \<notin> Z"
  shows "publication k store c (publication_paths store (cd_generation c) (w_pid w) \<union> Z) n r w w'"
    (is "publication _ _ _ ?S _ _ _ _")
proof -
  let ?d = "candidate_dir store (cd_generation c) (w_pid w)" and ?g = "generations_root store"
  have paths: "current_path store \<notin> ?S" "Z \<subseteq> ?S" by (rule publication_paths_facts(2) [OF Z]) auto
  have dirty: "dirty_within ?S w" using w(3) paths(2) by (rule dirty_within_mono)
  obtain q v where pr: "prepare_at k store c ?d w = (q, v)" by fastforce
  have "stays ?g n ?S (prepare_at k store c ?d)"
    by (rule stays_prepare_at) (simp_all add: publication_paths_def candidate_inside(1) [OF under_refl])
  from staysD [OF this pr w(1,2) dirty]
  have v: "wtree v" "quiet ?g n v" "step_within ?S w v" "dirty_within ?S v" by auto
  show ?thesis
  proof (cases q)
    case (Inl e)
    then have "r = Inl e" "w' = v"
      using run pr by (simp_all add: publish_with_path_run)
    then show ?thesis using v(3) paths(1) by (auto intro: publication_failed)
  next
    case (Inr prepared)
    from prepare_at_Ok [OF pr [unfolded Inr] w(1,3,2)]
    have prepared: "prepared = \<lparr>pc_store_root = gs_root store, pc_generation = cd_generation c, pc_directory = ?d\<rparr>"
      and held: "holds_candidate k (w_fs v) ?d c" "dirty_within Z v" by auto
    show ?thesis
    proof (cases "validate (prepared_config_path prepared) (cfg_bytes (cd_config c)) (w_fs v)")
      case (Inl e)
      obtain q' v' where dc: "discard_prepared store prepared v = (q', v')" by fastforce
      have "stays ?g n ?S (discard_prepared store prepared)"
        by (rule stays_discard_prepared) (simp add: prepared publication_paths_def)
      from staysD [OF this dc v(1,2,4)] have "step_within ?S w v'" using step_within_trans [OF v(3)] by blast
      moreover have "r = Inl e" "w' = v'"
        using run pr dc Inl \<open>q = Inr prepared\<close> by (simp_all add: publish_with_path_run)
      ultimately show ?thesis using paths(1) by (auto intro: publication_failed)
    next
      case (Inr x)
      then have "seal_and_commit k store prepared v = (r, w')"
        using run pr \<open>q = Inr prepared\<close> by (simp add: publish_with_path_run)
      from seal_and_commit_publishes [OF this prepared gen held(1) v(1,2) held(2) Z]
      show ?thesis by (rule publication_after [OF v(3) paths(1)])
    qed
  qed
qed

subsection \<open>Properties\<close>

text \<open>C3. Publishing a generation is atomic. Whatever the validator says, whatever calls fail and wherever
  the machine crashes: only the staging directory, the directory of the new generation, the pointer
  and its temporary file may change, so every other generation stays as it was. If the call returns \<open>Ok\<close>, the
  pointer names the new generation, and that directory holds exactly the configuration, the manifest
  and the node registry of the candidate. And if at most one call fails, with or without a crash, the
  pointer is untouched or names the complete new generation: it never names a missing or partial one.\<close>

theorem publication_is_atomic:
  assumes run: "publish_with_path k store c validate w = (r, w')" and gen: "cd_generation c \<noteq> 0"
    and w: "tree (w_fs w)" "linkfree (generations_root store) (w_fs w)" "dirty_within Z w"
    and Z: "\<And>q. under (generations_root store) q \<Longrightarrow> q \<notin> Z"
  shows "(\<forall>q. q \<notin> publication_paths store (cd_generation c) (w_pid w) \<longrightarrow> q \<noteq> current_path store \<longrightarrow> q \<notin> Z \<longrightarrow>
        w_fs w' q = w_fs w q)
    \<and> (is_ok r \<longrightarrow> points_to store (w_fs w') (cd_generation c)
        \<and> holds_candidate k (w_fs w') (final_dir store (cd_generation c)) c)
    \<and> (failures w \<le> 1 \<longrightarrow> w_fs w' (current_path store) = w_fs w (current_path store)
        \<or> points_to store (w_fs w') (cd_generation c)
          \<and> holds_candidate k (w_fs w') (final_dir store (cd_generation c)) c)"
proof -
  have "quiet (generations_root store) (failures w) w" using w(2) by (simp add: quiet_def)
  from publish_with_path_publishes [OF run gen w(1) this w(3) Z] show ?thesis
    by (simp add: publication_def published_def)
qed


definition sample_codecs :: codecs where
  "sample_codecs =
     \<lparr>k_sha256 = (\<lambda>bytes. bytes), k_registry_to = (\<lambda>_. Ok ''nodes''), k_registry_from = (\<lambda>_. None),
      k_manifest_to = (\<lambda>m. Ok (gm_config_sha256 m)),
      k_manifest_from = (\<lambda>bytes. Some \<lparr>gm_schema = MANIFEST_SCHEMA, gm_generation = 7, gm_config_sha256 = bytes,
        gm_node_count = 1, gm_node_registry_sha256 = None, gm_source_config_digest = None, gm_source_ids = []\<rparr>)\<rparr>"

definition sample_store :: GenerationStore where
  "sample_store = \<lparr>gs_root = [''data'']\<rparr>"

definition sample_candidate :: Candidate where
  "sample_candidate = candidate_new 7 \<lparr>cfg_bytes = ''{}'', cfg_digest = hex ''{}'', cfg_node_count = 1\<rparr>"

definition store_world :: world where
  "store_world =
     \<lparr>w_fs = (\<lambda>p. if p \<in> {[], [''data''], [''data'', ''generations'']} then Some (Dir 448 0) else None),
      w_dirty = (\<lambda>_. False), w_halted = False, w_outcomes = [Done, Fail 0 []], w_umask = 63, w_pid = 9, w_sequence = 0\<rparr>"

lemma store_world_facts:
  "tree (w_fs store_world)" "linkfree (generations_root sample_store) (w_fs store_world)" "dirty_within {} store_world"
  "failures store_world = 1" "cd_generation sample_candidate \<noteq> 0"
  by (auto simp: store_world_def tree_def is_dir_def linkfree_def dirty_within_def failures_def is_fail_def
      sample_candidate_def candidate_new_def Cons_eq_append_conv append_eq_Cons_conv)

theorem publication_is_atomic_witness:
  "let (r, w') = publish_with_path sample_codecs sample_store sample_candidate (\<lambda>_ _ _. Ok ()) store_world
   in w_fs w' [''data'', ''other''] = None
      \<and> (w_fs w' (current_path sample_store) = None \<or> points_to sample_store (w_fs w') 7)"
proof -
  obtain r w' where run: "publish_with_path sample_codecs sample_store sample_candidate (\<lambda>_ _ _. Ok ()) store_world = (r, w')"
    by fastforce
  have gen: "cd_generation sample_candidate = 7" by (simp add: sample_candidate_def candidate_new_def)
  have outside: "[''data'', ''other''] \<notin> publication_paths sample_store 7 (w_pid store_world)"
    "[''data'', ''other''] \<noteq> current_path sample_store"
    by (simp_all add: publication_paths_def sample_store_def candidate_dir_def final_dir_def current_temp_def current_path_def
        generations_root_def under_def)
  have none: "w_fs store_world [''data'', ''other''] = None" "w_fs store_world (current_path sample_store) = None"
    by (simp_all add: store_world_def current_path_def generations_root_def sample_store_def)
  from publication_is_atomic [OF run store_world_facts(5,1,2,3)] outside none store_world_facts(4) gen
  show ?thesis by (auto simp: run)
qed

text \<open>With two failing calls the guarantee on the pointer is lost: when publishing has failed in the
  synchronisation after the pointer was renamed, \<open>discard_sealed\<close> asks whether the pointer names the
  generation, and \<open>current_generation\<close> takes an error of \<open>exists\<close> for an absent pointer. The
  directory the pointer names is then removed.\<close>

lemma failed_lookup_discards_the_active_generation:
  assumes "points_to store (w_fs w) gen" "w_fs w (final_dir store gen) = Some (Dir m u)"
    "w_outcomes w = [Fail 0 []]" "\<not> w_halted w" "linkfree (generations_root store) (w_fs w)"
    "is_dir (w_fs w) (generations_root store)"
  shows "\<exists>w'. discard_sealed store \<lparr>sg_store_root = gs_root store, sg_generation = gen, sg_directory = final_dir store gen\<rparr> w = (Ok (), w')
    \<and> points_to store (w_fs w') gen \<and> w_fs w' (final_dir store gen) = None"
proof -
  let ?v = "w\<lparr>w_outcomes := []\<rparr>" and ?f = "final_dir store gen" and ?g = "generations_root store"
  let ?v' = "remove_trees [?f] ?v"
  have plain: "not_link (w_fs w ?f)" "not_link (w_fs w ?g)" using assms(2,5) by (auto simp: linkfree_def)
  have kept: "w_fs ?v' q = w_fs w q" if "\<not> under ?f q" for q using that by (simp add: remove_trees_def)
  have "\<not> under ?f ?g" by (simp add: final_dir_def under_def)
  then have g: "w_fs ?v' ?g = w_fs w ?g" using kept by blast
  have cur: "current_generation store w = (Ok None, ?v)"
    using assms(3,4)
    by (simp add: current_generation_def Let_def io_bind_def io_exists_try io_try_def open_dir_def fs_call_def no_part_def io_return_def)
  have rm: "remove_directory_if_present ?f ''discard_generation'' ?v = (Ok (), ?v')"
    using assms(2,4) resolve_not_link [of "w_fs w" ?f] plain(1)
    by (simp add: remove_directory_if_present_def io_bind_def io_exists_try io_try_def open_dir_def fs_call_def
        io_return_def io_map_err_def remove_dir_all_def map_err_def)
  have "is_dir (w_fs w) ?g" "resolve MAXSYMLINKS (w_fs ?v') ?g = Some ?g"
    using assms(6) plain(2) g resolve_not_link [of "w_fs ?v'" ?g] by simp_all
  then have sync: "sync_directory ?g ?v' = (Ok (), ?v')"
    using assms(4) g by (auto simp: sync_directory_def open_dir_def fs_call_def io_bind_def is_dir_def remove_trees_def split: option.splits)
  have "points_to store (w_fs ?v') gen"
    using assms(1) kept [of "current_path store"] by (simp add: points_to_def current_path_def final_dir_def under_def)
  moreover have "w_fs ?v' ?f = None" by (simp add: remove_trees_def)
  moreover have "discard_sealed store \<lparr>sg_store_root = gs_root store, sg_generation = gen, sg_directory = ?f\<rparr> w = (Ok (), ?v')"
    by (simp add: discard_sealed_def ensure_owned_def io_bind_def io_return_def cur rm sync io_map_err_def map_err_def)
  ultimately show ?thesis by blast
qed

text \<open>The pointer a publication leaves is the one read after a restart.\<close>

lemma pointer_is_read:
  assumes "points_to store (w_fs w) gen" "gen \<noteq> 0"
  shows "\<exists>v. current_generation store (restart [] w) = (Ok (Some gen), v)"
proof -
  obtain u where c: "w_fs w (current_path store) = Some (File 384 u (pointer_line gen))" using assms(1) by (auto simp: points_to_def)
  then have "resolve MAXSYMLINKS (w_fs w) (current_path store) = Some (current_path store)" by (simp add: resolve_not_link)
  then show ?thesis
    using c assms(2)
    by (simp add: current_generation_def Let_def io_bind_def io_exists_def path_exists_def read_to_string_def read_file_def
        fs_call_def restart_def io_map_err_def map_err_def io_return_def io_result_def pointer_line_def utf8_line
        parse_trim_line generation_id_new_def)
qed


end
