(* ===== verification/Texts.thy ===== *)
theory Texts
  imports Json
begin

section \<open>Texts of system tools\<close>

text \<open>
  The functions of \<open>str\<close> with which the outputs of system tools are read and rule texts are
  written, on the bytes of the text.
\<close>

definition ends_with :: "string \<Rightarrow> string \<Rightarrow> bool" where
  "ends_with s p \<longleftrightarrow> length p \<le> length s \<and> drop (length s - length p) s = p"

definition strip_suffix :: "string \<Rightarrow> string \<Rightarrow> string option" where
  "strip_suffix s p = (if ends_with s p then Some (take (length s - length p) s) else None)"

fun contains :: "string \<Rightarrow> string \<Rightarrow> bool" where
  "contains [] p = (p = [])"
| "contains (c # s) p = (starts_with (c # s) p \<or> contains s p)"

fun split_once :: "char \<Rightarrow> string \<Rightarrow> (string \<times> string) option" where
  "split_once d [] = None"
| "split_once d (c # s) =
     (if c = d then Some ([], s) else map_option (\<lambda>(a, b). (c # a, b)) (split_once d s))"

text \<open>\<open>str::lines\<close>: a line ends with a line feed, before which a carriage return is dropped; there is
  no empty line after the last line feed.\<close>

definition strip_cr :: "string \<Rightarrow> string" where
  "strip_cr s = (case strip_suffix s [CHR 0x0D] of None \<Rightarrow> s | Some t \<Rightarrow> t)"

definition lines :: "string \<Rightarrow> string list" where
  "lines s =
     (let parts = split_on (CHR 0x0A) s
      in map strip_cr (butlast parts) @ (if last parts = [] then [] else [last parts]))"

definition is_ascii_whitespace :: "char \<Rightarrow> bool" where
  "is_ascii_whitespace c \<longleftrightarrow> (of_char c :: nat) \<in> {9, 10, 12, 13, 32}"

fun split_ascii_ws :: "string \<Rightarrow> string \<Rightarrow> string list" where
  "split_ascii_ws run [] = (if run = [] then [] else [rev run])"
| "split_ascii_ws run (c # s) =
     (if is_ascii_whitespace c then (if run = [] then [] else [rev run]) @ split_ascii_ws [] s
      else split_ascii_ws (c # run) s)"

definition split_ascii_whitespace :: "string \<Rightarrow> string list" where
  "split_ascii_whitespace s = split_ascii_ws [] s"

definition to_ascii_lowercase :: "string \<Rightarrow> string" where
  "to_ascii_lowercase = map (\<lambda>c. if is_ascii_uppercase c then char_of (of_char c + 32 :: nat) else c)"

definition windows2 :: "'a list \<Rightarrow> ('a \<times> 'a) list" where
  "windows2 xs = zip xs (tl xs)"

text \<open>\<open>parse::<u8>\<close> and \<open>parse::<u32>\<close>, and \<open>u32::from_str_radix(_, 16)\<close>.\<close>

definition parse_u8 :: "string \<Rightarrow> u8 option" where
  "parse_u8 s = (case parse_u64 s of None \<Rightarrow> None | Some w \<Rightarrow> if unat w < 2 ^ 8 then Some (ucast w) else None)"

definition parse_u32_decimal :: "string \<Rightarrow> u32 option" where
  "parse_u32_decimal s = (case parse_u64 s of None \<Rightarrow> None | Some w \<Rightarrow> if unat w < 2 ^ 32 then Some (ucast w) else None)"

definition hex_digit_value :: "char \<Rightarrow> nat option" where
  "hex_digit_value c =
     (let x = (of_char c :: nat)
      in if 48 \<le> x \<and> x \<le> 57 then Some (x - 48)
         else if 97 \<le> x \<and> x \<le> 102 then Some (x - 87)
         else if 65 \<le> x \<and> x \<le> 70 then Some (x - 55)
         else None)"

fun parse_hex_digits :: "nat \<Rightarrow> string \<Rightarrow> nat option" where
  "parse_hex_digits acc [] = Some acc"
| "parse_hex_digits acc (c # s) =
     (case hex_digit_value c of
        None \<Rightarrow> None
      | Some d \<Rightarrow> if acc * 16 + d < 2 ^ 32 then parse_hex_digits (acc * 16 + d) s else None)"

definition parse_u32_hex :: "string \<Rightarrow> u32 option" where
  "parse_u32_hex s =
     (let t = (case s of c # cs \<Rightarrow> if c = CHR ''+'' then cs else s | [] \<Rightarrow> [])
      in if t = [] then None else map_option word_of_nat (parse_hex_digits 0 t))"

text \<open>\<open>{}\<close> and \<open>{:x}\<close> of unsigned integers.\<close>

definition hex_digit_char :: "nat \<Rightarrow> char" where
  "hex_digit_char d = (if d < 10 then char_of (48 + d) else char_of (87 + d))"

fun show_hex_nat :: "nat \<Rightarrow> string" where
  "show_hex_nat n =
     (if n < 16 then [hex_digit_char n] else show_hex_nat (n div 16) @ [hex_digit_char (n mod 16)])"

declare show_hex_nat.simps [simp del]

definition show_hex :: "u32 \<Rightarrow> string" where
  "show_hex w = show_hex_nat (unat w)"

definition show_u32 :: "u32 \<Rightarrow> string" where
  "show_u32 w = show_nat (unat w)"

definition show_u16 :: "u16 \<Rightarrow> string" where
  "show_u16 w = show_nat (unat w)"

subsection \<open>Hexadecimal numerals are read back\<close>

lemma hex_digit_value_char: "d < 16 \<Longrightarrow> hex_digit_value (hex_digit_char d) = Some d"
  by (auto simp: hex_digit_value_def hex_digit_char_def Let_def)

lemma parse_hex_append:
  "parse_hex_digits a (s @ t) = Option.bind (parse_hex_digits a s) (\<lambda>b. parse_hex_digits b t)"
  by (induction s arbitrary: a) (auto split: option.split)

lemma parse_hex_show: "n < 2 ^ 32 \<Longrightarrow> parse_hex_digits 0 (show_hex_nat n) = Some n"
proof (induction n rule: show_hex_nat.induct)
  case (1 n)
  show ?case
  proof (cases "n < 16")
    case True
    then show ?thesis by (simp add: show_hex_nat.simps [of n] hex_digit_value_char)
  next
    case False
    with 1 have "parse_hex_digits 0 (show_hex_nat (n div 16)) = Some (n div 16)" by simp
    with False 1(2) show ?thesis
      by (simp add: show_hex_nat.simps [of n] parse_hex_append hex_digit_value_char)
  qed
qed

lemma show_hex_nat_nonempty [simp]: "show_hex_nat n \<noteq> []"
  by (simp add: show_hex_nat.simps [of n])

lemma hex_digit_char_not_plus: "d < 16 \<Longrightarrow> hex_digit_char d \<noteq> CHR ''+''"
  using hex_digit_value_char [of d] by (auto simp: hex_digit_value_def)

lemma show_hex_nat_hd: "hd (show_hex_nat n) \<noteq> CHR ''+''"
proof (induction n rule: show_hex_nat.induct)
  case (1 n)
  then show ?case by (cases "n < 16") (simp_all add: show_hex_nat.simps [of n] hex_digit_char_not_plus)
qed

lemma parse_show_hex: "parse_u32_hex (show_hex w) = Some w"
proof -
  obtain c cs where s: "show_hex_nat (unat w) = c # cs" by (meson neq_Nil_conv show_hex_nat_nonempty)
  then have "c \<noteq> CHR ''+''" using show_hex_nat_hd [of "unat w"] by simp
  moreover have "parse_hex_digits 0 (show_hex_nat (unat w)) = Some (unat w)"
    by (rule parse_hex_show) (use unsigned_less [of w] in simp)
  ultimately show ?thesis using s by (simp add: parse_u32_hex_def show_hex_def)
qed

end
