(* ===== verification/Netfilter.thy ===== *)
theory Netfilter
  imports Capability
begin

section \<open>Netfilter payloads\<close>

text \<open>
  The lines of the payloads that \<open>nethop-android/src/plan.rs\<close> and \<open>forwarding.rs\<close> write for
  \<open>iptables-restore\<close>: one constructor for each shape of line the source formats, and the text of each. The
  second part gives the lines their documented meaning for one packet (\<open>iptables(8)\<close>: the rules of a chain in
  order, the first terminal target decides), which only the statements of the properties use.
\<close>

subsection \<open>Lines and their text\<close>

datatype rmatch =
    Comment string
  | OutIf string
  | InIf string
  | MarkIs u32 u32
  | MarkNot u32 u32
  | Proto string
  | Dport u16
  | CtReply
  | UidOwner u32
  | Dst string
  | SocketTransparent

datatype rtarget = RETURN | ACCEPT | DROP | SET_XMARK u32 u32 | JUMP string | TPROXY u16 u32 u32

datatype rline =
    TableLine NetfilterTable
  | NewChain string
  | Append string "rmatch list" rtarget
  | Delete string "rmatch list" rtarget
  | Flush string
  | DeleteChain string
  | CommitLine

definition mark_mask_text :: "u32 \<Rightarrow> u32 \<Rightarrow> string" where
  "mark_mask_text mark msk = ''0x'' @ show_hex mark @ ''/0x'' @ show_hex msk"

fun match_text :: "rmatch \<Rightarrow> string" where
  "match_text (Comment owner) = ''-m comment --comment '' @ owner"
| "match_text (OutIf name) = ''-o '' @ name"
| "match_text (InIf name) = ''-i '' @ name"
| "match_text (MarkIs m k) = ''-m mark --mark '' @ mark_mask_text m k"
| "match_text (MarkNot m k) = ''-m mark ! --mark '' @ mark_mask_text m k"
| "match_text (Proto p) = ''-p '' @ p"
| "match_text (Dport port) = ''--dport '' @ show_u16 port"
| "match_text CtReply = ''-m conntrack --ctdir REPLY''"
| "match_text (UidOwner uid) = ''-m owner --uid-owner '' @ show_u32 uid"
| "match_text (Dst block) = ''-d '' @ block"
| "match_text SocketTransparent = ''-m socket --transparent''"

fun target_text :: "rtarget \<Rightarrow> string" where
  "target_text RETURN = ''-j RETURN''"
| "target_text ACCEPT = ''-j ACCEPT''"
| "target_text DROP = ''-j DROP''"
| "target_text (SET_XMARK m k) = ''-j MARK --set-xmark '' @ mark_mask_text m k"
| "target_text (JUMP chain) = ''-j '' @ chain"
| "target_text (TPROXY port m k) = ''-j TPROXY --on-port '' @ show_u16 port @ '' --tproxy-mark '' @ mark_mask_text m k"

definition rule_text :: "string \<Rightarrow> string \<Rightarrow> rmatch list \<Rightarrow> rtarget \<Rightarrow> string" where
  "rule_text command chain ms t =
     command @ '' '' @ chain @ '' '' @ concat (map (\<lambda>m. match_text m @ '' '') ms) @ target_text t"

fun line_text :: "rline \<Rightarrow> string" where
  "line_text (TableLine t) = CHR ''*'' # table_as_str t"
| "line_text (NewChain c) = ''-N '' @ c"
| "line_text (Append c ms t) = rule_text ''-A'' c ms t"
| "line_text (Delete c ms t) = rule_text ''-D'' c ms t"
| "line_text (Flush c) = ''-F '' @ c"
| "line_text (DeleteChain c) = ''-X '' @ c"
| "line_text CommitLine = ''COMMIT''"

text \<open>\<open>lines.join("\n") + "\n"\<close>\<close>

definition payload_text :: "rline list \<Rightarrow> string" where
  "payload_text ls = concat (map (\<lambda>l. line_text l @ [CHR 10]) ls)"

subsection \<open>The meaning of the rules for a packet\<close>

text \<open>Whether the destination lies in an address block is left to the packet; a packet without a local socket has no owner.\<close>

record packet =
  pk_out :: string
  pk_in :: string
  pk_proto :: string
  pk_dport :: "u16 option"
  pk_reply :: bool
  pk_uid :: "u32 option"
  pk_within :: "string \<Rightarrow> bool"
  pk_transparent :: bool
  pk_mark :: u32

fun matches :: "packet \<Rightarrow> rmatch \<Rightarrow> bool" where
  "matches p (Comment owner) = True"
| "matches p (OutIf name) = (pk_out p = name)"
| "matches p (InIf name) = (pk_in p = name)"
| "matches p (MarkIs m k) = (pk_mark p AND k = m)"
| "matches p (MarkNot m k) = (pk_mark p AND k \<noteq> m)"
| "matches p (Proto q) = (pk_proto p = q)"
| "matches p (Dport port) = (pk_dport p = Some port)"
| "matches p CtReply = pk_reply p"
| "matches p (UidOwner uid) = (pk_uid p = Some uid)"
| "matches p (Dst block) = pk_within p block"
| "matches p SocketTransparent = pk_transparent p"

definition set_xmark :: "u32 \<Rightarrow> u32 \<Rightarrow> packet \<Rightarrow> packet" where
  "set_xmark m k p = p\<lparr>pk_mark := (pk_mark p AND NOT k) XOR m\<rparr>"

datatype verdict = Returned | Accepted | Dropped | Proxied u16

type_synonym rule = "rmatch list \<times> rtarget"

fun chain_rules :: "rline list \<Rightarrow> string \<Rightarrow> rule list" where
  "chain_rules [] c = []"
| "chain_rules (Append d ms t # ls) c = (if d = c then [(ms, t)] else []) @ chain_rules ls c"
| "chain_rules (_ # ls) c = chain_rules ls c"

text \<open>The first argument bounds the depth of jumps; \<^const>\<open>None\<close> is a traversal that goes deeper.\<close>

function traverse :: "nat \<Rightarrow> rline list \<Rightarrow> rule list \<Rightarrow> packet \<Rightarrow> (packet \<times> verdict) option" where
  "traverse d ls [] p = Some (p, Returned)"
| "traverse d ls ((ms, t) # rs) p =
     (if \<not> list_all (matches p) ms then traverse d ls rs p
      else case t of
        RETURN \<Rightarrow> Some (p, Returned)
      | ACCEPT \<Rightarrow> Some (p, Accepted)
      | DROP \<Rightarrow> Some (p, Dropped)
      | SET_XMARK m k \<Rightarrow> traverse d ls rs (set_xmark m k p)
      | TPROXY port m k \<Rightarrow> Some (set_xmark m k p, Proxied port)
      | JUMP c \<Rightarrow>
          (case d of
             0 \<Rightarrow> None
           | Suc d' \<Rightarrow>
               (case traverse d' ls (chain_rules ls c) p of
                  None \<Rightarrow> None
                | Some (p', v) \<Rightarrow> if v = Returned then traverse d ls rs p' else Some (p', v))))"
  by pat_completeness auto
termination by (relation "measures [\<lambda>(d, _). d, \<lambda>(_, _, rs, _). length rs]") auto

text \<open>What the rules a payload puts on a built-in hook do to a packet. Two jumps are enough for every payload.\<close>

definition on_hook :: "string \<Rightarrow> rline list \<Rightarrow> packet \<Rightarrow> (packet \<times> verdict) option" where
  "on_hook hook ls p = traverse 2 ls (chain_rules ls hook) p"


subsection \<open>Runs of rules\<close>

lemma chain_rules_append [simp]: "chain_rules (xs @ ys) c = chain_rules xs c @ chain_rules ys c"
  by (induction xs c rule: chain_rules.induct) auto

lemma chain_rules_map [simp]:
  "chain_rules (map (\<lambda>x. Append d (f x) t) xs) c = (if d = c then map (\<lambda>x. (f x, t)) xs else [])"
  by (induction xs) auto

lemma chain_rules_concat [simp]: "chain_rules (concat (map f xs)) c = concat (map (\<lambda>x. chain_rules (f x) c) xs)"
  by (induction xs) auto

definition hit :: "packet \<Rightarrow> rule list \<Rightarrow> bool" where
  "hit p rs \<longleftrightarrow> list_ex (\<lambda>(ms, t). list_all (matches p) ms) rs"

lemma hit_simps [simp]:
  "\<not> hit p []"
  "hit p ((ms, t) # rs) \<longleftrightarrow> list_all (matches p) ms \<or> hit p rs"
  "hit p (rs @ rs') \<longleftrightarrow> hit p rs \<or> hit p rs'"
  "hit p (map (\<lambda>x. (f x, t)) xs) \<longleftrightarrow> (\<exists>x \<in> set xs. list_all (matches p) (f x))"
  "hit p (concat (map g xs)) \<longleftrightarrow> (\<exists>x \<in> set xs. hit p (g x))"
  by (auto simp: hit_def list_ex_iff)

text \<open>A run of rules with one terminal target gives its verdict to the packets one of them matches.\<close>

lemma traverse_return:
  "list_all (\<lambda>r. snd r = RETURN) rs \<Longrightarrow>
   traverse d ls (rs @ rs') p = (if hit p rs then Some (p, Returned) else traverse d ls rs' p)"
  by (induction rs) auto

lemma traverse_drop:
  "list_all (\<lambda>r. snd r = DROP) rs \<Longrightarrow>
   traverse d ls (rs @ rs') p = (if hit p rs then Some (p, Dropped) else traverse d ls rs' p)"
  by (induction rs) auto

text \<open>Marks are set idempotently when they lie in their mask, and only matches on marks see them.\<close>

lemma set_xmark_idem: "m AND NOT k = 0 \<Longrightarrow> set_xmark m k (set_xmark m k p) = set_xmark m k p"
proof -
  assume m: "m AND NOT k = 0"
  have "((x AND NOT k) XOR m) AND NOT k = (x AND NOT k) XOR (m AND NOT k)" for x
    by (rule bit_word_eqI) (auto simp: bit_and_iff bit_xor_iff bit_not_iff)
  with m show ?thesis by (simp add: set_xmark_def)
qed

lemma set_xmark_marks: "m AND NOT k = 0 \<Longrightarrow> pk_mark (set_xmark m k p) AND k = m"
proof -
  assume m: "m AND NOT k = 0"
  have "((x AND NOT k) XOR m) AND k = m AND k" for x
    by (rule bit_word_eqI) (auto simp: bit_and_iff bit_xor_iff bit_not_iff)
  moreover have "m = (m AND NOT k) OR (m AND k)"
    by (rule bit_word_eqI) (auto simp: bit_and_iff bit_or_iff bit_not_iff)
  ultimately show ?thesis using m by (simp add: set_xmark_def)
qed

lemma set_xmark_fields [simp]:
  "pk_out (set_xmark m k p) = pk_out p" "pk_in (set_xmark m k p) = pk_in p" "pk_proto (set_xmark m k p) = pk_proto p"
  "pk_dport (set_xmark m k p) = pk_dport p" "pk_reply (set_xmark m k p) = pk_reply p"
  "pk_uid (set_xmark m k p) = pk_uid p" "pk_within (set_xmark m k p) = pk_within p"
  "pk_transparent (set_xmark m k p) = pk_transparent p"
  by (simp_all add: set_xmark_def)

fun sees_mark :: "rmatch \<Rightarrow> bool" where
  "sees_mark (MarkIs m k) = True"
| "sees_mark (MarkNot m k) = True"
| "sees_mark _ = False"

definition blind :: "rule list \<Rightarrow> bool" where
  "blind rs \<longleftrightarrow> list_all (\<lambda>(ms, t). \<not> list_ex sees_mark ms) rs"

lemma blind_simps [simp]:
  "blind []"
  "blind ((ms, t) # rs) \<longleftrightarrow> \<not> list_ex sees_mark ms \<and> blind rs"
  "blind (rs @ rs') \<longleftrightarrow> blind rs \<and> blind rs'"
  "blind (map (\<lambda>x. (f x, t)) xs) \<longleftrightarrow> (\<forall>x \<in> set xs. \<not> list_ex sees_mark (f x))"
  "blind (concat (map g xs)) \<longleftrightarrow> (\<forall>x \<in> set xs. blind (g x))"
  by (auto simp: blind_def list_all_iff)

lemma matches_set_xmark: "\<not> sees_mark r \<Longrightarrow> matches (set_xmark m k p) r = matches p r"
  by (cases r) simp_all

lemma hit_set_xmark: "blind rs \<Longrightarrow> hit (set_xmark m k p) rs = hit p rs"
  by (induction rs) (auto simp: matches_set_xmark list_all_iff list_ex_iff)

lemma traverse_marks:
  assumes "list_all (\<lambda>r. snd r = SET_XMARK m k) rs" "blind rs" "m AND NOT k = 0"
  shows "traverse d ls (rs @ rs') p = traverse d ls rs' (if hit p rs then set_xmark m k p else p)"
  using assms(1,2)
proof (induction rs arbitrary: p)
  case (Cons r rs)
  then show ?case
    by (cases r) (auto simp: hit_set_xmark set_xmark_idem [OF assms(3)] matches_set_xmark list_all_iff list_ex_iff)
qed simp

end
