(* ===== verification/Glob.thy ===== *)
theory Glob
  imports Texts "HOL-Library.While_Combinator"
begin

section \<open>Interface patterns\<close>

text \<open>
  \<open>glob_matches\<close> of \<open>nethop-android/src/plan.rs\<close>, the matcher of interface names against patterns with
  \<open>?\<close> and \<open>*\<close>. The source backtracks iteratively to the last star; it is proved to return, and to
  decide the textbook meaning of patterns.
\<close>

record glob_state =
  gl_pattern :: nat
  gl_value :: nat
  gl_star :: "nat option"
  gl_retry :: nat
  gl_failed :: bool

definition glob_step :: "string \<Rightarrow> string \<Rightarrow> glob_state \<Rightarrow> glob_state" where
  "glob_step pattern value s =
     (if gl_pattern s < length pattern
         \<and> (pattern ! gl_pattern s = CHR ''?'' \<or> pattern ! gl_pattern s = value ! gl_value s)
      then s\<lparr>gl_pattern := gl_pattern s + 1, gl_value := gl_value s + 1\<rparr>
      else if gl_pattern s < length pattern \<and> pattern ! gl_pattern s = CHR ''*''
      then s\<lparr>gl_star := Some (gl_pattern s), gl_pattern := gl_pattern s + 1, gl_retry := gl_value s\<rparr>
      else case gl_star s of
        Some star_index \<Rightarrow>
          s\<lparr>gl_pattern := star_index + 1, gl_retry := gl_retry s + 1, gl_value := gl_retry s + 1\<rparr>
      | None \<Rightarrow> s\<lparr>gl_failed := True\<rparr>)"

definition glob_init :: glob_state where
  "glob_init = \<lparr>gl_pattern = 0, gl_value = 0, gl_star = None, gl_retry = 0, gl_failed = False\<rparr>"

text \<open>The loop that skips trailing stars.\<close>

definition skip_stars :: "string \<Rightarrow> nat \<Rightarrow> nat" where
  "skip_stars pattern i = i + length (takeWhile (\<lambda>c. c = CHR ''*'') (drop i pattern))"

text \<open>\<^const>\<open>None\<close> would mean that the loop does not end; a failed state is the early \<open>return false\<close>.\<close>

definition glob_matches :: "string \<Rightarrow> string \<Rightarrow> bool option" where
  "glob_matches pattern value =
     map_option (\<lambda>s. \<not> gl_failed s \<and> skip_stars pattern (gl_pattern s) = length pattern)
       (while_option (\<lambda>s. gl_value s < length value \<and> \<not> gl_failed s) (glob_step pattern value) glob_init)"

subsection \<open>The meaning of a pattern\<close>

text \<open>A star stands for any text, a question mark for any one character, and any other character for itself.\<close>

fun glob :: "string \<Rightarrow> string \<Rightarrow> bool" where
  "glob [] v = (v = [])"
| "glob (c # p) v =
     (if c = CHR ''*'' then list_ex (\<lambda>n. glob p (drop n v)) [0..<Suc (length v)]
      else v \<noteq> [] \<and> (c = CHR ''?'' \<or> c = hd v) \<and> glob p (tl v))"

declare glob.simps(2) [simp del]

lemma glob_star: "glob (CHR ''*'' # p) v \<longleftrightarrow> (\<exists>n \<le> length v. glob p (drop n v))"
  by (simp add: glob.simps list_ex_iff Bex_def less_Suc_eq_le del: upt_Suc)

lemma glob_star_iff: "glob (CHR ''*'' # p) v \<longleftrightarrow> (\<exists>n. glob p (drop n v))"
proof -
  have "drop n v = drop (min n (length v)) v" for n
    by (simp add: min_def)
  then show ?thesis unfolding glob_star by (metis min.cobounded2)
qed

lemma glob_char: "c \<noteq> CHR ''*'' \<Longrightarrow> glob (c # p) (x # v) \<longleftrightarrow> (c = CHR ''?'' \<or> c = x) \<and> glob p v"
  by (simp add: glob.simps)

lemma glob_char_Nil: "c \<noteq> CHR ''*'' \<Longrightarrow> \<not> glob (c # p) []"
  by (simp add: glob.simps)

text \<open>A pattern that starts with a star matches more when text is put in front.\<close>

lemma glob_star_mono: "glob (CHR ''*'' # p) (drop n v) \<Longrightarrow> glob (CHR ''*'' # p) v"
  by (auto simp: glob_star_iff)

lemma glob_Nil: "glob p [] \<longleftrightarrow> list_all (\<lambda>c. c = CHR ''*'') p"
proof (induction p)
  case (Cons c p)
  then show ?case by (cases "c = CHR ''*''") (simp_all add: glob_star_iff glob_char_Nil)
qed simp

text \<open>A segment without stars matches texts of its own length.\<close>

definition seg :: "string \<Rightarrow> string \<Rightarrow> bool" where
  "seg p v \<longleftrightarrow> list_all2 (\<lambda>c x. c = CHR ''?'' \<or> c = x) p v"

lemma glob_seg:
  assumes "CHR ''*'' \<notin> set p"
  shows "glob (p @ q) v \<longleftrightarrow> length p \<le> length v \<and> seg p (take (length p) v) \<and> glob q (drop (length p) v)"
  using assms
proof (induction p arbitrary: v)
  case (Cons c p)
  then have c: "c \<noteq> CHR ''*''" "CHR ''*'' \<notin> set p"
    by auto
  show ?case using c
    by (cases v) (simp_all add: glob_char glob_char_Nil Cons.IH [OF c(2)] seg_def conj_ac)
qed (simp add: seg_def)

subsection \<open>The invariant of the loop\<close>

definition between :: "nat \<Rightarrow> nat \<Rightarrow> 'a list \<Rightarrow> 'a list" where
  "between i j xs = take (j - i) (drop i xs)"

definition glob_inv :: "string \<Rightarrow> string \<Rightarrow> glob_state \<Rightarrow> bool" where
  "glob_inv p v s \<longleftrightarrow>
     gl_pattern s \<le> length p \<and> gl_value s \<le> length v \<and> gl_retry s \<le> gl_value s
     \<and> (if gl_failed s then \<not> glob p v
        else case gl_star s of
          None \<Rightarrow> glob p v \<longleftrightarrow> glob (drop (gl_pattern s) p) (drop (gl_value s) v)
        | Some i \<Rightarrow>
            i < gl_pattern s \<and> p ! i = CHR ''*'' \<and> gl_pattern s - Suc i = gl_value s - gl_retry s
            \<and> CHR ''*'' \<notin> set (between (Suc i) (gl_pattern s) p)
            \<and> seg (between (Suc i) (gl_pattern s) p) (between (gl_retry s) (gl_value s) v)
            \<and> (glob p v \<longleftrightarrow> glob (drop i p) (drop (gl_retry s) v)))"

lemma between_snoc: "i \<le> j \<Longrightarrow> j < length xs \<Longrightarrow> between i (Suc j) xs = between i j xs @ [xs ! j]"
  by (simp add: between_def Suc_diff_le take_Suc_conv_app_nth)

lemma between_drop: "i \<le> j \<Longrightarrow> j \<le> length xs \<Longrightarrow> drop i xs = between i j xs @ drop j xs"
  using append_take_drop_id [of "j - i" "drop i xs"] by (simp add: between_def)

lemma length_between: "j \<le> length xs \<Longrightarrow> length (between i j xs) = j - i"
  by (simp add: between_def)

text \<open>After the last star, the pattern consists of the segment already compared and the rest.\<close>

lemma star_split:
  assumes "i < j" "j \<le> length p" "p ! i = CHR ''*''"
  shows "drop i p = CHR ''*'' # between (Suc i) j p @ drop j p"
  using assms between_drop [of "Suc i" j p] Cons_nth_drop_Suc [of i p] by simp

lemma star_unfold: "glob (CHR ''*'' # p) v \<longleftrightarrow> glob p v \<or> glob (CHR ''*'' # p) (tl v)"
proof -
  have "(\<exists>n. P n) \<longleftrightarrow> P 0 \<or> (\<exists>n. P (Suc n))" for P :: "nat \<Rightarrow> bool"
    by (metis nat.exhaust)
  from this [of "\<lambda>n. glob p (drop n v)"] show ?thesis
    by (simp only: glob_star_iff drop_Suc drop_0 id_apply)
qed


lemma seg_length: "seg p v \<Longrightarrow> length p = length v"
  unfolding seg_def by (rule list_all2_lengthD)

text \<open>The three ways on from a state whose segment \<open>p\<close> agrees with the text \<open>u\<close>.\<close>

lemma segment_done:
  assumes "CHR ''*'' \<notin> set p" "seg p u"
  shows "glob q v \<Longrightarrow> glob (CHR ''*'' # p @ q) (u @ v)"
    and "glob (CHR ''*'' # p @ q) (u @ v) \<Longrightarrow> \<exists>n. glob q (drop n v)"
proof -
  show "glob (CHR ''*'' # p @ q) (u @ v)" if "glob q v"
    using that assms star_unfold [of "p @ q" "u @ v"] seg_length [OF assms(2)] by (simp add: glob_seg)
  show "\<exists>n. glob q (drop n v)" if m: "glob (CHR ''*'' # p @ q) (u @ v)"
  proof -
    from m obtain n where "glob q (drop (length p) (drop n (u @ v)))"
      using glob_seg [OF assms(1)] by (auto simp: glob_star_iff)
    then show ?thesis using seg_length [OF assms(2)] by auto
  qed
qed

lemma segment_star:
  assumes "CHR ''*'' \<notin> set p" "seg p u"
  shows "glob (CHR ''*'' # p @ CHR ''*'' # q) (u @ v) \<longleftrightarrow> glob (CHR ''*'' # q) v"
  using segment_done [OF assms, of "CHR ''*'' # q" v] glob_star_mono by blast

lemma segment_end:
  assumes "CHR ''*'' \<notin> set p" "seg p u"
  shows "glob (CHR ''*'' # p @ q) u \<longleftrightarrow> glob q []"
  using segment_done [OF assms, of q "[]"] by auto

lemma segment_mismatch:
  assumes "CHR ''*'' \<notin> set p" "seg p u" "\<not> glob q v"
  shows "glob (CHR ''*'' # p @ q) (u @ v) \<longleftrightarrow> glob (CHR ''*'' # p @ q) (tl (u @ v))"
  using assms star_unfold [of "p @ q" "u @ v"] seg_length [OF assms(2)] by (simp add: glob_seg)

lemma mismatch:
  assumes "j < length v" "i < length p \<Longrightarrow> p ! i \<noteq> CHR ''?'' \<and> p ! i \<noteq> v ! j \<and> p ! i \<noteq> CHR ''*''" "i \<le> length p"
  shows "\<not> glob (drop i p) (drop j v)"
proof (cases "i < length p")
  case True
  then show ?thesis using assms Cons_nth_drop_Suc [OF True, symmetric] Cons_nth_drop_Suc [OF assms(1), symmetric]
    by (simp add: glob_char)
next
  case False
  then show ?thesis using assms by simp
qed

lemma glob_inv_init: "glob_inv p v glob_init"
  by (simp add: glob_inv_def glob_init_def)

lemma nth_drop_pair: "i < length xs \<Longrightarrow> drop i xs = xs ! i # drop (Suc i) xs"
  by (rule Cons_nth_drop_Suc [symmetric])

lemma star_view:
  assumes "glob_inv p v s" "\<not> gl_failed s" "gl_star s = Some m"
  obtains a u where "drop m p = CHR ''*'' # a @ drop (gl_pattern s) p" "drop (gl_retry s) v = u @ drop (gl_value s) v"
    "CHR ''*'' \<notin> set a" "seg a u"
    "glob p v \<longleftrightarrow> glob (CHR ''*'' # a @ drop (gl_pattern s) p) (u @ drop (gl_value s) v)"
proof -
  let ?a = "between (Suc m) (gl_pattern s) p" and ?u = "between (gl_retry s) (gl_value s) v"
  from assms have d: "drop m p = CHR ''*'' # ?a @ drop (gl_pattern s) p" "drop (gl_retry s) v = ?u @ drop (gl_value s) v"
    by (simp_all add: glob_inv_def star_split between_drop)
  moreover from assms have "CHR ''*'' \<notin> set ?a" "seg ?a ?u" "glob p v \<longleftrightarrow> glob (drop m p) (drop (gl_retry s) v)"
    by (simp_all add: glob_inv_def)
  ultimately show ?thesis by (metis that)
qed

lemma glob_inv_star:
  assumes inv: "glob_inv p v s" and run: "gl_value s < length v" "\<not> gl_failed s"
    and star: "gl_pattern s < length p" "p ! gl_pattern s = CHR ''*''"
  shows "glob p v \<longleftrightarrow> glob (drop (gl_pattern s) p) (drop (gl_value s) v)"
proof (cases "gl_star s")
  case None
  with inv run show ?thesis by (simp add: glob_inv_def)
next
  case (Some m)
  from star_view [OF inv run(2) Some] star show ?thesis
    by (metis nth_drop_pair segment_star)
qed

lemma glob_inv_miss:
  assumes inv: "glob_inv p v s" and run: "gl_value s < length v" "\<not> gl_failed s" and m: "gl_star s = Some m"
    and miss: "\<not> glob (drop (gl_pattern s) p) (drop (gl_value s) v)"
  shows "glob p v \<longleftrightarrow> glob (drop m p) (drop (Suc (gl_retry s)) v)"
proof -
  from star_view [OF inv run(2) m] obtain a u
    where d: "drop m p = CHR ''*'' # a @ drop (gl_pattern s) p" "drop (gl_retry s) v = u @ drop (gl_value s) v"
      and a: "CHR ''*'' \<notin> set a" "seg a u"
      and g: "glob p v \<longleftrightarrow> glob (CHR ''*'' # a @ drop (gl_pattern s) p) (u @ drop (gl_value s) v)"
    by metis
  have "drop (Suc (gl_retry s)) v = tl (drop (gl_retry s) v)"
    by (simp add: drop_Suc tl_drop)
  with segment_mismatch [OF a miss] d g show ?thesis by simp
qed

lemma glob_inv_step:
  assumes inv: "glob_inv p v s" and run: "gl_value s < length v" "\<not> gl_failed s" and v: "CHR ''*'' \<notin> set v"
  shows "glob_inv p v (glob_step p v s)"
proof -
  let ?i = "gl_pattern s" and ?j = "gl_value s" and ?r = "gl_retry s"
  have star: "v ! ?j \<noteq> CHR ''*''"
    using v run nth_mem by metis
  consider (take) "?i < length p" "p ! ?i = CHR ''?'' \<or> p ! ?i = v ! ?j"
    | (star) "?i < length p" "p ! ?i = CHR ''*''"
    | (miss) "?i < length p \<Longrightarrow> p ! ?i \<noteq> CHR ''?'' \<and> p ! ?i \<noteq> v ! ?j \<and> p ! ?i \<noteq> CHR ''*''"
    by blast
  then show ?thesis
  proof cases
    case take
    with star have c: "p ! ?i \<noteq> CHR ''*''" by auto
    show ?thesis
    proof (cases "gl_star s")
      case None
      with inv run take c show ?thesis
        by (simp add: glob_inv_def glob_step_def nth_drop_pair [of ?i p] nth_drop_pair [of ?j v] glob_char)
    next
      case (Some m)
      with inv run take c show ?thesis
        by (auto simp: glob_inv_def glob_step_def between_snoc seg_def intro!: list_all2_appendI)
    qed
  next
    case star
    with glob_inv_star [OF inv run] inv run v show ?thesis
      by (auto simp: glob_inv_def glob_step_def between_def seg_def)
  next
    case miss
    from inv have "\<not> glob (drop ?i p) (drop ?j v)"
      using miss run by (intro mismatch) (auto simp: glob_inv_def)
    with miss glob_inv_miss [OF inv run] inv run show ?thesis
      by (auto simp: glob_inv_def glob_step_def between_def seg_def split: option.splits)
  qed
qed


subsection \<open>Termination and the result\<close>

text \<open>The last star only moves right; between two stars the retry position does; between two retries the value does.\<close>

definition glob_measure :: "string \<Rightarrow> string \<Rightarrow> (glob_state \<times> glob_state) set" where
  "glob_measure p v = measures
     [\<lambda>s. length p - (case gl_star s of None \<Rightarrow> 0 | Some m \<Rightarrow> Suc m),
      \<lambda>s. length v - gl_retry s,
      \<lambda>s. length v - gl_value s + (if gl_failed s then 0 else 1)]"

text \<open>The positions stay in order on every pattern and every value, also on values with a literal star.\<close>

definition glob_shape :: "string \<Rightarrow> string \<Rightarrow> glob_state \<Rightarrow> bool" where
  "glob_shape p v s \<longleftrightarrow>
     gl_pattern s \<le> length p \<and> gl_value s \<le> length v \<and> gl_retry s \<le> gl_value s
     \<and> (\<forall>i. gl_star s = Some i \<longrightarrow> i < gl_pattern s)"

lemma glob_shape_init: "glob_shape p v glob_init"
  by (simp add: glob_shape_def glob_init_def)

lemma glob_shape_step: "glob_shape p v s \<Longrightarrow> gl_value s < length v \<Longrightarrow> glob_shape p v (glob_step p v s)"
  by (auto simp: glob_shape_def glob_step_def split: option.splits)

lemma glob_step_measure:
  assumes "glob_shape p v s" "gl_value s < length v" "\<not> gl_failed s"
  shows "(glob_step p v s, s) \<in> glob_measure p v"
  using assms by (auto simp: glob_measure_def glob_step_def glob_shape_def split: option.splits if_splits)

lemma glob_loop_ends:
  "\<exists>s. while_option (\<lambda>s. gl_value s < length v \<and> \<not> gl_failed s) (glob_step p v) glob_init = Some s"
proof (rule wf_while_option_Some [where P = "glob_shape p v"])
  have "{(t, s). (glob_shape p v s \<and> gl_value s < length v \<and> \<not> gl_failed s) \<and> t = glob_step p v s}
    \<subseteq> glob_measure p v"
    using glob_step_measure by auto
  moreover have "wf (glob_measure p v)"
    by (simp add: glob_measure_def)
  ultimately show "wf {(t, s). (glob_shape p v s \<and> gl_value s < length v \<and> \<not> gl_failed s) \<and> t = glob_step p v s}"
    by (rule wf_subset [rotated])
qed (use glob_shape_step glob_shape_init in auto)

lemma glob_matches_returns: "\<exists>b. glob_matches p v = Some b"
  using glob_loop_ends [of v p] by (auto simp: glob_matches_def)

lemma takeWhile_full: "length (takeWhile P xs) = length xs \<longleftrightarrow> list_all P xs"
  by (induction xs) auto

lemma skip_stars_end:
  assumes "i \<le> length p"
  shows "skip_stars p i = length p \<longleftrightarrow> glob (drop i p) []"
  unfolding glob_Nil takeWhile_full [symmetric] skip_stars_def using assms by auto

lemma glob_inv_end:
  assumes "glob_inv p v s" "\<not> (gl_value s < length v \<and> \<not> gl_failed s)"
  shows "(\<not> gl_failed s \<and> skip_stars p (gl_pattern s) = length p) \<longleftrightarrow> glob p v"
proof (cases "gl_failed s")
  case True
  with assms show ?thesis by (simp add: glob_inv_def)
next
  case False
  with assms have d: "drop (gl_value s) v = []" "gl_pattern s \<le> length p"
    by (auto simp: glob_inv_def)
  have "glob p v \<longleftrightarrow> glob (drop (gl_pattern s) p) []"
  proof (cases "gl_star s")
    case None
    with assms False d show ?thesis by (simp add: glob_inv_def)
  next
    case (Some m)
    with star_view [OF assms(1) False Some] show ?thesis
      by (metis append_Nil2 d(1) segment_end)
  qed
  with False skip_stars_end [OF d(2)] show ?thesis by simp
qed

text \<open>C8. The matcher of interface names ends on every pattern and every name without a literal star, and answers
  exactly what the textbook meaning of the pattern says: its backtracking to the last star only is complete.\<close>

theorem glob_matches_decides_patterns:
  assumes "CHR ''*'' \<notin> set name"
  shows "glob_matches pattern name = Some (glob pattern name)"
proof -
  let ?b = "\<lambda>s. gl_value s < length name \<and> \<not> gl_failed s"
  from glob_loop_ends [of name pattern] obtain s where s: "while_option ?b (glob_step pattern name) glob_init = Some s"
    by blast
  have "glob_inv pattern name s"
    using while_option_rule [where P = "glob_inv pattern name", OF _ s] glob_inv_step glob_inv_init assms by blast
  with glob_inv_end while_option_stop [OF s] s show ?thesis
    by (simp add: glob_matches_def)
qed

theorem glob_matches_decides_patterns_witness:
  "CHR ''*'' \<notin> set ''v4-rmnet_data0'' \<and> glob_matches ''*rm*t?data*'' ''v4-rmnet_data0'' = Some True"
  using glob_matches_decides_patterns [of "''v4-rmnet_data0''" "''*rm*t?data*''"]
  by (simp add: glob.simps upt_rec)

end
