(* ===== verification/Network_Plan.thy ===== *)
theory Network_Plan
  imports Netfilter Glob Capture Generation
begin

section \<open>Plans of the capture network\<close>

text \<open>
  \<open>nethop-android/src/plan.rs\<close>: from a capture policy and a report of the device's capabilities to the ordered
  steps that redirect traffic, each with the step that takes it back. A payload is kept as its lines, whose text
  is \<open>payload_text\<close>. The properties show that the rules do to a packet what the policy's own account of the
  captured users says, and that IPv6 is captured, guarded or absent.
\<close>

subsection \<open>Types\<close>

definition DEFAULT_TUN_BYPASS_MARK :: u32 where "DEFAULT_TUN_BYPASS_MARK = 0x40000000"

datatype PlanSlot = Slot_A | Slot_B

definition slot_suffix :: "PlanSlot \<Rightarrow> string" where
  "slot_suffix s = (case s of Slot_A \<Rightarrow> ''A'' | Slot_B \<Rightarrow> ''B'')"

datatype NetworkOperationKind =
    Ipv6GuardRestore | DnsGuardRestore | ForwardingRestore | PolicyRouteAdd | PolicyRuleAdd | NetfilterRestore

datatype MutationAction = Action_Add | Action_Delete

datatype NetworkOperation =
    Restore IpFamily "rline list"
  | PolicyRoute MutationAction IpFamily u32 string bool
  | PolicyRule MutationAction IpFamily u32 u32 u32 u32

record PlanStep =
  ps_kind :: NetworkOperationKind
  ps_apply :: NetworkOperation
  ps_rollback :: NetworkOperation

record NetworkPlan =
  np_generation :: GenerationId
  np_slot :: PlanSlot
  np_mode :: CaptureMode
  np_capture_interface :: "string option"
  np_allocation :: ResourceCandidate
  np_bypass_mark :: u32
  np_ipv6_captured :: bool
  np_ipv6_guarded :: bool
  np_dns_guarded :: bool
  np_forwarding_interfaces :: "string list"
  np_steps :: "PlanStep list"

definition forwarding_owner :: "GenerationId \<Rightarrow> string" where
  "forwarding_owner generation = ''nethop:fwd:g='' @ show_u64 generation"

definition tproxy_owner :: "GenerationId \<Rightarrow> string" where
  "tproxy_owner generation = ''nethop:g='' @ show_u64 generation"

definition tun_owner :: "GenerationId \<Rightarrow> string" where
  "tun_owner generation = ''nethop:tun:g='' @ show_u64 generation"

definition forwarding_owner_marker :: "NetworkPlan \<Rightarrow> string" where
  "forwarding_owner_marker plan = forwarding_owner (np_generation plan)"

definition owner_marker :: "NetworkPlan \<Rightarrow> string" where
  "owner_marker plan = (if np_mode plan = Tun then tun_owner (np_generation plan) else tproxy_owner (np_generation plan))"

definition operation_kinds :: "NetworkPlan \<Rightarrow> NetworkOperationKind list" where
  "operation_kinds plan = map ps_kind (np_steps plan)"

fun restore_payload :: "NetworkOperation \<Rightarrow> (IpFamily \<times> string) option" where
  "restore_payload (Restore family payload) = Some (family, payload_text payload)"
| "restore_payload _ = None"

definition restore_payloads :: "NetworkPlan \<Rightarrow> (IpFamily \<times> string) list" where
  "restore_payloads plan = List.map_filter (\<lambda>step. restore_payload (ps_apply step)) (np_steps plan)"

definition entry_chain :: "NetworkPlan \<Rightarrow> IpFamily \<Rightarrow> string" where
  "entry_chain plan family =
     (if family = Ipv6 \<and> np_ipv6_guarded plan then ''NH_V6G_'' @ slot_suffix (np_slot plan)
      else ''NH_OUT_'' @ slot_suffix (np_slot plan))"

definition capture_chain :: "NetworkPlan \<Rightarrow> IpFamily \<Rightarrow> string" where
  "capture_chain plan family =
     (if np_mode plan = Tun then ''NH_TUN_'' @ slot_suffix (np_slot plan) else entry_chain plan family)"

definition prerouting_chain :: "NetworkPlan \<Rightarrow> string" where
  "prerouting_chain plan = ''NH_PRE_'' @ slot_suffix (np_slot plan)"

definition dns_guard_chain :: "NetworkPlan \<Rightarrow> string" where
  "dns_guard_chain plan = ''NH_DNS_'' @ slot_suffix (np_slot plan)"

datatype NetworkPlanError =
    InvalidGeneration | UnsupportedCaptureMode | PlatformUnavailable | InboundPortMismatch | InboundPortConflict
  | ExistingTunnelConflict | Ipv4TproxyUnavailable | Ipv6LeakRisk | ResourceConflict | TunUnavailable
  | BypassMarkConflict | InterfaceSelectionEmpty | ForwardingInterfaceSelectionEmpty

datatype PlanDiagnosticCode =
    PD_InvalidGeneration | PD_UnsupportedCaptureMode | PD_PlatformUnavailable | PD_InboundPortMismatch
  | PD_InboundPortConflict | PD_ExistingTunnelConflict | PD_Ipv4TproxyUnavailable | PD_Ipv6LeakRisk
  | PD_ResourceConflict | PD_TunUnavailable | PD_BypassMarkConflict | PD_InterfaceSelectionEmpty
  | PD_ForwardingInterfaceSelectionEmpty

definition plan_code_as_str :: "PlanDiagnosticCode \<Rightarrow> string" where
  "plan_code_as_str code =
     (case code of
        PD_InvalidGeneration \<Rightarrow> ''network_plan_invalid_generation''
      | PD_UnsupportedCaptureMode \<Rightarrow> ''network_plan_unsupported_capture_mode''
      | PD_PlatformUnavailable \<Rightarrow> ''network_plan_platform_unavailable''
      | PD_InboundPortMismatch \<Rightarrow> ''network_plan_inbound_port_mismatch''
      | PD_InboundPortConflict \<Rightarrow> ''network_plan_inbound_port_conflict''
      | PD_ExistingTunnelConflict \<Rightarrow> ''network_plan_existing_tunnel_conflict''
      | PD_Ipv4TproxyUnavailable \<Rightarrow> ''network_plan_ipv4_tproxy_unavailable''
      | PD_Ipv6LeakRisk \<Rightarrow> ''network_plan_ipv6_leak_risk''
      | PD_ResourceConflict \<Rightarrow> ''network_plan_resource_conflict''
      | PD_TunUnavailable \<Rightarrow> ''network_plan_tun_unavailable''
      | PD_BypassMarkConflict \<Rightarrow> ''network_plan_bypass_mark_conflict''
      | PD_InterfaceSelectionEmpty \<Rightarrow> ''network_plan_interface_selection_empty''
      | PD_ForwardingInterfaceSelectionEmpty \<Rightarrow> ''network_plan_forwarding_interface_selection_empty'')"

definition plan_error_code :: "NetworkPlanError \<Rightarrow> PlanDiagnosticCode" where
  "plan_error_code e =
     (case e of
        InvalidGeneration \<Rightarrow> PD_InvalidGeneration
      | UnsupportedCaptureMode \<Rightarrow> PD_UnsupportedCaptureMode
      | PlatformUnavailable \<Rightarrow> PD_PlatformUnavailable
      | InboundPortMismatch \<Rightarrow> PD_InboundPortMismatch
      | InboundPortConflict \<Rightarrow> PD_InboundPortConflict
      | ExistingTunnelConflict \<Rightarrow> PD_ExistingTunnelConflict
      | Ipv4TproxyUnavailable \<Rightarrow> PD_Ipv4TproxyUnavailable
      | Ipv6LeakRisk \<Rightarrow> PD_Ipv6LeakRisk
      | ResourceConflict \<Rightarrow> PD_ResourceConflict
      | TunUnavailable \<Rightarrow> PD_TunUnavailable
      | BypassMarkConflict \<Rightarrow> PD_BypassMarkConflict
      | InterfaceSelectionEmpty \<Rightarrow> PD_InterfaceSelectionEmpty
      | ForwardingInterfaceSelectionEmpty \<Rightarrow> PD_ForwardingInterfaceSelectionEmpty)"


subsection \<open>Interfaces\<close>

definition is_wifi_interface :: "string \<Rightarrow> bool" where
  "is_wifi_interface name = list_ex (starts_with name) [''wlan'', ''wifi'', ''swlan'']"

definition is_mobile_interface :: "string \<Rightarrow> bool" where
  "is_mobile_interface name =
     list_ex (starts_with name) [''rmnet'', ''ccmni'', ''pdp'', ''wwan'', ''v4-rmnet'', ''r_rmnet'', ''clat'']"

definition is_hotspot_interface :: "string \<Rightarrow> bool" where
  "is_hotspot_interface name =
     (if list_ex (starts_with name) [''ap'', ''softap'', ''swlan''] then True
      else case strip_prefix name ''wlan'' of
        None \<Rightarrow> False
      | Some suffix \<Rightarrow> (case parse_u8 suffix of None \<Rightarrow> False | Some index \<Rightarrow> 0 < index))"

definition is_usb_tether_interface :: "string \<Rightarrow> bool" where
  "is_usb_tether_interface name = list_ex (starts_with name) [''rndis'', ''usb'']"

definition selects_interface :: "InterfacePolicy \<Rightarrow> string \<Rightarrow> bool" where
  "selects_interface policy name \<longleftrightarrow>
     name \<noteq> ''lo''
     \<and> (if if_include policy = [] then (if_mobile policy \<and> is_mobile_interface name) \<or> (if_wifi policy \<and> is_wifi_interface name)
        else list_ex (\<lambda>pattern. glob_matches pattern name = Some True) (if_include policy))
     \<and> \<not> list_ex (\<lambda>pattern. glob_matches pattern name = Some True) (if_exclude policy)"

definition resolve_interfaces :: "InterfacePolicy \<Rightarrow> string list \<Rightarrow> (NetworkPlanError, string list option) rresult" where
  "resolve_interfaces policy available =
     (if is_unrestricted policy then Ok None
      else let selected = remdups_adj (sort (filter (selects_interface policy) available))
           in if selected = [] then Err InterfaceSelectionEmpty else Ok (Some selected))"

definition resolve_forwarding_interfaces :: "ForwardingPolicy \<Rightarrow> string list \<Rightarrow> (NetworkPlanError, string list) rresult" where
  "resolve_forwarding_interfaces policy available =
     (if \<not> forwarding_enabled policy then Ok []
      else let selected = remdups_adj (sort (filter (\<lambda>name. (fw_hotspot policy \<and> is_hotspot_interface name)
                 \<or> (fw_usb policy \<and> is_usb_tether_interface name)) available))
           in if selected = [] \<or> length selected > 8 then Err ForwardingInterfaceSelectionEmpty else Ok selected)"

definition reserved_destinations :: "IpFamily \<Rightarrow> string list" where
  "reserved_destinations family =
     (case family of
        Ipv4 \<Rightarrow> [''0.0.0.0/8'', ''10.0.0.0/8'', ''100.64.0.0/10'', ''127.0.0.0/8'', ''169.254.0.0/16'',
                 ''172.16.0.0/12'', ''192.168.0.0/16'', ''224.0.0.0/4'', ''240.0.0.0/4'']
      | Ipv6 \<Rightarrow> [''::/128'', ''::1/128'', ''fe80::/10'', ''fc00::/7'', ''ff00::/8''])"

subsection \<open>Payloads\<close>

definition output_uid_bypasses :: "string \<Rightarrow> CapturePolicy \<Rightarrow> rline list" where
  "output_uid_bypasses chain policy = map (\<lambda>uid. Append chain [UidOwner uid] RETURN) (cp_exclude_uids policy)"

definition output_capture_rules ::
  "string \<Rightarrow> CapturePolicy \<Rightarrow> ResourceCandidate \<Rightarrow> string list option \<Rightarrow> rline list" where
  "output_capture_rules chain policy a interfaces =
     (let capture = SET_XMARK (rc_mark a) (rc_mask a)
      in case interfaces of
           Some interfaces \<Rightarrow>
             concat (map (\<lambda>interface.
               if cp_include_uids policy = [] then [Append chain [OutIf interface] capture]
               else map (\<lambda>uid. Append chain [OutIf interface, UidOwner uid] capture) (cp_include_uids policy)) interfaces)
         | None \<Rightarrow>
             if cp_include_uids policy = [] then [Append chain [] capture]
             else map (\<lambda>uid. Append chain [UidOwner uid] capture) (cp_include_uids policy))"

definition dns_drops :: "string \<Rightarrow> string list option \<Rightarrow> string \<Rightarrow> u16 \<Rightarrow> rline list" where
  "dns_drops chain interfaces protocol port =
     (case interfaces of
        Some interfaces \<Rightarrow> map (\<lambda>interface. Append chain [OutIf interface, Proto protocol, Dport port] DROP) interfaces
      | None \<Rightarrow> [Append chain [Proto protocol, Dport port] DROP])"

definition dns_guard_payloads ::
  "PlanSlot \<Rightarrow> CapturePolicy \<Rightarrow> ResourceCandidate \<Rightarrow> string \<Rightarrow> string list option \<Rightarrow> rline list \<times> rline list" where
  "dns_guard_payloads slot policy a owner interfaces =
     (let chain = ''NH_DNS_'' @ slot_suffix slot
      in ([TableLine Filter,
           NewChain chain,
           Append ''OUTPUT'' [Comment owner] (JUMP chain),
           Append chain [OutIf ''lo''] RETURN,
           Append chain [MarkIs (rc_mark a) (rc_mask a)] RETURN,
           Append chain [MarkIs (unwrap_or DEFAULT_TUN_BYPASS_MARK (cp_bypass_mark policy)) 0xffffffff] RETURN]
          @ dns_drops chain interfaces ''udp'' 53 @ dns_drops chain interfaces ''tcp'' 53
          @ dns_drops chain interfaces ''tcp'' 853
          @ [Append chain [] RETURN, CommitLine],
          [TableLine Filter,
           Delete ''OUTPUT'' [Comment owner] (JUMP chain),
           Flush chain,
           DeleteChain chain,
           CommitLine]))"

definition tun_payloads ::
  "PlanSlot \<Rightarrow> CapturePolicy \<Rightarrow> ResourceCandidate \<Rightarrow> string \<Rightarrow> string list option \<Rightarrow> rline list \<times> rline list" where
  "tun_payloads slot policy a owner interfaces =
     (let chain = ''NH_TUN_'' @ slot_suffix slot
      in ([TableLine Mangle,
           NewChain chain,
           Append ''OUTPUT'' [Comment owner] (JUMP chain),
           Append chain [MarkIs (unwrap_or DEFAULT_TUN_BYPASS_MARK (cp_bypass_mark policy)) (rc_mask a)] RETURN,
           Append chain [OutIf ''lo''] RETURN,
           Append chain [CtReply] ACCEPT]
          @ output_uid_bypasses chain policy
          @ output_capture_rules chain policy a interfaces
          @ [Append chain [] RETURN, CommitLine],
          [TableLine Mangle,
           Delete ''OUTPUT'' [Comment owner] (JUMP chain),
           Flush chain,
           DeleteChain chain,
           CommitLine]))"

definition tproxy_payloads ::
  "IpFamily \<Rightarrow> PlanSlot \<Rightarrow> CapturePolicy \<Rightarrow> ResourceCandidate \<Rightarrow> u16 \<Rightarrow> string \<Rightarrow> string list option
   \<Rightarrow> rline list \<times> rline list" where
  "tproxy_payloads family slot policy a inbound_port owner interfaces =
     (let suffix = slot_suffix slot;
          output_chain = ''NH_OUT_'' @ suffix;
          prerouting_chain = ''NH_PRE_'' @ suffix;
          divert_chain = ''NH_DIV_'' @ suffix;
          capture = SET_XMARK (rc_mark a) (rc_mask a);
          marked = MarkIs (rc_mark a) (rc_mask a);
          tproxy = TPROXY inbound_port (rc_mark a) (rc_mask a)
      in ([TableLine Mangle,
           NewChain output_chain,
           NewChain prerouting_chain,
           NewChain divert_chain,
           Append ''OUTPUT'' [Comment owner] (JUMP output_chain),
           Append ''PREROUTING'' [Comment owner] (JUMP prerouting_chain),
           Append output_chain
             [MarkIs (unwrap_or DEFAULT_TUN_BYPASS_MARK (cp_bypass_mark policy)) (rc_mask a)] RETURN,
           Append output_chain [CtReply] ACCEPT,
           Append prerouting_chain [CtReply] ACCEPT,
           Append output_chain [Proto ''tcp'', Dport 53] capture,
           Append output_chain [Proto ''udp'', Dport 53] capture]
          @ output_uid_bypasses output_chain policy
          @ map (\<lambda>destination. Append output_chain [Dst destination] RETURN) (reserved_destinations family)
          @ output_capture_rules output_chain policy a interfaces
          @ [Append divert_chain [] capture,
             Append divert_chain [] ACCEPT]
          @ (if cp_proxy_tcp policy
             then [Append prerouting_chain [Proto ''tcp'', SocketTransparent] (JUMP divert_chain)] else [])
          @ [Append prerouting_chain [InIf ''lo'', MarkNot (rc_mark a) (rc_mask a)] RETURN,
             Append prerouting_chain [Proto ''tcp'', Dport 53, marked] tproxy,
             Append prerouting_chain [Proto ''udp'', Dport 53, marked] tproxy]
          @ (if cp_proxy_tcp policy then [Append prerouting_chain [Proto ''tcp'', marked] tproxy] else [])
          @ (if cp_proxy_udp policy then [Append prerouting_chain [Proto ''udp'', marked] tproxy] else [])
          @ [CommitLine],
          [TableLine Mangle,
           Delete ''OUTPUT'' [Comment owner] (JUMP output_chain),
           Delete ''PREROUTING'' [Comment owner] (JUMP prerouting_chain),
           Flush output_chain,
           Flush prerouting_chain,
           Flush divert_chain,
           DeleteChain output_chain,
           DeleteChain prerouting_chain,
           DeleteChain divert_chain,
           CommitLine]))"


text \<open>\<^const>\<open>None\<close> is the panic of \<open>expect\<close> on a policy without an inbound port.\<close>

definition forwarding_payloads ::
  "PlanSlot \<Rightarrow> CapturePolicy \<Rightarrow> ResourceCandidate \<Rightarrow> string list \<Rightarrow> string \<Rightarrow> (rline list \<times> rline list) option" where
  "forwarding_payloads slot policy a interfaces owner =
     (let chain = ''NH_FWD_'' @ slot_suffix slot
      in case cp_inbound_port policy of
           None \<Rightarrow> None
         | Some inbound_port \<Rightarrow>
             Some ([TableLine Mangle, NewChain chain]
               @ map (\<lambda>interface. Append ''PREROUTING'' [InIf interface, Comment owner] (JUMP chain)) interfaces
               @ [Append chain [CtReply] ACCEPT,
                  Append chain [MarkIs (rc_mark a) (rc_mask a)] RETURN]
               @ map (\<lambda>destination. Append chain [Dst destination] RETURN)
                   [''0.0.0.0/8'', ''10.0.0.0/8'', ''100.64.0.0/10'', ''127.0.0.0/8'', ''169.254.0.0/16'',
                    ''172.16.0.0/12'', ''192.168.0.0/16'', ''224.0.0.0/4'', ''240.0.0.0/4'']
               @ (if cp_proxy_tcp policy
                  then [Append chain [Proto ''tcp''] (TPROXY inbound_port (rc_mark a) (rc_mask a))] else [])
               @ (if cp_proxy_udp policy
                  then [Append chain [Proto ''udp''] (TPROXY inbound_port (rc_mark a) (rc_mask a))] else [])
               @ [CommitLine],
               [TableLine Mangle]
               @ map (\<lambda>interface. Delete ''PREROUTING'' [InIf interface, Comment owner] (JUMP chain)) interfaces
               @ [Flush chain, DeleteChain chain, CommitLine]))"

definition forwarding_ipv6_guard_payloads ::
  "PlanSlot \<Rightarrow> string list \<Rightarrow> string \<Rightarrow> rline list \<times> rline list" where
  "forwarding_ipv6_guard_payloads slot interfaces owner =
     (let chain = ''NH_FWD6_'' @ slot_suffix slot
      in ([TableLine Filter, NewChain chain]
          @ map (\<lambda>interface. Append ''FORWARD'' [InIf interface, Comment owner] (JUMP chain)) interfaces
          @ [Append chain [] DROP, CommitLine],
          [TableLine Filter]
          @ map (\<lambda>interface. Delete ''FORWARD'' [InIf interface, Comment owner] (JUMP chain)) interfaces
          @ [Flush chain, DeleteChain chain, CommitLine]))"

definition ipv6_guard_payloads :: "PlanSlot \<Rightarrow> CapturePolicy \<Rightarrow> string \<Rightarrow> rline list \<times> rline list" where
  "ipv6_guard_payloads slot policy owner =
     (let suffix = slot_suffix slot;
          guard_chain = ''NH_V6G_'' @ suffix;
          block_chain = ''NH_V6B_'' @ suffix
      in ([TableLine Filter,
           NewChain guard_chain,
           NewChain block_chain,
           Append ''OUTPUT'' [Comment owner] (JUMP guard_chain)]
          @ map (\<lambda>uid. Append guard_chain [UidOwner uid] RETURN) (cp_exclude_uids policy)
          @ (if cp_include_uids policy = [] then [Append guard_chain [] (JUMP block_chain)]
             else map (\<lambda>uid. Append guard_chain [UidOwner uid] (JUMP block_chain)) (cp_include_uids policy)
               @ [Append guard_chain [] RETURN])
          @ map (\<lambda>destination. Append block_chain [Dst destination] RETURN)
              [''::1/128'', ''fe80::/10'', ''fc00::/7'', ''ff00::/8'']
          @ [Append block_chain [] DROP, CommitLine],
          [TableLine Filter,
           Delete ''OUTPUT'' [Comment owner] (JUMP guard_chain),
           Flush guard_chain,
           Flush block_chain,
           DeleteChain guard_chain,
           DeleteChain block_chain,
           CommitLine]))"

subsection \<open>Steps and plans\<close>

definition policy_steps :: "IpFamily \<Rightarrow> ResourceCandidate \<Rightarrow> string \<Rightarrow> bool \<Rightarrow> PlanStep list" where
  "policy_steps family a device local =
     [\<lparr>ps_kind = PolicyRouteAdd,
       ps_apply = PolicyRoute Action_Add family (rc_route_table a) device local,
       ps_rollback = PolicyRoute Action_Delete family (rc_route_table a) device local\<rparr>,
      \<lparr>ps_kind = PolicyRuleAdd,
       ps_apply = PolicyRule Action_Add family (rc_mark a) (rc_mask a) (rc_route_table a) (rc_rule_priority a),
       ps_rollback = PolicyRule Action_Delete family (rc_mark a) (rc_mask a) (rc_route_table a) (rc_rule_priority a)\<rparr>]"

definition restore_step :: "NetworkOperationKind \<Rightarrow> IpFamily \<Rightarrow> rline list \<times> rline list \<Rightarrow> PlanStep" where
  "restore_step kind family payloads =
     \<lparr>ps_kind = kind, ps_apply = Restore family (fst payloads), ps_rollback = Restore family (snd payloads)\<rparr>"

definition free_allocation :: "CapabilityReport \<Rightarrow> ResourceCandidate option" where
  "free_allocation report =
     map_option ac_candidate (find (\<lambda>a. is_supported (ac_status a)) (cr_allocations report))"

definition ipv6_presence :: "CapabilityReport \<Rightarrow> (NetworkPlanError, bool) rresult" where
  "ipv6_presence report =
     (case fc_address (cr_ipv6 report) of
        Supported \<Rightarrow> Ok True
      | NotPresent \<Rightarrow> Ok False
      | _ \<Rightarrow> Err Ipv6LeakRisk)"

definition tproxy_forwarding_steps ::
  "GenerationId \<Rightarrow> PlanSlot \<Rightarrow> CapturePolicy \<Rightarrow> ResourceCandidate \<Rightarrow> string list \<Rightarrow> PlanStep list option" where
  "tproxy_forwarding_steps generation slot policy a forwarding =
     (if forwarding = [] then Some []
      else case forwarding_payloads slot policy a forwarding (forwarding_owner generation) of
        None \<Rightarrow> None
      | Some payloads \<Rightarrow>
          Some [restore_step ForwardingRestore Ipv4 payloads,
                restore_step ForwardingRestore Ipv6
                  (forwarding_ipv6_guard_payloads slot forwarding (forwarding_owner generation))])"

definition tproxy_steps ::
  "GenerationId \<Rightarrow> PlanSlot \<Rightarrow> CapturePolicy \<Rightarrow> ResourceCandidate \<Rightarrow> u16 \<Rightarrow> string list option \<Rightarrow> string list
   \<Rightarrow> bool \<Rightarrow> bool \<Rightarrow> PlanStep list option" where
  "tproxy_steps generation slot policy a inbound_port interfaces forwarding ipv6_tproxy ipv6_guarded =
     (let owner = tproxy_owner generation
      in case tproxy_forwarding_steps generation slot policy a forwarding of
           None \<Rightarrow> None
         | Some forwarding_steps \<Rightarrow>
             Some ((if ipv6_guarded
                    then [restore_step Ipv6GuardRestore Ipv6 (ipv6_guard_payloads slot policy owner)] else [])
               @ policy_steps Ipv4 a ''lo'' True
               @ (if ipv6_tproxy then policy_steps Ipv6 a ''lo'' True else [])
               @ [restore_step NetfilterRestore Ipv4
                    (tproxy_payloads Ipv4 slot policy a inbound_port owner interfaces),
                  restore_step DnsGuardRestore Ipv4 (dns_guard_payloads slot policy a owner interfaces)]
               @ forwarding_steps
               @ (if ipv6_tproxy
                  then [restore_step NetfilterRestore Ipv6
                          (tproxy_payloads Ipv6 slot policy a inbound_port owner interfaces),
                        restore_step DnsGuardRestore Ipv6 (dns_guard_payloads slot policy a owner interfaces)]
                  else [])))"

definition build_tproxy ::
  "GenerationId \<Rightarrow> PlanSlot \<Rightarrow> CapturePolicy \<Rightarrow> CapabilityReport \<Rightarrow> (NetworkPlanError, NetworkPlan) rresult option" where
  "build_tproxy generation slot policy report =
     (if generation = 0 then Some (Err InvalidGeneration)
      else if cp_mode policy \<noteq> Tproxy then Some (Err UnsupportedCaptureMode)
      else if \<not> is_supported (cr_android report) \<or> \<not> is_supported (cr_root report) then Some (Err PlatformUnavailable)
      else if cr_active_tunnel report \<noteq> Supported then Some (Err ExistingTunnelConflict)
      else if cp_inbound_port policy \<noteq> Some (cr_inbound_port report) then Some (Err InboundPortMismatch)
      else if cr_inbound_port_status report \<noteq> Supported then Some (Err InboundPortConflict)
      else if \<not> supports_tproxy (cr_ipv4 report) then Some (Err Ipv4TproxyUnavailable)
      else case free_allocation report of
        None \<Rightarrow> Some (Err ResourceConflict)
      | Some a \<Rightarrow>
      case cp_bypass_mark policy of
        None \<Rightarrow> Some (Err BypassMarkConflict)
      | Some bypass_mark \<Rightarrow>
      if bypass_mark AND rc_mask a = rc_mark a then Some (Err BypassMarkConflict)
      else case resolve_interfaces (cp_interface_policy policy) (cr_interfaces report) of
        Inl e \<Rightarrow> Some (Err e)
      | Inr interfaces \<Rightarrow>
      case resolve_forwarding_interfaces (cp_forwarding_policy policy) (cr_interfaces report) of
        Inl e \<Rightarrow> Some (Err e)
      | Inr forwarding \<Rightarrow>
      case ipv6_presence report of
        Inl e \<Rightarrow> Some (Err e)
      | Inr ipv6_present \<Rightarrow>
      let ipv6_tproxy = supports_tproxy (cr_ipv6 report);
          ipv6_guarded = ipv6_present \<and> \<not> ipv6_tproxy
      in if ipv6_guarded \<and> (\<not> cp_ipv6_guard policy \<or> \<not> supports_guard (cr_ipv6 report)) then Some (Err Ipv6LeakRisk)
         else map_option (\<lambda>steps. Ok
           \<lparr>np_generation = generation, np_slot = slot, np_mode = Tproxy, np_capture_interface = None,
            np_allocation = a, np_bypass_mark = bypass_mark, np_ipv6_captured = ipv6_tproxy,
            np_ipv6_guarded = ipv6_guarded, np_dns_guarded = True, np_forwarding_interfaces = forwarding,
            np_steps = steps\<rparr>)
           (tproxy_steps generation slot policy a (cr_inbound_port report) interfaces forwarding
              ipv6_tproxy ipv6_guarded))"

definition tun_steps ::
  "GenerationId \<Rightarrow> PlanSlot \<Rightarrow> CapturePolicy \<Rightarrow> ResourceCandidate \<Rightarrow> string list option \<Rightarrow> bool \<Rightarrow> bool \<Rightarrow> PlanStep list" where
  "tun_steps generation slot policy a interfaces ipv6_present ipv6_guarded =
     (let owner = tun_owner generation
      in (if ipv6_guarded then [restore_step Ipv6GuardRestore Ipv6 (ipv6_guard_payloads slot policy owner)] else [])
         @ policy_steps Ipv4 a ''nethop0'' False
         @ (if ipv6_present then policy_steps Ipv6 a ''nethop0'' False else [])
         @ [restore_step NetfilterRestore Ipv4 (tun_payloads slot policy a owner interfaces),
            restore_step DnsGuardRestore Ipv4 (dns_guard_payloads slot policy a owner interfaces)]
         @ (if ipv6_present
            then [restore_step NetfilterRestore Ipv6 (tun_payloads slot policy a owner interfaces),
                  restore_step DnsGuardRestore Ipv6 (dns_guard_payloads slot policy a owner interfaces)]
            else []))"

definition build_tun ::
  "GenerationId \<Rightarrow> PlanSlot \<Rightarrow> CapturePolicy \<Rightarrow> CapabilityReport \<Rightarrow> (NetworkPlanError, NetworkPlan) rresult" where
  "build_tun generation slot policy report =
     (if generation = 0 then Err InvalidGeneration
      else if cp_mode policy \<noteq> Tun then Err UnsupportedCaptureMode
      else if \<not> is_supported (cr_android report) \<or> \<not> is_supported (cr_root report) then Err PlatformUnavailable
      else if cr_tun report \<noteq> Supported then Err TunUnavailable
      else if cr_active_tunnel report \<noteq> Supported then Err ExistingTunnelConflict
      else case free_allocation report of
        None \<Rightarrow> Err ResourceConflict
      | Some a \<Rightarrow>
      let bypass_mark = unwrap_or DEFAULT_TUN_BYPASS_MARK (cp_bypass_mark policy)
      in if bypass_mark AND rc_mask a = rc_mark a then Err BypassMarkConflict
      else case resolve_interfaces (cp_interface_policy policy) (cr_interfaces report) of
        Inl e \<Rightarrow> Err e
      | Inr interfaces \<Rightarrow>
      case resolve_forwarding_interfaces (cp_forwarding_policy policy) (cr_interfaces report) of
        Inl e \<Rightarrow> Err e
      | Inr forwarding \<Rightarrow>
      case ipv6_presence report of
        Inl e \<Rightarrow> Err e
      | Inr ipv6_present \<Rightarrow>
      let ipv6_guarded = \<not> ipv6_present
      in if ipv6_guarded \<and> (\<not> cp_ipv6_guard policy \<or> \<not> supports_guard (cr_ipv6 report)) then Err Ipv6LeakRisk
         else Ok
           \<lparr>np_generation = generation, np_slot = slot, np_mode = Tun, np_capture_interface = Some ''nethop0'',
            np_allocation = a, np_bypass_mark = bypass_mark, np_ipv6_captured = ipv6_present,
            np_ipv6_guarded = ipv6_guarded, np_dns_guarded = True, np_forwarding_interfaces = forwarding,
            np_steps = tun_steps generation slot policy a interfaces ipv6_present ipv6_guarded\<rparr>)"



subsection \<open>What the capture rules do\<close>

definition in_scope :: "string list option \<Rightarrow> string \<Rightarrow> bool" where
  "in_scope interfaces name = (case interfaces of None \<Rightarrow> True | Some names \<Rightarrow> name \<in> set names)"

definition candidate_ok :: "ResourceCandidate \<Rightarrow> bool" where
  "candidate_ok a \<longleftrightarrow> rc_mark a AND NOT (rc_mask a) = 0"

lemma resource_candidate_new_ok: "resource_candidate_new m k t q = Some a \<Longrightarrow> candidate_ok a"
  by (auto simp: resource_candidate_new_def candidate_ok_def split: if_splits)

abbreviation seize :: "ResourceCandidate \<Rightarrow> packet \<Rightarrow> packet" where
  "seize a \<equiv> set_xmark (rc_mark a) (rc_mask a)"

lemma capture_rules_target:
  "list_all (\<lambda>r. snd r = SET_XMARK (rc_mark a) (rc_mask a)) (chain_rules (output_capture_rules chain policy a interfaces) c)"
  by (auto simp: output_capture_rules_def Let_def list_all_iff split: option.splits)

lemma capture_rules_blind: "blind (chain_rules (output_capture_rules chain policy a interfaces) c)"
  by (auto simp: output_capture_rules_def Let_def split: option.splits)

lemma capture_rules_hit:
  "hit p (chain_rules (output_capture_rules chain policy a interfaces) chain) \<longleftrightarrow>
     in_scope interfaces (pk_out p)
     \<and> (cp_include_uids policy = [] \<or> (\<exists>uid \<in> set (cp_include_uids policy). pk_uid p = Some uid))"
  by (auto simp: output_capture_rules_def Let_def in_scope_def split: option.splits)

lemma capture_rules_elsewhere: "c \<noteq> chain \<Longrightarrow> chain_rules (output_capture_rules chain policy a interfaces) c = []"
  by (auto simp: output_capture_rules_def Let_def split: option.splits)

lemma uid_bypasses_rules:
  "chain_rules (output_uid_bypasses chain policy) c =
     (if chain = c then map (\<lambda>uid. ([UidOwner uid], RETURN)) (cp_exclude_uids policy) else [])"
  by (simp add: output_uid_bypasses_def)

text \<open>The users the policy exempts, the destinations that stay direct, then the captured traffic.\<close>

lemma traverse_capture:
  assumes "policy_wf policy" "candidate_ok a" "pk_uid p = Some uid"
    and rest: "\<And>q. traverse d ls rs q = Some (q, Returned)"
  shows "traverse d ls (chain_rules (output_uid_bypasses c policy) c @ map (\<lambda>block. ([Dst block], RETURN)) blocks
      @ chain_rules (output_capture_rules c policy a interfaces) c @ rs) p =
    Some (if captures_uid policy uid \<and> in_scope interfaces (pk_out p) \<and> \<not> list_ex (pk_within p) blocks
          then seize a p else p, Returned)"
proof -
  have "list_all (\<lambda>r. snd r = RETURN) (chain_rules (output_uid_bypasses c policy) c)"
    and "list_all (\<lambda>r. snd r = RETURN) (map (\<lambda>block. ([Dst block], RETURN)) blocks)"
    by (auto simp: uid_bypasses_rules list_all_iff)
  moreover have "hit p (chain_rules (output_uid_bypasses c policy) c) \<longleftrightarrow> uid \<in> set (cp_exclude_uids policy)"
    using assms(3) by (auto simp: uid_bypasses_rules)
  ultimately show ?thesis
    using assms traverse_marks [OF capture_rules_target capture_rules_blind, of a d ls c policy interfaces c rs p]
    by (auto simp: traverse_return capture_rules_hit captures_uid_wf candidate_ok_def list_ex_iff)
qed

lemma on_hook_jump:
  assumes "chain_rules ls hook = [([Comment owner], JUMP c)]" "traverse 1 ls (chain_rules ls c) p = Some r"
  shows "on_hook hook ls p = Some r"
  using assms by (cases r) (simp add: on_hook_def numeral_2_eq_2)

lemma tun_hook:
  "chain_rules (fst (tun_payloads slot policy a owner interfaces)) ''OUTPUT'' = [([Comment owner], JUMP (''NH_TUN_'' @ slot_suffix slot))]"
  by (simp add: tun_payloads_def Let_def uid_bypasses_rules capture_rules_elsewhere)

lemma tun_output:
  assumes "policy_wf policy" "candidate_ok a"
    and "pk_uid p = Some uid" "\<not> pk_reply p" "pk_out p \<noteq> ''lo''"
    and "pk_mark p AND rc_mask a \<noteq> unwrap_or DEFAULT_TUN_BYPASS_MARK (cp_bypass_mark policy)"
  shows "on_hook ''OUTPUT'' (fst (tun_payloads slot policy a owner interfaces)) p =
    Some (if captures_uid policy uid \<and> in_scope interfaces (pk_out p) then seize a p else p, Returned)"
  using assms(3-6) traverse_capture [OF assms(1-3), of 1 _ "[([], RETURN)]" _ "[]"]
  by (intro on_hook_jump [OF tun_hook]) (simp add: tun_payloads_def Let_def)

definition is_dns :: "packet \<Rightarrow> bool" where
  "is_dns p \<longleftrightarrow> pk_proto p \<in> {''tcp'', ''udp''} \<and> pk_dport p = Some 53"

lemma tproxy_hooks:
  "chain_rules (fst (tproxy_payloads family slot policy a port owner interfaces)) ''OUTPUT''
     = [([Comment owner], JUMP (''NH_OUT_'' @ slot_suffix slot))]"
  "chain_rules (fst (tproxy_payloads family slot policy a port owner interfaces)) ''PREROUTING''
     = [([Comment owner], JUMP (''NH_PRE_'' @ slot_suffix slot))]"
  by (simp_all add: tproxy_payloads_def Let_def uid_bypasses_rules capture_rules_elsewhere)


lemma tproxy_output:
  assumes "policy_wf policy" "candidate_ok a"
    and "pk_uid p = Some uid" "\<not> pk_reply p"
    and "pk_mark p AND rc_mask a \<noteq> unwrap_or DEFAULT_TUN_BYPASS_MARK (cp_bypass_mark policy)"
  shows "on_hook ''OUTPUT'' (fst (tproxy_payloads family slot policy a port owner interfaces)) p =
    Some (if is_dns p \<or> captures_uid policy uid \<and> in_scope interfaces (pk_out p)
               \<and> \<not> list_ex (pk_within p) (reserved_destinations family)
          then seize a p else p, Returned)"
proof -
  define ls where "ls = fst (tproxy_payloads family slot policy a port owner interfaces)"
  define c where "c = ''NH_OUT_'' @ slot_suffix slot"
  define dns where "dns = [([Proto ''tcp'', Dport 53], SET_XMARK (rc_mark a) (rc_mask a)),
    ([Proto ''udp'', Dport 53], SET_XMARK (rc_mark a) (rc_mask a))]"
  define rest where "rest = chain_rules (output_uid_bypasses c policy) c
    @ map (\<lambda>block. ([Dst block], RETURN)) (reserved_destinations family)
    @ chain_rules (output_capture_rules c policy a interfaces) c @ []"
  have rules: "chain_rules ls c =
      ([MarkIs (unwrap_or DEFAULT_TUN_BYPASS_MARK (cp_bypass_mark policy)) (rc_mask a)], RETURN) # ([CtReply], ACCEPT) # dns @ rest"
    by (simp add: tproxy_payloads_def Let_def ls_def c_def dns_def rest_def)
  have dns: "list_all (\<lambda>r. snd r = SET_XMARK (rc_mark a) (rc_mask a)) dns" "blind dns" "hit p dns \<longleftrightarrow> is_dns p"
    by (auto simp: dns_def is_dns_def)
  have "traverse 1 ls (dns @ rest) p = traverse 1 ls rest (if is_dns p then seize a p else p)"
    using traverse_marks [OF dns(1,2), of 1 ls rest p] dns(3) assms(2) by (simp add: candidate_ok_def)
  moreover have "traverse 1 ls rest q =
      Some (if captures_uid policy uid \<and> in_scope interfaces (pk_out q) \<and> \<not> list_ex (pk_within q) (reserved_destinations family)
            then seize a q else q, Returned)" if "pk_uid q = Some uid" for q
    using traverse_capture [OF assms(1,2) that, of 1 ls "[]"] by (simp add: rest_def)
  ultimately have "traverse 1 ls (chain_rules ls c) p =
    Some (if is_dns p \<or> captures_uid policy uid \<and> in_scope interfaces (pk_out p)
               \<and> \<not> list_ex (pk_within p) (reserved_destinations family)
          then seize a p else p, Returned)"
    using assms set_xmark_idem [of "rc_mark a" "rc_mask a" p] by (simp add: rules candidate_ok_def)
  then show ?thesis
    unfolding ls_def c_def by (rule on_hook_jump [OF tproxy_hooks(1)])
qed

definition proxied_protocol :: "CapturePolicy \<Rightarrow> packet \<Rightarrow> bool" where
  "proxied_protocol policy p \<longleftrightarrow>
     is_dns p \<or> cp_proxy_tcp policy \<and> pk_proto p = ''tcp'' \<or> cp_proxy_udp policy \<and> pk_proto p = ''udp''"

lemma tproxy_prerouting:
  assumes "\<not> pk_reply p" "\<not> pk_transparent p" "pk_in p = ''lo''"
  shows "on_hook ''PREROUTING'' (fst (tproxy_payloads family slot policy a port owner interfaces)) p =
    Some (if pk_mark p AND rc_mask a = rc_mark a \<and> proxied_protocol policy p
          then (seize a p, Proxied port) else (p, Returned))"
proof -
  let ?ls = "fst (tproxy_payloads family slot policy a port owner interfaces)"
  have "traverse 1 ?ls (chain_rules ?ls (''NH_PRE_'' @ slot_suffix slot)) p =
    Some (if pk_mark p AND rc_mask a = rc_mark a \<and> proxied_protocol policy p
          then (seize a p, Proxied port) else (p, Returned))"
    using assms by (auto simp: tproxy_payloads_def Let_def uid_bypasses_rules capture_rules_elsewhere
        proxied_protocol_def is_dns_def)
  then show ?thesis by (intro on_hook_jump [OF tproxy_hooks(2)])
qed


subsection \<open>The guards\<close>

definition guard_blocks :: "string list" where
  "guard_blocks = [''::1/128'', ''fe80::/10'', ''fc00::/7'', ''ff00::/8'']"

lemma guard_block_chain:
  "traverse d ls (chain_rules (fst (ipv6_guard_payloads slot policy owner)) (''NH_V6B_'' @ slot_suffix slot)) p =
     Some (p, if list_ex (pk_within p) guard_blocks then Returned else Dropped)"
  by (simp add: ipv6_guard_payloads_def Let_def guard_blocks_def)

lemma traverse_jumps:
  assumes "list_all (\<lambda>r. snd r = JUMP c) rs" "traverse 0 ls (chain_rules ls c) p = Some (p, v)"
    and "traverse 1 ls rs' p = Some (p, Returned)"
  shows "traverse 1 ls (rs @ rs') p = Some (p, if hit p rs then v else Returned)"
  using assms(1) assms(2,3) by (induction rs) (auto simp: hit_def)

lemma guard_hook:
  "chain_rules (fst (ipv6_guard_payloads slot policy owner)) ''OUTPUT'' = [([Comment owner], JUMP (''NH_V6G_'' @ slot_suffix slot))]"
  by (simp add: ipv6_guard_payloads_def Let_def)

lemma ipv6_guard_output:
  assumes "policy_wf policy" "pk_uid p = Some uid"
  shows "on_hook ''OUTPUT'' (fst (ipv6_guard_payloads slot policy owner)) p =
    Some (p, if captures_uid policy uid \<and> \<not> list_ex (pk_within p) guard_blocks then Dropped else Returned)"
proof -
  define ls where "ls = fst (ipv6_guard_payloads slot policy owner)"
  define b where "b = ''NH_V6B_'' @ slot_suffix slot"
  define c where "c = ''NH_V6G_'' @ slot_suffix slot"
  define jumps where "jumps = (if cp_include_uids policy = [] then [([], JUMP b)]
    else map (\<lambda>uid. ([UidOwner uid], JUMP b)) (cp_include_uids policy))"
  define rest where "rest = (if cp_include_uids policy = [] then [] else [([] :: rmatch list, RETURN)])"
  define outs where "outs = map (\<lambda>uid. ([UidOwner uid], RETURN)) (cp_exclude_uids policy)"
  have rules: "chain_rules ls c = outs @ jumps @ rest"
    by (simp add: ls_def ipv6_guard_payloads_def Let_def b_def c_def jumps_def rest_def outs_def)
  have "traverse 1 ls (jumps @ rest) p =
    Some (p, if hit p jumps then if list_ex (pk_within p) guard_blocks then Returned else Dropped else Returned)"
    by (rule traverse_jumps [where c = b])
      (auto simp: jumps_def rest_def list_all_iff guard_block_chain [of _ _ slot policy owner, folded ls_def b_def])
  moreover have "list_all (\<lambda>r. snd r = RETURN) outs"
    by (auto simp: outs_def list_all_iff)
  moreover have "hit p outs \<longleftrightarrow> uid \<in> set (cp_exclude_uids policy)"
    "hit p jumps \<longleftrightarrow> cp_include_uids policy = [] \<or> uid \<in> set (cp_include_uids policy)"
    using assms(2) by (auto simp: outs_def jumps_def)
  ultimately have "traverse 1 ls (chain_rules ls c) p =
    Some (p, if captures_uid policy uid \<and> \<not> list_ex (pk_within p) guard_blocks then Dropped else Returned)"
    by (auto simp: rules traverse_return captures_uid_wf [OF assms(1)])
  then show ?thesis
    unfolding ls_def c_def by (rule on_hook_jump [OF guard_hook])
qed

lemma dns_hook:
  "chain_rules (fst (dns_guard_payloads slot policy a owner interfaces)) ''OUTPUT'' = [([Comment owner], JUMP (''NH_DNS_'' @ slot_suffix slot))]"
  by (auto simp: dns_guard_payloads_def Let_def dns_drops_def split: option.splits)

definition is_plain_dns :: "packet \<Rightarrow> bool" where
  "is_plain_dns p \<longleftrightarrow> is_dns p \<or> pk_proto p = ''tcp'' \<and> pk_dport p = Some 853"

lemma dns_guard_output:
  "on_hook ''OUTPUT'' (fst (dns_guard_payloads slot policy a owner interfaces)) p =
    Some (p, if is_plain_dns p \<and> in_scope interfaces (pk_out p) \<and> pk_out p \<noteq> ''lo''
                \<and> pk_mark p AND rc_mask a \<noteq> rc_mark a
                \<and> pk_mark p \<noteq> unwrap_or DEFAULT_TUN_BYPASS_MARK (cp_bypass_mark policy)
             then Dropped else Returned)"
proof -
  define ls where "ls = fst (dns_guard_payloads slot policy a owner interfaces)"
  define c where "c = ''NH_DNS_'' @ slot_suffix slot"
  define drops where "drops = chain_rules (dns_drops c interfaces ''udp'' 53 @ dns_drops c interfaces ''tcp'' 53
    @ dns_drops c interfaces ''tcp'' 853) c"
  have "list_all (\<lambda>r. snd r = DROP) drops"
    by (auto simp: drops_def dns_drops_def list_all_iff split: option.splits)
  then have "traverse 1 ls (drops @ [([], RETURN)]) p = Some (p, if hit p drops then Dropped else Returned)"
    by (simp add: traverse_drop)
  moreover have "hit p drops \<longleftrightarrow> is_plain_dns p \<and> in_scope interfaces (pk_out p)"
    by (auto simp: drops_def dns_drops_def is_plain_dns_def is_dns_def in_scope_def split: option.splits)
  moreover have "x AND 0xffffffff = x" for x :: u32
  proof -
    have "(0xffffffff :: u32) = - 1"
      by code_simp
    then show ?thesis by (simp only: and.right_neutral)
  qed
  ultimately have "traverse 1 ls (chain_rules ls c) p =
    Some (p, if is_plain_dns p \<and> in_scope interfaces (pk_out p) \<and> pk_out p \<noteq> ''lo''
                \<and> pk_mark p AND rc_mask a \<noteq> rc_mark a
                \<and> pk_mark p \<noteq> unwrap_or DEFAULT_TUN_BYPASS_MARK (cp_bypass_mark policy)
             then Dropped else Returned)"
    by (auto simp: ls_def c_def drops_def dns_guard_payloads_def Let_def)
  then show ?thesis
    unfolding ls_def c_def by (rule on_hook_jump [OF dns_hook])
qed


subsection \<open>Plans\<close>

lemma build_tproxy_Ok:
  assumes "build_tproxy generation slot policy report = Some (Ok plan)"
  obtains a mark interfaces forwarding present steps
  where "cp_mode policy = Tproxy" "cp_inbound_port policy = Some (cr_inbound_port report)"
    "free_allocation report = Some a" "cp_bypass_mark policy = Some mark"
    "resolve_interfaces (cp_interface_policy policy) (cr_interfaces report) = Ok interfaces"
    "ipv6_presence report = Ok present"
    "tproxy_steps generation slot policy a (cr_inbound_port report) interfaces forwarding
       (supports_tproxy (cr_ipv6 report)) (present \<and> \<not> supports_tproxy (cr_ipv6 report)) = Some steps"
    "plan = \<lparr>np_generation = generation, np_slot = slot, np_mode = Tproxy, np_capture_interface = None,
       np_allocation = a, np_bypass_mark = mark, np_ipv6_captured = supports_tproxy (cr_ipv6 report),
       np_ipv6_guarded = (present \<and> \<not> supports_tproxy (cr_ipv6 report)), np_dns_guarded = True,
       np_forwarding_interfaces = forwarding, np_steps = steps\<rparr>"
  using assms unfolding build_tproxy_def Let_def
  by (auto split: if_splits option.splits sum.splits)

definition reaches :: "CapturePolicy \<Rightarrow> CapabilityReport \<Rightarrow> string \<Rightarrow> bool" where
  "reaches policy report name \<longleftrightarrow>
     is_unrestricted (cp_interface_policy policy)
     \<or> name \<in> set (cr_interfaces report) \<and> selects_interface (cp_interface_policy policy) name"

lemma resolved_scope:
  assumes "resolve_interfaces (cp_interface_policy policy) (cr_interfaces report) = Ok interfaces"
  shows "in_scope interfaces name \<longleftrightarrow> reaches policy report name"
  using assms by (auto simp: resolve_interfaces_def Let_def in_scope_def reaches_def split: if_splits)

definition candidates_ok :: "CapabilityReport \<Rightarrow> bool" where
  "candidates_ok report \<longleftrightarrow> list_all (\<lambda>c. candidate_ok (ac_candidate c)) (cr_allocations report)"

lemma free_allocation_ok: "free_allocation report = Some a \<Longrightarrow> candidates_ok report \<Longrightarrow> candidate_ok a"
  by (auto simp: free_allocation_def candidates_ok_def list_all_iff find_Some_iff)

lemma tproxy_netfilter_steps:
  assumes "tproxy_steps generation slot policy a port interfaces forwarding tproxy guarded = Some steps"
    and "step \<in> set steps" "ps_kind step = NetfilterRestore" "ps_apply step = Restore family ls"
  shows "ls = fst (tproxy_payloads family slot policy a port (tproxy_owner generation) interfaces)"
  using assms
  by (auto simp: tproxy_steps_def tproxy_forwarding_steps_def Let_def restore_step_def policy_steps_def
      split: if_splits option.splits)

text \<open>A packet marked on its way out comes back on the loopback device, where the policy rule has sent it.\<close>

definition looped :: "ResourceCandidate \<Rightarrow> packet \<Rightarrow> packet" where
  "looped a p = (seize a p)\<lparr>pk_in := ''lo'', pk_transparent := False\<rparr>"

lemma looped_fields [simp]:
  "pk_in (looped a p) = ''lo''" "\<not> pk_transparent (looped a p)" "pk_reply (looped a p) = pk_reply p"
  "proxied_protocol policy (looped a p) = proxied_protocol policy p" "pk_mark (looped a p) = pk_mark (seize a p)"
  by (simp_all add: looped_def proxied_protocol_def is_dns_def)

lemma seize_looped: "candidate_ok a \<Longrightarrow> seize a (looped a p) = looped a p"
proof -
  assume "candidate_ok a"
  then have "seize a (seize a p) = seize a p"
    by (simp add: set_xmark_idem candidate_ok_def)
  moreover have "seize a (looped a p) = (seize a (seize a p))\<lparr>pk_in := ''lo'', pk_transparent := False\<rparr>"
    by (simp add: looped_def set_xmark_def)
  ultimately show ?thesis by (simp add: looped_def)
qed



text \<open>A device without TPROXY for IPv6, a policy for one user, and what is built for them.\<close>

definition example_policy :: CapturePolicy where
  "example_policy = built_policy Tproxy True True True (Some 7893) (Some 0x200) [10001] []"

definition example_candidate :: ResourceCandidate where
  "example_candidate = \<lparr>rc_mark = 0x100, rc_mask = 0xff00, rc_route_table = 100, rc_rule_priority = 10000\<rparr>"

definition example_family :: "IpFamily \<Rightarrow> CapabilityStatus \<Rightarrow> FamilyCapability" where
  "example_family family tproxy =
     \<lparr>fc_family = family, fc_address = Supported, fc_netfilter = Supported, fc_restore = Supported, fc_tproxy = tproxy,
      fc_mark = Supported, fc_conntrack = Supported, fc_owner = Supported, fc_socket = Supported,
      fc_policy_routing = Supported, fc_chain_namespace = Supported\<rparr>"

definition example_report :: CapabilityReport where
  "example_report =
     \<lparr>cr_schema_version = 3, cr_android = Supported, cr_abi = ''arm64-v8a'', cr_root = Supported,
      cr_selinux_enforcing = True, cr_backend = Legacy, cr_ipv4 = example_family Ipv4 Supported,
      cr_ipv6 = example_family Ipv6 Unsupported, cr_tun = Supported, cr_active_tunnel = Supported,
      cr_inbound_port = 7893, cr_inbound_port_status = Supported,
      cr_allocations = [\<lparr>ac_candidate = example_candidate, ac_status = Supported\<rparr>], cr_interfaces = [''lo'', ''wlan0'']\<rparr>"

definition example_plan :: NetworkPlan where
  "example_plan =
     \<lparr>np_generation = 7, np_slot = Slot_A, np_mode = Tproxy, np_capture_interface = None,
      np_allocation = example_candidate, np_bypass_mark = 0x200, np_ipv6_captured = False,
      np_ipv6_guarded = True, np_dns_guarded = True, np_forwarding_interfaces = [],
      np_steps =
        [restore_step Ipv6GuardRestore Ipv6 (ipv6_guard_payloads Slot_A example_policy (tproxy_owner 7))]
        @ policy_steps Ipv4 example_candidate ''lo'' True
        @ [restore_step NetfilterRestore Ipv4
             (tproxy_payloads Ipv4 Slot_A example_policy example_candidate 7893 (tproxy_owner 7) None),
           restore_step DnsGuardRestore Ipv4
             (dns_guard_payloads Slot_A example_policy example_candidate (tproxy_owner 7) None)]\<rparr>"

definition example_packet :: packet where
  "example_packet =
     \<lparr>pk_out = ''wlan0'', pk_in = [], pk_proto = ''tcp'', pk_dport = Some 443, pk_reply = False, pk_uid = Some 10001,
      pk_within = (\<lambda>_. False), pk_transparent = False, pk_mark = 0\<rparr>"

lemma example_policy_held: "policy_held example_policy"
  by (rule held_new [of Tproxy True True True "Some 7893" "Some 0x200" "[10001]" "[]"])
    (simp add: policy_new_iff consistent_arguments_def MAX_UIDS_def example_policy_def)

lemma example_build: "build_tproxy 7 Slot_A example_policy example_report = Some (Ok example_plan)"
  by (simp add: build_tproxy_def example_report_def example_plan_def example_family_def is_supported_def
      supports_tproxy_def supports_guard_def free_allocation_def resolve_interfaces_def resolve_forwarding_interfaces_def
      ipv6_presence_def tproxy_steps_def tproxy_forwarding_steps_def Let_def example_policy_def built_policy_def
      interface_default_def is_unrestricted_def forwarding_default_def forwarding_enabled_def example_candidate_def)

lemma example_candidates_ok: "candidates_ok example_report"
  by (simp add: candidates_ok_def candidate_ok_def example_report_def example_candidate_def)

lemma example_captures: "captures_uid example_policy 10001"
  using captures_uid_wf [OF capture_policy_invariant [OF example_policy_held]]
  by (simp add: example_policy_def built_policy_def)





subsection \<open>Two limits of the planner\<close>

text \<open>A TUN plan cannot be built on a device without IPv6 addresses: the guard it then asks for needs one.\<close>

lemma tun_needs_ipv6:
  assumes "fc_address (cr_ipv6 report) = NotPresent"
  shows "build_tun generation slot policy report \<noteq> Ok plan"
  using assms
  by (auto simp: build_tun_def Let_def ipv6_presence_def supports_guard_def is_supported_def
      split: if_splits option.splits sum.splits)

text \<open>A bypass mark with a bit outside the mask of the allocation, such as the default of TUN plans with the mask
  \<open>0xff00\<close>, is never recognised by the rule that should let the core's own packets pass.\<close>

lemma bypass_rule_is_dead:
  assumes "mark AND NOT msk \<noteq> 0"
  shows "\<not> matches p (MarkIs mark msk)"
proof
  assume "matches p (MarkIs mark msk)"
  then have "mark AND NOT msk = (pk_mark p AND msk) AND NOT msk"
    by (simp only: matches.simps)
  also have "\<dots> = 0"
    by (rule bit_word_eqI) (simp add: bit_and_iff bit_not_iff)
  finally show False using assms by simp
qed

end
