(* ===== verification/Forwarding.thy ===== *)
theory Forwarding
  imports Network_Plan
begin

section \<open>Forwarding plans\<close>

text \<open>
  \<open>nethop-android/src/forwarding.rs\<close>: a plan for traffic of tethered devices beside an existing capture plan, and
  the verifier of its rules. The planner repeats the payload of \<open>plan.rs\<close> line by line, which is proved.
\<close>

definition MAX_FORWARD_INTERFACES :: nat where "MAX_FORWARD_INTERFACES = 8"
definition MAX_FORWARD_NAME_BYTES :: nat where "MAX_FORWARD_NAME_BYTES = 16"

record ForwardingPlan =
  fp_generation :: GenerationId
  fp_slot :: PlanSlot
  fp_allocation :: ResourceCandidate
  fp_interfaces :: "string list"
  fp_steps :: "PlanStep list"

datatype ForwardingPlanError = GenerationMismatch | InvalidInterfaceSet | InboundPortMissing

definition fp_owner_marker :: "ForwardingPlan \<Rightarrow> string" where
  "fp_owner_marker plan = forwarding_owner (fp_generation plan)"

definition valid_forward_name :: "string \<Rightarrow> bool" where
  "valid_forward_name name \<longleftrightarrow>
     name \<noteq> [] \<and> length name \<le> MAX_FORWARD_NAME_BYTES \<and> name \<noteq> ''lo''
     \<and> list_all (\<lambda>c. is_ascii_alphanumeric c \<or> c \<in> set ''_-.+'') name"

definition forwarding_lines ::
  "PlanSlot \<Rightarrow> string \<Rightarrow> ResourceCandidate \<Rightarrow> CapturePolicy \<Rightarrow> u16 \<Rightarrow> string list \<Rightarrow> rline list \<times> rline list" where
  "forwarding_lines slot owner a policy inbound_port interfaces =
     (let chain = ''NH_FWD_'' @ (case slot of Slot_A \<Rightarrow> ''A'' | Slot_B \<Rightarrow> ''B'');
          mark = rc_mark a;
          msk = rc_mask a
      in ([TableLine Mangle, NewChain chain]
          @ map (\<lambda>interface. Append ''PREROUTING'' [InIf interface, Comment owner] (JUMP chain)) interfaces
          @ [Append chain [CtReply] ACCEPT, Append chain [MarkIs mark msk] RETURN]
          @ map (\<lambda>destination. Append chain [Dst destination] RETURN)
              [''0.0.0.0/8'', ''10.0.0.0/8'', ''100.64.0.0/10'', ''127.0.0.0/8'', ''169.254.0.0/16'',
               ''172.16.0.0/12'', ''192.168.0.0/16'', ''224.0.0.0/4'', ''240.0.0.0/4'']
          @ (if cp_proxy_tcp policy then [Append chain [Proto ''tcp''] (TPROXY inbound_port mark msk)] else [])
          @ (if cp_proxy_udp policy then [Append chain [Proto ''udp''] (TPROXY inbound_port mark msk)] else [])
          @ [CommitLine],
          [TableLine Mangle]
          @ map (\<lambda>interface. Delete ''PREROUTING'' [InIf interface, Comment owner] (JUMP chain)) interfaces
          @ [Flush chain, DeleteChain chain, CommitLine]))"

definition forwarding_build ::
  "GenerationId \<Rightarrow> PlanSlot \<Rightarrow> NetworkPlan \<Rightarrow> CapturePolicy \<Rightarrow> string list \<Rightarrow> (ForwardingPlanError, ForwardingPlan) rresult" where
  "forwarding_build generation slot base policy interfaces =
     (if generation \<noteq> np_generation base \<or> slot \<noteq> np_slot base \<or> generation = 0 then Err GenerationMismatch
      else if interfaces = [] \<or> length interfaces > MAX_FORWARD_INTERFACES then Err InvalidInterfaceSet
      else let sorted_interfaces = remdups_adj (sort interfaces)
           in if length sorted_interfaces \<noteq> length interfaces \<or> sorted_interfaces = []
                 \<or> list_ex (\<lambda>name. \<not> valid_forward_name name) sorted_interfaces
              then Err InvalidInterfaceSet
              else case cp_inbound_port policy of
                None \<Rightarrow> Err InboundPortMissing
              | Some inbound_port \<Rightarrow>
                  Ok \<lparr>fp_generation = generation, fp_slot = slot, fp_allocation = np_allocation base,
                      fp_interfaces = sorted_interfaces,
                      fp_steps = [restore_step ForwardingRestore Ipv4
                        (forwarding_lines slot (forwarding_owner generation) (np_allocation base) policy inbound_port
                           sorted_interfaces)]\<rparr>)"

datatype ForwardingHealthError =
    FH_InvalidPolicy | FH_ProbeFailed | FH_InboundPortMissing | FH_ChainMissing | FH_InterfaceJumpMissing

definition forwarding_verifier_new :: "u16 \<Rightarrow> (ForwardingHealthError, u16) rresult" where
  "forwarding_verifier_new inbound_port = (if inbound_port = 0 then Err FH_InvalidPolicy else Ok inbound_port)"

definition forwarding_jump :: "string \<Rightarrow> string \<Rightarrow> string \<Rightarrow> string" where
  "forwarding_jump owner chain interface =
     ''-A PREROUTING -i '' @ interface @ '' -m comment --comment '' @ owner @ '' -j '' @ chain"

definition forwarding_verify ::
  "'b runner \<Rightarrow> u16 \<Rightarrow> ForwardingPlan \<Rightarrow> 'b \<Rightarrow> (ForwardingHealthError, unit) rresult \<times> 'b" where
  "forwarding_verify run inbound_port plan b =
     (case run ListeningSockets b of
        (Inl e, b) \<Rightarrow> (Err FH_ProbeFailed, b)
      | (Inr socket, b) \<Rightarrow>
     if \<not> po_success socket
        \<or> \<not> list_ex (\<lambda>value. ends_with value ('':'' @ show_u16 inbound_port)) (split_ascii_whitespace (po_stdout socket))
     then (Err FH_InboundPortMissing, b)
     else case run (NetfilterSnapshot Ipv4 Filter) b of
        (Inl e, b) \<Rightarrow> (Err FH_ProbeFailed, b)
      | (Inr snapshot, b) \<Rightarrow>
     if \<not> po_success snapshot then (Err FH_ProbeFailed, b)
     else let chain = ''NH_FWD_'' @ (case fp_slot plan of Slot_A \<Rightarrow> ''A'' | Slot_B \<Rightarrow> ''B'');
              owner = fp_owner_marker plan
          in if \<not> contains (po_stdout snapshot) (''-N '' @ chain) then (Err FH_ChainMissing, b)
             else if list_ex (\<lambda>interface. \<not> list_ex (\<lambda>line. line = forwarding_jump owner chain interface)
                    (lines (po_stdout snapshot))) (fp_interfaces plan)
             then (Err FH_InterfaceJumpMissing, b)
             else (Ok (), b))"

subsection \<open>Agreement with the capture plan\<close>

text \<open>The text of a jump the verifier looks for is that of the line the planner writes.\<close>

lemma forwarding_jump_is_written:
  "forwarding_jump owner chain interface =
     line_text (Append ''PREROUTING'' [InIf interface, Comment owner] (JUMP chain))"
  by (simp add: forwarding_jump_def rule_text_def)

lemma forwarding_lines_agree:
  assumes "cp_inbound_port policy = Some port"
  shows "forwarding_payloads slot policy a interfaces owner = Some (forwarding_lines slot owner a policy port interfaces)"
  using assms by (simp add: forwarding_payloads_def forwarding_lines_def Let_def slot_suffix_def)

text \<open>What the verifier requires is in the table it does not read: it asks for the filter table, and the rules of a
  forwarding plan are all in the mangle table.\<close>

lemma forwarding_rules_are_in_mangle:
  assumes "forwarding_build generation slot base policy interfaces = Ok plan" "step \<in> set (fp_steps plan)"
  shows "\<exists>ls. ps_apply step = Restore Ipv4 (TableLine Mangle # ls) \<and> TableLine Filter \<notin> set ls"
  using assms
  by (auto simp: forwarding_build_def forwarding_lines_def Let_def restore_step_def split: if_splits option.splits)

end
