(* ===== verification/Network_Executor.thy ===== *)
theory Network_Executor
  imports Forwarding
begin

section \<open>Execution of network plans\<close>

text \<open>
  \<open>nethop-android/src/executor.rs\<close>: the commands of a plan's steps, their execution in order, and the rollback of
  a plan that fails half way. The backend that runs a command is an argument that passes its own state along. What
  the executor needs of a backend is the interface \<open>network_backend\<close>, under which a failed plan is shown to leave
  the network as it was.
\<close>

subsection \<open>Commands\<close>

datatype NetworkProgram = IptablesRestore | Ip6tablesRestore | Ip

text \<open>As in plans, the text on the standard input is kept as the lines it is rendered from.\<close>

record CommandInvocation =
  ci_program :: NetworkProgram
  ci_arguments :: "string list"
  ci_stdin :: "rline list option"

definition family_flag :: "IpFamily \<Rightarrow> string" where
  "family_flag family = (case family of Ipv4 \<Rightarrow> ''-4'' | Ipv6 \<Rightarrow> ''-6'')"

definition action_name :: "MutationAction \<Rightarrow> string" where
  "action_name action = (case action of Action_Add \<Rightarrow> ''add'' | Action_Delete \<Rightarrow> ''del'')"

fun from_operation :: "NetworkOperation \<Rightarrow> CommandInvocation" where
  "from_operation (Restore family payload) =
     \<lparr>ci_program = (case family of Ipv4 \<Rightarrow> IptablesRestore | Ipv6 \<Rightarrow> Ip6tablesRestore),
      ci_arguments = [''--noflush''], ci_stdin = Some payload\<rparr>"
| "from_operation (PolicyRoute action family table device local) =
     \<lparr>ci_program = Ip,
      ci_arguments = [family_flag family, ''route'', action_name action]
        @ (if local then [''local''] else [])
        @ [(case family of Ipv4 \<Rightarrow> ''0.0.0.0/0'' | Ipv6 \<Rightarrow> ''::/0''), ''dev'', device, ''table'', show_u32 table],
      ci_stdin = None\<rparr>"
| "from_operation (PolicyRule action family mark msk table priority) =
     \<lparr>ci_program = Ip,
      ci_arguments = [family_flag family, ''rule'', action_name action, ''priority'', show_u32 priority,
        ''fwmark'', mark_mask_text mark msk, ''lookup'', show_u32 table],
      ci_stdin = None\<rparr>"

record CommandOutput =
  co_success :: bool

datatype CommandFailure = Failure_Spawn | Failure_Timeout | Failure_Output | Failure_Absent

type_synonym 'b backend = "CommandInvocation \<Rightarrow> 'b \<Rightarrow> (CommandFailure, CommandOutput) rresult \<times> 'b"

datatype ExecutionError =
    InvalidBackend
  | ApplyFailed nat
  | ApplyRollbackFailed nat nat
  | RollbackFailed nat
  | ReceiptMismatch

datatype ExecutionDiagnosticCode =
    ED_InvalidBackend | ED_ApplyFailed | ED_ApplyRollbackFailed | ED_RollbackFailed | ED_ReceiptMismatch

definition execution_code_as_str :: "ExecutionDiagnosticCode \<Rightarrow> string" where
  "execution_code_as_str code =
     (case code of
        ED_InvalidBackend \<Rightarrow> ''network_executor_invalid_backend''
      | ED_ApplyFailed \<Rightarrow> ''network_executor_apply_failed''
      | ED_ApplyRollbackFailed \<Rightarrow> ''network_executor_apply_rollback_failed''
      | ED_RollbackFailed \<Rightarrow> ''network_executor_rollback_failed''
      | ED_ReceiptMismatch \<Rightarrow> ''network_executor_receipt_mismatch'')"

definition execution_error_code :: "ExecutionError \<Rightarrow> ExecutionDiagnosticCode" where
  "execution_error_code e =
     (case e of
        InvalidBackend \<Rightarrow> ED_InvalidBackend
      | ApplyFailed _ \<Rightarrow> ED_ApplyFailed
      | ApplyRollbackFailed _ _ \<Rightarrow> ED_ApplyRollbackFailed
      | RollbackFailed _ \<Rightarrow> ED_RollbackFailed
      | ReceiptMismatch \<Rightarrow> ED_ReceiptMismatch)"

text \<open>Limits of the system backend; a \<open>Duration\<close> is its nanoseconds.\<close>

definition MAX_COMMAND_TIMEOUT :: nat where "MAX_COMMAND_TIMEOUT = 30 * 1000000000"
definition MAX_OUTPUT_LIMIT :: u64 where "MAX_OUTPUT_LIMIT = 1024 * 1024"
definition DEFAULT_COMMAND_TIMEOUT :: nat where "DEFAULT_COMMAND_TIMEOUT = 5 * 1000000000"
definition DEFAULT_OUTPUT_LIMIT :: u64 where "DEFAULT_OUTPUT_LIMIT = 64 * 1024"

record SystemCommandLimits =
  sl_command_timeout :: nat
  sl_output_bytes_per_stream :: u64

definition command_limits_new :: "nat \<Rightarrow> u64 \<Rightarrow> (ExecutionError, SystemCommandLimits) rresult" where
  "command_limits_new command_timeout output_bytes =
     (if command_timeout = 0 \<or> command_timeout > MAX_COMMAND_TIMEOUT \<or> output_bytes = 0 \<or> output_bytes > MAX_OUTPUT_LIMIT
      then Err InvalidBackend
      else Ok \<lparr>sl_command_timeout = command_timeout, sl_output_bytes_per_stream = output_bytes\<rparr>)"

definition command_limits_default :: SystemCommandLimits where
  "command_limits_default =
     \<lparr>sl_command_timeout = DEFAULT_COMMAND_TIMEOUT, sl_output_bytes_per_stream = DEFAULT_OUTPUT_LIMIT\<rparr>"

text \<open>The diagnostics of a tool that did not find what it was to remove, and the answer for a command that exited.
  The lossy decoding of the diagnostics keeps every ASCII byte, so the searches are the same on the bytes.\<close>

definition indicates_absent :: "string \<Rightarrow> bool" where
  "indicates_absent stderr =
     (let stderr = to_ascii_lowercase stderr
      in contains stderr ''no such file or directory'' \<or> contains stderr ''does not exist''
         \<or> contains stderr ''bad rule'')"

definition exit_answer :: "bool \<Rightarrow> string \<Rightarrow> (CommandFailure, CommandOutput) rresult" where
  "exit_answer success stderr =
     (if success then Ok \<lparr>co_success = True\<rparr>
      else if indicates_absent stderr then Err Failure_Absent
      else Ok \<lparr>co_success = False\<rparr>)"

subsection \<open>The executor\<close>

record ApplyReceipt =
  ar_generation :: GenerationId
  ar_slot :: PlanSlot
  ar_completed_steps :: nat

definition is_good :: "(CommandFailure, CommandOutput) rresult \<Rightarrow> bool" where
  "is_good r = (case r of Inr output \<Rightarrow> co_success output | Inl _ \<Rightarrow> False)"

definition execute_rollback :: "'b backend \<Rightarrow> PlanStep list \<Rightarrow> nat \<Rightarrow> 'b \<Rightarrow> bool \<times> 'b" where
  "execute_rollback execute steps index b =
     (let (r, b) = execute (from_operation (ps_rollback (steps ! index))) b
      in (case r of
            Inr output \<Rightarrow> co_success output
          | Inl e \<Rightarrow> e = Failure_Absent, b))"

text \<open>\<open>(0..end_exclusive).rev()\<close>, with the first failure so far.\<close>

fun rollback_indices :: "'b backend \<Rightarrow> PlanStep list \<Rightarrow> nat \<Rightarrow> nat option \<Rightarrow> 'b \<Rightarrow> nat option \<times> 'b" where
  "rollback_indices execute steps 0 first_failure b = (first_failure, b)"
| "rollback_indices execute steps (Suc index) first_failure b =
     (let (good, b) = execute_rollback execute steps index b
      in rollback_indices execute steps index (if \<not> good \<and> first_failure = None then Some index else first_failure) b)"

definition rollback_range :: "'b backend \<Rightarrow> PlanStep list \<Rightarrow> nat \<Rightarrow> 'b \<Rightarrow> (nat, unit) rresult \<times> 'b" where
  "rollback_range execute steps end_exclusive b =
     (let (first_failure, b) = rollback_indices execute steps end_exclusive None b
      in (case first_failure of None \<Rightarrow> Ok () | Some index \<Rightarrow> Err index, b))"

fun apply_from ::
  "'b backend \<Rightarrow> GenerationId \<Rightarrow> PlanSlot \<Rightarrow> PlanStep list \<Rightarrow> nat \<Rightarrow> PlanStep list \<Rightarrow> 'b
   \<Rightarrow> (ExecutionError, ApplyReceipt) rresult \<times> 'b" where
  "apply_from execute generation slot steps index [] b =
     (Ok \<lparr>ar_generation = generation, ar_slot = slot, ar_completed_steps = index\<rparr>, b)"
| "apply_from execute generation slot steps index (step # rest) b =
     (let (r, b) = execute (from_operation (ps_apply step)) b
      in if \<not> is_good r
         then (let (rolled_back, b) = rollback_range execute steps (index + 1) b
               in (case rolled_back of
                     Inl rollback_step \<Rightarrow> Err (ApplyRollbackFailed index rollback_step)
                   | Inr _ \<Rightarrow> Err (ApplyFailed index), b))
         else apply_from execute generation slot steps (index + 1) rest b)"

definition apply_steps ::
  "'b backend \<Rightarrow> GenerationId \<Rightarrow> PlanSlot \<Rightarrow> PlanStep list \<Rightarrow> 'b \<Rightarrow> (ExecutionError, ApplyReceipt) rresult \<times> 'b" where
  "apply_steps execute generation slot steps b = apply_from execute generation slot steps 0 steps b"

definition apply_plan :: "'b backend \<Rightarrow> NetworkPlan \<Rightarrow> 'b \<Rightarrow> (ExecutionError, ApplyReceipt) rresult \<times> 'b" where
  "apply_plan execute plan b = apply_steps execute (np_generation plan) (np_slot plan) (np_steps plan) b"

definition apply_forwarding :: "'b backend \<Rightarrow> ForwardingPlan \<Rightarrow> 'b \<Rightarrow> (ExecutionError, ApplyReceipt) rresult \<times> 'b" where
  "apply_forwarding execute plan b = apply_steps execute (fp_generation plan) (fp_slot plan) (fp_steps plan) b"

text \<open>The loop counts the completed steps of the receipt down.\<close>

fun rollback_loop :: "'b backend \<Rightarrow> PlanStep list \<Rightarrow> nat \<Rightarrow> 'b \<Rightarrow> (ExecutionError, unit) rresult \<times> nat \<times> 'b" where
  "rollback_loop execute steps 0 b = (Ok (), 0, b)"
| "rollback_loop execute steps (Suc index) b =
     (let (good, b) = execute_rollback execute steps index b
      in if \<not> good then (Err (RollbackFailed index), Suc index, b)
         else rollback_loop execute steps index b)"

text \<open>\<^const>\<open>None\<close> is the panic of indexing with a receipt of more steps than the plan has; it happens before any
  command.\<close>

definition rollback_steps ::
  "'b backend \<Rightarrow> GenerationId \<Rightarrow> PlanSlot \<Rightarrow> PlanStep list \<Rightarrow> ApplyReceipt \<Rightarrow> 'b
   \<Rightarrow> ((ExecutionError, unit) rresult \<times> ApplyReceipt \<times> 'b) option" where
  "rollback_steps execute generation slot steps receipt b =
     (if ar_generation receipt \<noteq> generation \<or> ar_slot receipt \<noteq> slot then Some (Err ReceiptMismatch, receipt, b)
      else if length steps < ar_completed_steps receipt then None
      else let (r, completed, b) = rollback_loop execute steps (ar_completed_steps receipt) b
           in Some (r, receipt\<lparr>ar_completed_steps := completed\<rparr>, b))"

definition rollback_plan ::
  "'b backend \<Rightarrow> NetworkPlan \<Rightarrow> ApplyReceipt \<Rightarrow> 'b \<Rightarrow> ((ExecutionError, unit) rresult \<times> ApplyReceipt \<times> 'b) option" where
  "rollback_plan execute plan receipt b =
     rollback_steps execute (np_generation plan) (np_slot plan) (np_steps plan) receipt b"

definition rollback_forwarding ::
  "'b backend \<Rightarrow> ForwardingPlan \<Rightarrow> ApplyReceipt \<Rightarrow> 'b \<Rightarrow> ((ExecutionError, unit) rresult \<times> ApplyReceipt \<times> 'b) option" where
  "rollback_forwarding execute plan receipt b =
     rollback_steps execute (fp_generation plan) (fp_slot plan) (fp_steps plan) receipt b"

subsection \<open>Reversible steps\<close>

text \<open>The effect of commands on a network: \<^const>\<open>None\<close> when the network refuses. Steps are reversible from a network
  when each rollback is refused before its step and undoes it after.\<close>

fun installed :: "(CommandInvocation \<Rightarrow> 'n \<Rightarrow> 'n option) \<Rightarrow> 'n \<Rightarrow> PlanStep list \<Rightarrow> 'n option" where
  "installed effect n [] = Some n"
| "installed effect n (step # steps) =
     (case effect (from_operation (ps_apply step)) n of None \<Rightarrow> None | Some n' \<Rightarrow> installed effect n' steps)"

fun reversible :: "(CommandInvocation \<Rightarrow> 'n \<Rightarrow> 'n option) \<Rightarrow> 'n \<Rightarrow> PlanStep list \<Rightarrow> bool" where
  "reversible effect n [] = True"
| "reversible effect n (step # steps) =
     (effect (from_operation (ps_rollback step)) n = None
      \<and> (case effect (from_operation (ps_apply step)) n of
           None \<Rightarrow> True
         | Some n' \<Rightarrow> effect (from_operation (ps_rollback step)) n' = Some n \<and> reversible effect n' steps))"

lemma installed_append:
  "installed effect n (xs @ ys) = (case installed effect n xs of None \<Rightarrow> None | Some n' \<Rightarrow> installed effect n' ys)"
  by (induction xs arbitrary: n) (simp_all split: option.splits)

lemma reversible_append:
  "reversible effect n (xs @ ys) \<longleftrightarrow>
     reversible effect n xs \<and> (case installed effect n xs of None \<Rightarrow> True | Some n' \<Rightarrow> reversible effect n' ys)"
  by (induction xs arbitrary: n) (simp_all split: option.splits)

lemma reversible_at:
  assumes "reversible effect n steps" "k < length steps" "installed effect n (take k steps) = Some m"
  shows "effect (from_operation (ps_rollback (steps ! k))) m = None"
    and "effect (from_operation (ps_apply (steps ! k))) m = Some m' \<Longrightarrow>
      effect (from_operation (ps_rollback (steps ! k))) m' = Some m"
proof -
  have "steps = take k steps @ steps ! k # drop (Suc k) steps"
    using assms(2) by (rule id_take_nth_drop)
  with assms(1,3) have "reversible effect m (steps ! k # drop (Suc k) steps)"
    using reversible_append [of effect n "take k steps" "steps ! k # drop (Suc k) steps"] by simp
  then show "effect (from_operation (ps_rollback (steps ! k))) m = None"
    and "effect (from_operation (ps_apply (steps ! k))) m = Some m' \<Longrightarrow>
      effect (from_operation (ps_rollback (steps ! k))) m' = Some m"
    by simp_all
qed

lemma installed_Suc:
  assumes "k < length steps"
  shows "installed effect n (take (Suc k) steps) =
    (case installed effect n (take k steps) of None \<Rightarrow> None | Some m \<Rightarrow> effect (from_operation (ps_apply (steps ! k))) m)"
  using assms by (simp add: take_Suc_conv_app_nth installed_append split: option.splits)

lemma rollback_indices_keeps_failure: "fst (rollback_indices execute steps k (Some j) b) = Some j"
  by (induction k arbitrary: b) (simp_all split: prod.splits)

lemma rollback_indices_good:
  assumes "rollback_indices execute steps (Suc k) f b = (None, b')" "execute_rollback execute steps k b = (good, c)"
  shows "good" "f = None" "rollback_indices execute steps k None c = (None, b')"
  using assms rollback_indices_keeps_failure [of execute steps k _ c]
  by (cases f; cases good; auto dest!: arg_cong [of _ _ fst])+

lemma rollback_indices_bound: "rollback_indices execute steps k f b = (Some j, b') \<Longrightarrow> f = Some j \<or> j < k"
proof (induction k arbitrary: f b)
  case (Suc k)
  obtain good c where "execute_rollback execute steps k b = (good, c)"
    by fastforce
  with Suc.prems show ?case by (auto dest!: Suc.IH split: if_splits)
qed simp

text \<open>The network after \<open>k\<close> steps, the last of which may or may not have happened.\<close>

definition near :: "(CommandInvocation \<Rightarrow> 'n \<Rightarrow> 'n option) \<Rightarrow> 'n \<Rightarrow> PlanStep list \<Rightarrow> nat \<Rightarrow> 'n \<Rightarrow> bool" where
  "near effect n steps k m \<longleftrightarrow>
     installed effect n (take k steps) = Some m \<or> 0 < k \<and> installed effect n (take (k - 1) steps) = Some m"

subsection \<open>The interface of a backend\<close>

text \<open>A backend works on a network it holds. A success is the command's effect, the answer that a target is absent
  means that the network refused, and in every other case the command took effect once or not at all.\<close>

locale network_backend =
  fixes execute :: "'b backend"
    and net :: "'b \<Rightarrow> 'n"
    and effect :: "CommandInvocation \<Rightarrow> 'n \<Rightarrow> 'n option"
  assumes good_effect: "execute i b = (r, b') \<Longrightarrow> is_good r \<Longrightarrow> effect i (net b) = Some (net b')"
    and absent_effect: "execute i b = (Err Failure_Absent, b') \<Longrightarrow> effect i (net b) = None"
    and some_effect: "execute i b = (r, b') \<Longrightarrow> net b' = net b \<or> effect i (net b) = Some (net b')"
begin

lemma rollback_one:
  assumes "reversible effect n steps" "k < length steps" "near effect n steps (Suc k) (net b)"
    and "execute_rollback execute steps k b = (good, b')"
  shows "near effect n steps (Suc k) (net b') \<and> (good \<longrightarrow> installed effect n (take k steps) = Some (net b'))"
proof -
  let ?i = "from_operation (ps_rollback (steps ! k))"
  obtain r where r: "execute ?i b = (r, b')" and good: "good \<longleftrightarrow> is_good r \<or> r = Err Failure_Absent"
    using assms(4) by (auto simp: execute_rollback_def is_good_def split: prod.splits sum.splits)
  from assms(2,3) consider
      (after) m where "installed effect n (take k steps) = Some m" "effect (from_operation (ps_apply (steps ! k))) m = Some (net b)"
    | (before) "installed effect n (take k steps) = Some (net b)"
    by (auto simp: near_def installed_Suc split: option.splits)
  then show ?thesis
  proof cases
    case after
    then have "effect ?i (net b) = Some m"
      using reversible_at(2) [OF assms(1,2)] by blast
    with good_effect [OF r] absent_effect [of ?i b b'] some_effect [OF r] r good after assms(3) show ?thesis
      by (auto simp: near_def)
  next
    case before
    then have "effect ?i (net b) = None"
      by (rule reversible_at(1) [OF assms(1,2)])
    with good_effect [OF r] some_effect [OF r] before show ?thesis
      by (auto simp: near_def)
  qed
qed

lemma rollback_loop_returns:
  assumes "reversible effect n steps" "k \<le> length steps" "near effect n steps k (net b)"
    and "rollback_loop execute steps k b = (r, k', b')"
  shows "near effect n steps k' (net b') \<and> k' \<le> k \<and> (r = Ok () \<longrightarrow> net b' = n)"
  using assms(2-4)
proof (induction k arbitrary: b)
  case 0
  then show ?case by (simp add: near_def)
next
  case (Suc k)
  obtain good c where c: "execute_rollback execute steps k b = (good, c)"
    by fastforce
  from Suc.prems rollback_one [OF assms(1) _ Suc.prems(2) c] Suc.IH [of c] c show ?case
    by (auto simp: near_def split: if_splits)
qed

lemma rollback_indices_returns:
  assumes "reversible effect n steps" "k \<le> length steps" "near effect n steps k (net b)"
    and "rollback_indices execute steps k f b = (None, b')"
  shows "net b' = n"
  using assms(2-4)
proof (induction k arbitrary: b f)
  case 0
  then show ?case by (simp add: near_def)
next
  case (Suc k)
  obtain good c where c: "execute_rollback execute steps k b = (good, c)"
    by fastforce
  note good = rollback_indices_good [OF Suc.prems(3) c]
  have "near effect n steps k (net c)"
    using rollback_one [OF assms(1) _ Suc.prems(2) c] Suc.prems(1) good(1) by (simp add: near_def)
  with Suc.IH [OF _ this good(3)] Suc.prems(1) show ?case by simp
qed

lemma apply_from_outcome:
  assumes "reversible effect n steps" "steps = take k steps @ rest" "k \<le> length steps"
    and "installed effect n (take k steps) = Some (net b)"
    and "apply_from execute generation slot steps k rest b = (r, b')"
  shows "case r of
      Inr receipt \<Rightarrow> receipt = \<lparr>ar_generation = generation, ar_slot = slot, ar_completed_steps = length steps\<rparr>
        \<and> installed effect n steps = Some (net b')
    | Inl e \<Rightarrow> (\<exists>i. e = ApplyFailed i \<and> net b' = n) \<or> (\<exists>i j. e = ApplyRollbackFailed i j \<and> j \<le> i)"
  using assms(2-5)
proof (induction rest arbitrary: k b)
  case Nil
  then have "k = length steps"
    by (metis append_Nil2 length_take min.absorb2)
  with Nil show ?case by auto
next
  case (Cons step rest)
  from Cons.prems(1,2) have k: "k < length steps" "steps ! k = step" "steps = take (Suc k) steps @ rest"
    by (metis append_Nil2 le_neq_implies_less list.distinct(1) same_append_eq take_all_iff order_refl,
        metis append_Nil2 length_take list.distinct(1) min.absorb2 nth_append_length,
        metis append_eq_conv_conj append_take_drop_id length_take list.sel(3) min.absorb2 drop_Suc tl_drop)
  obtain q c where c: "execute (from_operation (ps_apply step)) b = (q, c)"
    by fastforce
  show ?case
  proof (cases "is_good q")
    case True
    with good_effect [OF c] Cons.prems(3) k(1,2) have "installed effect n (take (Suc k) steps) = Some (net c)"
      by (simp add: installed_Suc)
    with Cons.IH [OF k(3) _ this] k(1) Cons.prems(4) c True show ?thesis by simp
  next
    case False
    have near: "near effect n steps (Suc k) (net c)"
      using some_effect [OF c] Cons.prems(3) k(1,2) by (auto simp: near_def installed_Suc)
    obtain f d where d: "rollback_indices execute steps (Suc k) None c = (f, d)"
      by fastforce
    with rollback_indices_returns [OF assms(1) _ near] rollback_indices_bound [of execute steps "Suc k" None c]
      k(1) Cons.prems(4) c False show ?thesis
      by (fastforce simp: rollback_range_def Let_def simp del: rollback_indices.simps split: option.splits)
  qed
qed

end

end
