(* ===== verification/Kernel_Network.thy ===== *)
theory Kernel_Network
  imports Network_Executor
begin

section \<open>Plans on the network of the device\<close>

text \<open>
  The environment of the executor: the netfilter tables and the routing entries of the device as \<open>iptables-restore(8)\<close>
  with \<open>--noflush\<close> and \<open>ip(8)\<close> document them. A payload is committed as a whole or refused; an entry is added
  once and deleted when present. Every command may in addition fail to start, time out or lose its output, before or
  after it took effect. This network is an instance of the interface of \<open>Network_Executor\<close>; on it every payload of the
  planner is undone exactly by its rollback, and a plan that fails leaves nothing behind.
\<close>

subsection \<open>Tables\<close>

type_synonym chains = "(string \<times> rule list) list"

abbreviation names :: "chains \<Rightarrow> string list" where
  "names t \<equiv> map fst t"

definition on_chain :: "string \<Rightarrow> (rule list \<Rightarrow> rule list) \<Rightarrow> chains \<Rightarrow> chains" where
  "on_chain c f t = map (\<lambda>(d, rs). (d, if d = c then f rs else rs)) t"

fun jumps_within :: "string list \<Rightarrow> rule \<Rightarrow> bool" where
  "jumps_within cs (ms, JUMP c) = (c \<in> set cs)"
| "jumps_within cs (ms, _) = True"

definition references :: "string \<Rightarrow> chains \<Rightarrow> bool" where
  "references c t = list_ex (\<lambda>(_, rs). list_ex (\<lambda>r. snd r = JUMP c) rs) t"

definition builtin_chains :: "string list" where
  "builtin_chains = [''PREROUTING'', ''INPUT'', ''FORWARD'', ''OUTPUT'', ''POSTROUTING'']"

fun run_line :: "rline \<Rightarrow> chains \<Rightarrow> chains option" where
  "run_line (NewChain c) t = (if c \<in> set (names t) then None else Some (t @ [(c, [])]))"
| "run_line (Append c ms g) t =
     (if c \<in> set (names t) \<and> jumps_within (names t) (ms, g) then Some (on_chain c (\<lambda>rs. rs @ [(ms, g)]) t) else None)"
| "run_line (Delete c ms g) t =
     (case map_of t c of
        None \<Rightarrow> None
      | Some rs \<Rightarrow> if (ms, g) \<in> set rs then Some (on_chain c (remove1 (ms, g)) t) else None)"
| "run_line (Flush c) t = (if c \<in> set (names t) then Some (on_chain c (\<lambda>_. []) t) else None)"
| "run_line (DeleteChain c) t =
     (if c \<notin> set builtin_chains \<and> map_of t c = Some [] \<and> \<not> references c t then Some (filter (\<lambda>(d, _). d \<noteq> c) t) else None)"
| "run_line _ t = None"

fun run_lines :: "rline list \<Rightarrow> chains \<Rightarrow> chains option" where
  "run_lines [] t = Some t"
| "run_lines (l # ls) t = (case run_line l t of None \<Rightarrow> None | Some u \<Rightarrow> run_lines ls u)"

text \<open>A payload of one table.\<close>

definition restore :: "rline list \<Rightarrow> (NetfilterTable \<Rightarrow> chains) \<Rightarrow> (NetfilterTable \<Rightarrow> chains) option" where
  "restore ls tables =
     (case ls of
        TableLine t # rest \<Rightarrow>
          if rest \<noteq> [] \<and> last rest = CommitLine
          then map_option (\<lambda>u. tables(t := u)) (run_lines (butlast rest) (tables t)) else None
      | _ \<Rightarrow> None)"

record kernel =
  k_tables :: "IpFamily \<Rightarrow> NetfilterTable \<Rightarrow> chains"
  k_ip :: "string list list"

definition restore_family :: "IpFamily \<Rightarrow> rline list \<Rightarrow> kernel \<Rightarrow> kernel option" where
  "restore_family family ls k =
     map_option (\<lambda>tables. k\<lparr>k_tables := (k_tables k)(family := tables)\<rparr>) (restore ls (k_tables k family))"

text \<open>An entry of the routing database is identified by the arguments of the command without its action.\<close>

fun change_entry :: "string list \<Rightarrow> string list list \<Rightarrow> string list list option" where
  "change_entry (flag # object # action # rest) es =
     (let e = flag # object # rest
      in if action = ''add'' then if e \<in> set es then None else Some (es @ [e])
         else if action = ''del'' then if e \<in> set es then Some (remove1 e es) else None
         else None)"
| "change_entry _ es = None"

definition network_effect :: "CommandInvocation \<Rightarrow> kernel \<Rightarrow> kernel option" where
  "network_effect i k =
     (case (ci_program i, ci_stdin i) of
        (IptablesRestore, Some ls) \<Rightarrow> restore_family Ipv4 ls k
      | (Ip6tablesRestore, Some ls) \<Rightarrow> restore_family Ipv6 ls k
      | (Ip, _) \<Rightarrow> map_option (\<lambda>es. k\<lparr>k_ip := es\<rparr>) (change_entry (ci_arguments i) (k_ip k))
      | _ \<Rightarrow> None)"

subsection \<open>Commands that fail\<close>

text \<open>What happens to the next command: it runs and writes a diagnostic if the network refuses it, it does not start,
  it is killed after its time is over, or its output is lost; the flag says whether it took effect before.\<close>

datatype weather = Exits string | Does_Not_Start | Times_Out bool | Loses_Output bool

record machine =
  mc_kernel :: kernel
  mc_weather :: "weather list"

definition take_effect :: "bool \<Rightarrow> CommandInvocation \<Rightarrow> kernel \<Rightarrow> kernel" where
  "take_effect happens i k =
     (if \<not> happens then k else case network_effect i k of None \<Rightarrow> k | Some k' \<Rightarrow> k')"

definition kernel_execute :: "machine backend" where
  "kernel_execute i m =
     (let (w, ws) = (case mc_weather m of [] \<Rightarrow> (Exits [], []) | w # ws \<Rightarrow> (w, ws));
          after = (\<lambda>happens. \<lparr>mc_kernel = take_effect happens i (mc_kernel m), mc_weather = ws\<rparr>)
      in case w of
           Exits stderr \<Rightarrow> (exit_answer (network_effect i (mc_kernel m) \<noteq> None) stderr, after True)
         | Does_Not_Start \<Rightarrow> (Err Failure_Spawn, after False)
         | Times_Out happened \<Rightarrow> (Err Failure_Timeout, after happened)
         | Loses_Output happened \<Rightarrow> (Err Failure_Output, after happened))"

lemma kernel_execute_cases:
  assumes "kernel_execute i m = (r, m')"
  obtains (exited) stderr where "r = exit_answer (network_effect i (mc_kernel m) \<noteq> None) stderr"
      "mc_kernel m' = take_effect True i (mc_kernel m)"
    | (failed) happened where "\<not> is_good r" "r \<noteq> Err Failure_Absent" "mc_kernel m' = take_effect happened i (mc_kernel m)"
  using assms
  by (auto simp: kernel_execute_def Let_def is_good_def split: list.splits weather.splits)

lemma exit_answer_cases:
  "is_good (exit_answer success stderr) \<longleftrightarrow> success"
  "exit_answer success stderr = Err Failure_Absent \<Longrightarrow> \<not> success"
  by (auto simp: exit_answer_def is_good_def split: if_splits)

lemma take_effect_cases:
  "take_effect happens i k = k \<or> network_effect i k = Some (take_effect happens i k)"
  by (simp add: take_effect_def split: option.splits)

interpretation device: network_backend kernel_execute mc_kernel network_effect
proof
  fix i m r m'
  assume e: "kernel_execute i m = (r, m')"
  show "network_effect i (mc_kernel m) = Some (mc_kernel m')" if "is_good r"
    using e that by (cases rule: kernel_execute_cases) (auto simp: exit_answer_cases(1) take_effect_def)
  show "mc_kernel m' = mc_kernel m \<or> network_effect i (mc_kernel m) = Some (mc_kernel m')"
    using e take_effect_cases by (cases rule: kernel_execute_cases) metis+
next
  fix i m m'
  assume "kernel_execute i m = (Err Failure_Absent, m')"
  then show "network_effect i (mc_kernel m) = None"
    by (cases rule: kernel_execute_cases) (auto dest!: exit_answer_cases(2) [OF sym])
qed


subsection \<open>Payloads and their inverse\<close>

fun new_chains :: "rline list \<Rightarrow> string list" where
  "new_chains (NewChain c # ls) = c # new_chains ls"
| "new_chains (_ # ls) = new_chains ls"
| "new_chains [] = []"

fun hook_deletes :: "string list \<Rightarrow> rline list \<Rightarrow> rline list" where
  "hook_deletes cs (Append c ms g # ls) = (if c \<in> set cs then [] else [Delete c ms g]) @ hook_deletes cs ls"
| "hook_deletes cs (_ # ls) = hook_deletes cs ls"
| "hook_deletes cs [] = []"

text \<open>The inverse of a payload: take its rules off the chains it did not create, then empty and remove its own.\<close>

definition undo :: "rline list \<Rightarrow> rline list" where
  "undo ls =
     [hd ls] @ hook_deletes (new_chains ls) ls @ map Flush (new_chains ls) @ map DeleteChain (new_chains ls) @ [CommitLine]"

text \<open>The shape of a payload: new chains first, then rules, which on other chains only jump to the new ones.\<close>

fun owned_rule :: "string list \<Rightarrow> rline \<Rightarrow> bool" where
  "owned_rule cs (Append c ms g) \<longleftrightarrow>
     (if c \<in> set cs then jumps_within cs (ms, g) else (case g of JUMP d \<Rightarrow> d \<in> set cs | _ \<Rightarrow> False))"
| "owned_rule cs _ \<longleftrightarrow> False"

definition payload :: "NetfilterTable \<Rightarrow> string list \<Rightarrow> rline list \<Rightarrow> rline list" where
  "payload t cs body = TableLine t # map NewChain cs @ body @ [CommitLine]"

lemma new_chains_simps [simp]:
  "new_chains (xs @ ys) = new_chains xs @ new_chains ys"
  "new_chains (map NewChain cs) = cs"
  "list_all (owned_rule cs) body \<Longrightarrow> new_chains body = []"
proof -
  show "new_chains (xs @ ys) = new_chains xs @ new_chains ys"
    by (induction xs rule: new_chains.induct) auto
  show "new_chains (map NewChain cs) = cs"
    by (induction cs) auto
  show "list_all (owned_rule cs) body \<Longrightarrow> new_chains body = []"
    by (induction body rule: new_chains.induct) auto
qed

lemma hook_deletes_simps [simp]:
  "hook_deletes cs (xs @ ys) = hook_deletes cs xs @ hook_deletes cs ys"
  "hook_deletes cs (map NewChain ds) = []"
  "hook_deletes cs (map (\<lambda>x. Append c (f x) g) zs) = (if c \<in> set cs then [] else map (\<lambda>x. Delete c (f x) g) zs)"
proof -
  show "hook_deletes cs (xs @ ys) = hook_deletes cs xs @ hook_deletes cs ys"
    by (induction xs rule: new_chains.induct) auto
  show "hook_deletes cs (map NewChain ds) = []"
    by (induction ds) auto
  show "hook_deletes cs (map (\<lambda>x. Append c (f x) g) zs) = (if c \<in> set cs then [] else map (\<lambda>x. Delete c (f x) g) zs)"
    by (induction zs) auto
qed

lemma undo_payload:
  "list_all (owned_rule cs) body \<Longrightarrow>
   undo (payload t cs body) = TableLine t # hook_deletes cs body @ map Flush cs @ map DeleteChain cs @ [CommitLine]"
  by (simp add: undo_def payload_def)

lemma run_lines_append:
  "run_lines (xs @ ys) t = (case run_lines xs t of None \<Rightarrow> None | Some u \<Rightarrow> run_lines ys u)"
  by (induction xs arbitrary: t) (simp_all split: option.splits)

lemma restore_payload_body:
  "restore (TableLine t # ls @ [CommitLine]) tables = map_option (\<lambda>u. tables(t := u)) (run_lines ls (tables t))"
  by (simp add: restore_def)

definition sound :: "chains \<Rightarrow> bool" where
  "sound t \<longleftrightarrow> distinct (names t) \<and> list_all (\<lambda>(_, rs). list_all (jumps_within (names t)) rs) t"

text \<open>Chains with the rules of a payload at their end, and chains without rules.\<close>

definition extended :: "rline list \<Rightarrow> chains \<Rightarrow> chains" where
  "extended body u = map (\<lambda>(c, rs). (c, rs @ chain_rules body c)) u"

definition blank :: "string list \<Rightarrow> chains" where
  "blank cs = map (\<lambda>c. (c, [])) cs"

lemma names_on_chain [simp]: "names (on_chain c f t) = names t"
  by (simp add: on_chain_def case_prod_unfold)

lemma names_extended [simp]: "names (extended body u) = names u"
  by (simp add: extended_def case_prod_unfold)

lemma extended_in: "(c, rs) \<in> set (extended body u) \<longleftrightarrow> (\<exists>rs'. (c, rs') \<in> set u \<and> rs = rs' @ chain_rules body c)"
  by (auto simp: extended_def)

lemma names_blank [simp]: "names (blank cs) = cs"
  by (simp add: blank_def comp_def)

lemma blank_simps [simp]: "blank [] = []" "blank (c # cs) = (c, []) # blank cs" "(c, rs) \<in> set (blank cs) \<longleftrightarrow> c \<in> set cs \<and> rs = []"
  by (auto simp: blank_def)

lemma extended_Append:
  "extended body (on_chain c (\<lambda>rs. rs @ [(ms, g)]) u) = extended (Append c ms g # body) u"
  by (auto simp: extended_def on_chain_def)

lemma run_new_chains:
  "run_lines (map NewChain cs) t =
     (if distinct cs \<and> set cs \<inter> set (names t) = {} then Some (t @ blank cs) else None)"
proof (induction cs arbitrary: t)
  case (Cons c cs)
  show ?case by (auto simp: Cons.IH)
qed simp

definition fits :: "rline list \<Rightarrow> chains \<Rightarrow> bool" where
  "fits body u \<longleftrightarrow> (\<forall>c ms g. Append c ms g \<in> set body \<longrightarrow> c \<in> set (names u) \<and> jumps_within (names u) (ms, g))"

lemma run_appends:
  assumes "list_all (owned_rule cs) body" "run_lines body u = Some v"
  shows "v = extended body u \<and> fits body u"
  using assms
proof (induction body arbitrary: u)
  case Nil
  then show ?case by (simp add: extended_def fits_def)
next
  case (Cons l body)
  then obtain c ms g where l: "l = Append c ms g"
    by (cases l) auto
  with Cons.prems have "c \<in> set (names u)" "jumps_within (names u) (ms, g)"
    "run_lines body (on_chain c (\<lambda>rs. rs @ [(ms, g)]) u) = Some v"
    by (auto split: if_splits)
  with Cons.IH [OF _ this(3)] Cons.prems(1) show ?case
    by (auto simp: l extended_Append fits_def)
qed

text \<open>Running a payload.\<close>

lemma run_payload:
  assumes "list_all (owned_rule cs) body" "run_lines (map NewChain cs @ body) t = Some v"
  shows "distinct cs \<and> set cs \<inter> set (names t) = {} \<and> v = extended body (t @ blank cs) \<and> fits body (t @ blank cs)"
  using assms run_appends [OF assms(1)]
  by (auto simp: run_lines_append run_new_chains split: if_splits)

lemma chain_rules_in: "(ms, g) \<in> set (chain_rules body c) \<longleftrightarrow> Append c ms g \<in> set body"
  by (induction body c rule: chain_rules.induct) auto

lemma jumps_within_mono: "jumps_within cs r \<Longrightarrow> set cs \<subseteq> set ds \<Longrightarrow> jumps_within ds r"
  by (cases "(ds, r)" rule: jumps_within.cases) auto

lemma sound_extended:
  assumes "sound t" "distinct cs" "set cs \<inter> set (names t) = {}" "fits body (t @ blank cs)"
  shows "sound (extended body (t @ blank cs))"
proof -
  have "jumps_within (names t @ cs) r" if "(c, rs) \<in> set (t @ blank cs)" "r \<in> set (rs @ chain_rules body c)" for c rs r
  proof (cases "r \<in> set rs")
    case True
    with that(1) assms(1) have "jumps_within (names t) r"
      by (auto simp: sound_def list_all_iff)
    then show ?thesis by (rule jumps_within_mono) simp
  next
    case False
    obtain ms g where r: "r = (ms, g)"
      by fastforce
    with False that(2) assms(4) show ?thesis
      by (simp add: chain_rules_in fits_def)
  qed
  then have "list_all (jumps_within (names t @ cs)) rs" if "(c, rs) \<in> set (extended body (t @ blank cs))" for c rs
    using that unfolding list_all_iff extended_in by blast
  moreover have "distinct (names t @ cs)"
    using assms(1-3) by (auto simp: sound_def)
  ultimately show ?thesis
    by (auto simp: sound_def list_all_iff [of _ "extended _ _"])
qed


text \<open>The state while the rollback runs: the rules of \<open>body\<close> that are still on the other chains, and any rules on its own.\<close>

definition fading :: "string list \<Rightarrow> (string \<Rightarrow> rule list) \<Rightarrow> rline list \<Rightarrow> chains \<Rightarrow> chains" where
  "fading cs f body u = map (\<lambda>(c, rs). (c, if c \<in> set cs then f c else rs @ chain_rules body c)) u"

definition avoids :: "string list \<Rightarrow> chains \<Rightarrow> bool" where
  "avoids cs u \<longleftrightarrow> (\<forall>c rs ms d. (c, rs) \<in> set u \<longrightarrow> d \<in> set cs \<longrightarrow> (ms, JUMP d) \<notin> set rs)"

lemma names_fading [simp]: "names (fading cs f body u) = names u"
  by (simp add: fading_def case_prod_unfold)

lemma map_of_fading:
  "c \<notin> set cs \<Longrightarrow> map_of (fading cs f body u) c = map_option (\<lambda>rs. rs @ chain_rules body c) (map_of u c)"
  by (induction u) (auto simp: fading_def)

lemma delete_fading:
  assumes "c \<notin> set cs" "avoids cs u" "g = JUMP d" "d \<in> set cs"
  shows "on_chain c (remove1 (ms, g)) (fading cs f (Append c ms g # body) u) = fading cs f body u"
proof -
  have "remove1 (ms, g) (rs @ (ms, g) # chain_rules body c) = rs @ chain_rules body c" if "(c, rs) \<in> set u" for rs
    using that assms(2-4) by (auto simp: remove1_append avoids_def)
  then show ?thesis
    using assms(1) by (auto simp: on_chain_def fading_def)
qed

lemma run_hook_deletes:
  assumes "avoids cs u" "list_all (owned_rule cs) body" "fits body u"
  shows "run_lines (hook_deletes cs body) (fading cs f body u) = Some (fading cs f [] u)"
  using assms(2,3)
proof (induction body)
  case (Cons l body)
  then obtain c ms g where l: "l = Append c ms g"
    by (cases l) auto
  have IH: "run_lines (hook_deletes cs body) (fading cs f body u) = Some (fading cs f [] u)"
    using Cons by (auto simp: fits_def)
  show ?case
  proof (cases "c \<in> set cs")
    case True
    then have "fading cs f (l # body) u = fading cs f body u"
      by (auto simp: fading_def l)
    with True IH show ?thesis by (simp add: l)
  next
    case False
    then obtain d where g: "g = JUMP d" "d \<in> set cs"
      using Cons.prems(1) by (auto simp: l split: rtarget.splits)
    from Cons.prems(2) have "c \<in> set (names u)"
      by (auto simp: l fits_def)
    then obtain rs where "map_of u c = Some rs"
      by (metis map_of_eq_None_iff not_None_eq list.set_map)
    with False g delete_fading [OF False assms(1) g] IH show ?thesis
      by (simp add: l map_of_fading)
  qed
qed simp

lemma run_flushes:
  "set cs \<subseteq> set (names u) \<Longrightarrow>
   run_lines (map Flush cs) u = Some (map (\<lambda>(c, rs). (c, if c \<in> set cs then [] else rs)) u)"
proof (induction cs arbitrary: u)
  case (Cons c cs)
  have "map (\<lambda>(d, rs). (d, if d \<in> set cs then [] else rs)) (on_chain c (\<lambda>_. []) u) =
      map (\<lambda>(d, rs). (d, if d \<in> set (c # cs) then [] else rs)) u"
    by (auto simp: on_chain_def)
  with Cons.prems Cons.IH [of "on_chain c (\<lambda>_. []) u"] show ?case by simp
qed (simp add: case_prod_unfold)

lemma run_chain_deletes:
  assumes "distinct cs" "set cs \<inter> set (names t) = {}" "set cs \<inter> set builtin_chains = {}" "avoids cs t"
  shows "run_lines (map DeleteChain cs) (t @ blank cs) = Some t"
  using assms
proof (induction cs)
  case (Cons c cs)
  have "map_of t c = None"
    using Cons.prems(2) by (simp add: map_of_eq_None_iff)
  then have "map_of (t @ blank (c # cs)) c = Some []"
    by (simp add: map_add_def)
  moreover have "\<not> references c (t @ blank (c # cs))"
    using Cons.prems(4) by (auto simp: references_def avoids_def list_ex_iff blank_def)
  moreover have "filter (\<lambda>(d, _). d \<noteq> c) t = t" "filter (\<lambda>(d, _). d \<noteq> c) (blank cs) = blank cs"
    using Cons.prems(1,2) by (force simp: filter_id_conv)+
  moreover have "run_lines (map DeleteChain cs) (t @ blank cs) = Some t"
    using Cons by (auto simp: avoids_def)
  ultimately show ?case
    using Cons.prems(3) by simp
qed simp


lemma undo_runs:
  assumes "sound t" "list_all (owned_rule cs) body" "set cs \<inter> set builtin_chains = {}"
    and "run_lines (map NewChain cs @ body) t = Some v"
  shows "run_lines (hook_deletes cs body @ map Flush cs @ map DeleteChain cs) v = Some t"
proof -
  let ?u = "t @ blank cs" and ?f = "chain_rules body"
  from run_payload [OF assms(2,4)] have cs: "distinct cs" "set cs \<inter> set (names t) = {}"
    and v: "v = extended body ?u" and fits: "fits body ?u"
    by auto
  have avoids: "avoids cs t" "avoids cs ?u"
    using assms(1) cs(2) by (fastforce simp: avoids_def sound_def list_all_iff)+
  have own: "(c, rs) \<in> set t \<Longrightarrow> c \<in> set cs \<Longrightarrow> rs = []" for c rs
    using cs(2) by force
  have "v = fading cs ?f body ?u"
    unfolding v extended_def fading_def by (rule map_cong) (auto dest: own)
  moreover have "map (\<lambda>(c, rs). (c, if c \<in> set cs then [] else rs)) (fading cs ?f [] ?u) = ?u"
    unfolding fading_def map_map by (rule map_idI) (auto dest: own)
  ultimately have "v = fading cs ?f body ?u" "map (\<lambda>(c, rs). (c, if c \<in> set cs then [] else rs)) (fading cs ?f [] ?u) = ?u"
    by auto
  with run_hook_deletes [OF avoids(2) assms(2) fits, of ?f] run_flushes [of cs "fading cs ?f [] ?u"]
    run_chain_deletes [OF cs assms(3) avoids(1)]
  show ?thesis
    by (simp add: run_lines_append)
qed

lemma names_hook_deletes: "run_lines (hook_deletes cs body) t = Some u \<Longrightarrow> names u = names t"
proof (induction body arbitrary: t)
  case (Cons l body)
  then show ?case
    by (cases l) (auto split: option.splits if_splits dest: Cons.IH)
qed simp

lemma undo_refused:
  assumes "set cs \<inter> set (names t) = {}" "cs \<noteq> []"
  shows "run_lines (hook_deletes cs body @ map Flush cs @ ls) t = None"
proof (cases "run_lines (hook_deletes cs body) t")
  case (Some u)
  from assms(2) obtain c ds where "cs = c # ds"
    by (cases cs) auto
  with Some assms(1) names_hook_deletes [OF Some] show ?thesis
    by (auto simp: run_lines_append)
qed (simp add: run_lines_append)


subsection \<open>Steps\<close>

text \<open>What a step creates.\<close>

datatype resource = Chain_Of IpFamily NetfilterTable string | Entry "string list"

fun entry_of :: "string list \<Rightarrow> string list" where
  "entry_of (flag # object # action # rest) = flag # object # rest"
| "entry_of _ = []"

fun claims :: "NetworkOperation \<Rightarrow> resource list" where
  "claims (Restore family ls) =
     (case ls of TableLine t # _ \<Rightarrow> map (Chain_Of family t) (new_chains ls) | _ \<Rightarrow> [])"
| "claims op = [Entry (entry_of (ci_arguments (from_operation op)))]"

fun holds :: "kernel \<Rightarrow> resource \<Rightarrow> bool" where
  "holds k (Chain_Of family t c) \<longleftrightarrow> c \<in> set (names (k_tables k family t))"
| "holds k (Entry e) \<longleftrightarrow> e \<in> set (k_ip k)"

definition sound_kernel :: "kernel \<Rightarrow> bool" where
  "sound_kernel k \<longleftrightarrow> (\<forall>family t. sound (k_tables k family t))"

inductive undoable :: "PlanStep \<Rightarrow> bool" where
  undoable_restore: "list_all (owned_rule cs) body \<Longrightarrow> cs \<noteq> [] \<Longrightarrow> set cs \<inter> set builtin_chains = {} \<Longrightarrow>
    undoable (restore_step kind family (payload t cs body, undo (payload t cs body)))"
| undoable_route: "undoable \<lparr>ps_kind = kind, ps_apply = PolicyRoute Action_Add family table device local,
    ps_rollback = PolicyRoute Action_Delete family table device local\<rparr>"
| undoable_rule: "undoable \<lparr>ps_kind = kind, ps_apply = PolicyRule Action_Add family mark msk table priority,
    ps_rollback = PolicyRule Action_Delete family mark msk table priority\<rparr>"

definition reverses :: "PlanStep \<Rightarrow> kernel \<Rightarrow> bool" where
  "reverses step k \<longleftrightarrow>
     network_effect (from_operation (ps_rollback step)) k = None
     \<and> (\<forall>k'. network_effect (from_operation (ps_apply step)) k = Some k' \<longrightarrow>
          network_effect (from_operation (ps_rollback step)) k' = Some k \<and> sound_kernel k'
          \<and> (\<forall>r. holds k' r \<longleftrightarrow> holds k r \<or> r \<in> set (claims (ps_apply step))))"

lemma restore_effect: "network_effect (from_operation (Restore family ls)) k = restore_family family ls k"
  by (cases family) (simp_all add: network_effect_def)

lemma reverses_restore:
  assumes "sound_kernel k" "list_all (owned_rule cs) body" "cs \<noteq> []" "set cs \<inter> set builtin_chains = {}"
    and "\<And>c. c \<in> set cs \<Longrightarrow> \<not> holds k (Chain_Of family t c)"
  shows "reverses (restore_step kind family (payload t cs body, undo (payload t cs body))) k"
proof -
  define u where "u = k_tables k family t"
  have u: "sound u" "set cs \<inter> set (names u) = {}"
    using assms(1,5) by (auto simp: u_def sound_kernel_def)
  have undo: "undo (payload t cs body) = TableLine t # (hook_deletes cs body @ map Flush cs @ map DeleteChain cs) @ [CommitLine]"
    by (simp add: undo_payload [OF assms(2)])
  have given: "payload t cs body = TableLine t # (map NewChain cs @ body) @ [CommitLine]"
    by (simp add: payload_def)
  have "restore_family family (undo (payload t cs body)) k = None"
    unfolding restore_family_def undo restore_payload_body using undo_refused [OF u(2) assms(3)] by (simp add: u_def)
  moreover have "restore_family family (undo (payload t cs body)) k' = Some k \<and> sound_kernel k'
      \<and> (\<forall>r. holds k' r \<longleftrightarrow> holds k r \<or> r \<in> Chain_Of family t ` set cs)"
    if "restore_family family (payload t cs body) k = Some k'" for k'
  proof -
    from that obtain v where v: "run_lines (map NewChain cs @ body) u = Some v"
      and k': "k' = k\<lparr>k_tables := (k_tables k)(family := (k_tables k family)(t := v))\<rparr>"
      unfolding restore_family_def given restore_payload_body by (auto simp: u_def)
    note run = run_payload [OF assms(2) v]
    have "sound_kernel k'"
      using assms(1) sound_extended [OF u(1)] run by (auto simp: sound_kernel_def k')
    moreover have "names v = names u @ cs"
      using run by simp
    then have "c \<in> set (names v) \<longleftrightarrow> c \<in> set (names u) \<or> c \<in> set cs" for c
      by simp
    then have "holds k' r \<longleftrightarrow> holds k r \<or> r \<in> Chain_Of family t ` set cs" for r
      by (cases r) (auto simp: k' u_def simp del: set_map)
    moreover note this
    moreover have "restore_family family (undo (payload t cs body)) k' = Some k"
      unfolding restore_family_def undo restore_payload_body
      using undo_runs [OF u(1) assms(2,4) v] by (simp add: k' u_def fun_upd_idem)
    ultimately show ?thesis by blast
  qed
  ultimately show ?thesis
    using new_chains_simps(3) [OF assms(2)]
    by (simp add: reverses_def restore_step_def restore_effect payload_def del: from_operation.simps)
qed


lemma reverses_entry:
  assumes "sound_kernel k" "flag # object # rest \<notin> set (k_ip k)"
    and "ci_program (from_operation (ps_apply step)) = Ip" "ci_program (from_operation (ps_rollback step)) = Ip"
    and "ci_arguments (from_operation (ps_apply step)) = flag # object # ''add'' # rest"
    and "ci_arguments (from_operation (ps_rollback step)) = flag # object # ''del'' # rest"
    and "claims (ps_apply step) = [Entry (flag # object # rest)]"
  shows "reverses step k"
proof -
  have "network_effect (from_operation (ps_rollback step)) k = None"
    using assms by (simp add: network_effect_def split: option.splits)
  moreover have "network_effect (from_operation (ps_rollback step)) k' = Some k \<and> sound_kernel k'
      \<and> (\<forall>r. holds k' r \<longleftrightarrow> holds k r \<or> r \<in> set (claims (ps_apply step)))"
    if "network_effect (from_operation (ps_apply step)) k = Some k'" for k'
  proof -
    from that have k': "k' = k\<lparr>k_ip := k_ip k @ [flag # object # rest]\<rparr>"
      using assms by (auto simp: network_effect_def Let_def split: option.splits if_splits)
    have "holds k' r \<longleftrightarrow> holds k r \<or> r \<in> set (claims (ps_apply step))" for r
      by (cases r) (auto simp: k' assms(7))
    then show ?thesis
      using assms by (auto simp: k' network_effect_def Let_def remove1_append sound_kernel_def split: option.splits)
  qed
  ultimately show ?thesis by (simp add: reverses_def)
qed

lemma reverses_undoable:
  assumes "undoable step" "sound_kernel k" "\<And>r. r \<in> set (claims (ps_apply step)) \<Longrightarrow> \<not> holds k r"
  shows "reverses step k"
  using assms(1)
proof cases
  case (undoable_restore cs body kind family t)
  have "set (claims (ps_apply step)) = Chain_Of family t ` set cs"
    using new_chains_simps(3) [OF undoable_restore(2)] by (simp add: undoable_restore(1) restore_step_def payload_def)
  then have "\<not> holds k (Chain_Of family t c)" if "c \<in> set cs" for c
    using assms(3) that by blast
  then show ?thesis
    unfolding undoable_restore(1) using undoable_restore(2-4) by (intro reverses_restore [OF assms(2)])
next
  case (undoable_route kind family table device local)
  with assms(3) show ?thesis
    by (intro reverses_entry [OF assms(2), of "family_flag family" "''route''"]) (auto simp: action_name_def)
next
  case (undoable_rule kind family mark msk table priority)
  with assms(3) show ?thesis
    by (intro reverses_entry [OF assms(2), of "family_flag family" "''rule''"]) (auto simp: action_name_def)
qed

definition claimed_by :: "PlanStep list \<Rightarrow> resource list" where
  "claimed_by steps = concat (map (\<lambda>step. claims (ps_apply step)) steps)"

lemma claimed_by_simps [simp]:
  "claimed_by [] = []" "claimed_by (step # steps) = claims (ps_apply step) @ claimed_by steps"
  "claimed_by (steps @ steps') = claimed_by steps @ claimed_by steps'"
  by (simp_all add: claimed_by_def)

definition unclaimed :: "kernel \<Rightarrow> PlanStep list \<Rightarrow> bool" where
  "unclaimed k steps \<longleftrightarrow> list_all (\<lambda>r. \<not> holds k r) (claimed_by steps)"

lemma undoable_steps_are_reversible:
  assumes "sound_kernel k" "list_all undoable steps" "distinct (claimed_by steps)"
    and "unclaimed k steps"
  shows "reversible network_effect k steps"
  using assms
proof (induction steps arbitrary: k)
  case (Cons step steps)
  have rev: "reverses step k"
    using Cons.prems by (intro reverses_undoable) (auto simp: unclaimed_def list_all_iff)
  have "reversible network_effect k' steps" if "network_effect (from_operation (ps_apply step)) k = Some k'" for k'
  proof (rule Cons.IH)
    show "sound_kernel k'" "unclaimed k' steps"
      using that rev Cons.prems(3,4) by (auto simp: reverses_def unclaimed_def list_all_iff)
  qed (use Cons.prems in auto)
  with rev show ?case by (simp add: reverses_def split: option.splits)
qed simp


subsection \<open>The payloads of the planner\<close>

fun is_append :: "rline \<Rightarrow> bool" where
  "is_append (Append c ms g) = True"
| "is_append _ = False"

text \<open>The second payload of a pair is the inverse of the first.\<close>

definition paired :: "NetfilterTable \<Rightarrow> string list \<Rightarrow> rline list \<times> rline list \<Rightarrow> bool" where
  "paired t cs payloads \<longleftrightarrow>
     (let body = filter is_append (fst payloads)
      in fst payloads = payload t cs body \<and> list_all (owned_rule cs) body \<and> snd payloads = undo (fst payloads))"

lemma pairedI:
  assumes "fst payloads = payload t cs body" "filter is_append (fst payloads) = body" "list_all (owned_rule cs) body"
    and "snd payloads = TableLine t # hook_deletes cs body @ map Flush cs @ map DeleteChain cs @ [CommitLine]"
  shows "paired t cs payloads"
  using assms undo_payload [OF assms(3), of t] by (simp add: paired_def)

lemma filter_append_map [simp]:
  "filter is_append (map (\<lambda>x. Append c (f x) g) xs) = map (\<lambda>x. Append c (f x) g) xs"
  by (induction xs) simp_all

lemma capture_rule_form:
  "l \<in> set (output_capture_rules c policy a interfaces) \<Longrightarrow> \<exists>ms. l = Append c ms (SET_XMARK (rc_mark a) (rc_mask a))"
  by (auto simp: output_capture_rules_def Let_def split: option.splits if_splits)

lemma hook_deletes_own: "(\<And>l. l \<in> set ls \<Longrightarrow> \<exists>c ms g. l = Append c ms g \<and> c \<in> set cs) \<Longrightarrow> hook_deletes cs ls = []"
  by (induction ls) fastforce+

lemma capture_rules_owned [simp]:
  "filter is_append (output_capture_rules c policy a interfaces) = output_capture_rules c policy a interfaces"
  "c \<in> set cs \<Longrightarrow> list_all (owned_rule cs) (output_capture_rules c policy a interfaces)"
  "c \<in> set cs \<Longrightarrow> hook_deletes cs (output_capture_rules c policy a interfaces) = []"
proof -
  show "filter is_append (output_capture_rules c policy a interfaces) = output_capture_rules c policy a interfaces"
    by (auto simp: filter_id_conv dest!: capture_rule_form)
  show "c \<in> set cs \<Longrightarrow> list_all (owned_rule cs) (output_capture_rules c policy a interfaces)"
    by (auto simp: list_all_iff dest!: capture_rule_form)
  show "c \<in> set cs \<Longrightarrow> hook_deletes cs (output_capture_rules c policy a interfaces) = []"
    by (rule hook_deletes_own) (auto dest!: capture_rule_form)
qed

lemma owned_map [simp]:
  "list_all (owned_rule cs) (map (\<lambda>x. Append c (f x) g) xs) \<longleftrightarrow> xs = [] \<or> owned_rule cs (Append c [] g)"
  by (cases g; induction xs) auto

lemma ipv6_guard_paired:
  "paired Filter [''NH_V6G_'' @ slot_suffix slot, ''NH_V6B_'' @ slot_suffix slot] (ipv6_guard_payloads slot policy owner)"
  by (rule pairedI) (auto simp: ipv6_guard_payloads_def Let_def payload_def)

lemma dns_guard_paired:
  "paired Filter [''NH_DNS_'' @ slot_suffix slot] (dns_guard_payloads slot policy a owner interfaces)"
  by (rule pairedI) (auto simp: dns_guard_payloads_def dns_drops_def Let_def payload_def split: option.splits)

lemma tun_paired:
  "paired Mangle [''NH_TUN_'' @ slot_suffix slot] (tun_payloads slot policy a owner interfaces)"
  by (rule pairedI) (auto simp: tun_payloads_def Let_def payload_def output_uid_bypasses_def)

lemma tproxy_paired:
  "paired Mangle [''NH_OUT_'' @ slot_suffix slot, ''NH_PRE_'' @ slot_suffix slot, ''NH_DIV_'' @ slot_suffix slot]
     (tproxy_payloads family slot policy a port owner interfaces)"
  by (rule pairedI) (auto simp: tproxy_payloads_def Let_def payload_def output_uid_bypasses_def)

lemma forwarding_paired:
  "forwarding_payloads slot policy a interfaces owner = Some payloads \<Longrightarrow>
   paired Mangle [''NH_FWD_'' @ slot_suffix slot] payloads"
  by (rule pairedI) (auto simp: forwarding_payloads_def Let_def payload_def split: option.splits)

lemma forwarding_guard_paired:
  "paired Filter [''NH_FWD6_'' @ slot_suffix slot] (forwarding_ipv6_guard_payloads slot interfaces owner)"
  by (rule pairedI) (auto simp: forwarding_ipv6_guard_payloads_def Let_def payload_def)


lemma paired_step:
  assumes "paired t cs payloads" "cs \<noteq> []" "set cs \<inter> set builtin_chains = {}"
  shows "undoable (restore_step kind family payloads)"
    and "claims (ps_apply (restore_step kind family payloads)) = map (Chain_Of family t) cs"
proof -
  define body where "body = filter is_append (fst payloads)"
  have "payloads = (payload t cs body, undo (payload t cs body))" "list_all (owned_rule cs) body"
    using assms(1) by (simp_all add: paired_def Let_def body_def [symmetric] prod_eq_iff)
  then show "undoable (restore_step kind family payloads)"
    and "claims (ps_apply (restore_step kind family payloads)) = map (Chain_Of family t) cs"
    using undoable_restore assms(2,3) by (simp_all add: restore_step_def payload_def)
qed

lemma owned_names [simp]: "CHR ''N'' # s \<notin> set builtin_chains"
  by (simp add: builtin_chains_def)

lemmas planned_steps = paired_step [OF ipv6_guard_paired, simplified] paired_step [OF dns_guard_paired, simplified]
  paired_step [OF tun_paired, simplified] paired_step [OF tproxy_paired, simplified]
  paired_step [OF forwarding_guard_paired, simplified]

lemma policy_steps_undoable: "list_all undoable (policy_steps family a device local)"
  by (simp add: policy_steps_def undoable_route undoable_rule)

lemma policy_steps_claims:
  "claimed_by (policy_steps family a device local) =
     [Entry (family_flag family # ''route'' # (if local then [''local''] else [])
         @ [case family of Ipv4 \<Rightarrow> ''0.0.0.0/0'' | Ipv6 \<Rightarrow> ''::/0'', ''dev'', device, ''table'', show_u32 (rc_route_table a)]),
      Entry [family_flag family, ''rule'', ''priority'', show_u32 (rc_rule_priority a), ''fwmark'',
         mark_mask_text (rc_mark a) (rc_mask a), ''lookup'', show_u32 (rc_route_table a)]]"
  by (simp add: policy_steps_def)

lemma tproxy_forwarding_steps_undoable:
  assumes "tproxy_forwarding_steps generation slot policy a forwarding = Some steps"
  shows "list_all undoable steps"
    and "claimed_by steps \<in> {[], [Chain_Of Ipv4 Mangle (''NH_FWD_'' @ slot_suffix slot),
      Chain_Of Ipv6 Filter (''NH_FWD6_'' @ slot_suffix slot)]}"
  using assms paired_step [OF forwarding_paired, simplified]
  by (auto simp: tproxy_forwarding_steps_def planned_steps split: if_splits option.splits)

lemma tproxy_steps_undoable:
  assumes "tproxy_steps generation slot policy a port interfaces forwarding tproxy guarded = Some steps"
  shows "list_all undoable steps"
  using assms tproxy_forwarding_steps_undoable(1)
  by (auto simp: tproxy_steps_def Let_def planned_steps policy_steps_undoable split: option.splits)

lemma tproxy_steps_distinct:
  assumes "tproxy_steps generation slot policy a port interfaces forwarding tproxy guarded = Some steps"
  shows "distinct (claimed_by steps)"
proof -
  obtain fs where fs: "tproxy_forwarding_steps generation slot policy a forwarding = Some fs"
    using assms by (auto simp: tproxy_steps_def Let_def split: option.splits)
  from tproxy_forwarding_steps_undoable(2) [OF fs] assms fs show ?thesis
    by (auto simp: tproxy_steps_def Let_def planned_steps policy_steps_claims family_flag_def)
qed


subsection \<open>Whole plans\<close>

lemma tproxy_plan_reversible:
  assumes "build_tproxy generation slot policy report = Some (Ok plan)" "sound_kernel k" "unclaimed k (np_steps plan)"
  shows "reversible network_effect k (np_steps plan)"
proof -
  from assms(1) obtain a interfaces forwarding tproxy guarded
    where "tproxy_steps generation slot policy a (cr_inbound_port report) interfaces forwarding tproxy guarded = Some (np_steps plan)"
    by (elim build_tproxy_Ok) simp
  with assms(2,3) show ?thesis
    by (intro undoable_steps_are_reversible) (auto intro: tproxy_steps_undoable tproxy_steps_distinct)
qed

text \<open>Attempts to roll a plan back, each continuing with the receipt of the one before, under any circumstances.\<close>

inductive rollback_tries :: "NetworkPlan \<Rightarrow> ApplyReceipt \<Rightarrow> machine \<Rightarrow> ApplyReceipt \<Rightarrow> machine \<Rightarrow> bool"
  for plan receipt m where
  no_try: "rollback_tries plan receipt m receipt m"
| one_more_try: "rollback_tries plan receipt m receipt1 m1 \<Longrightarrow>
    rollback_plan kernel_execute plan receipt1 (m1\<lparr>mc_weather := ws\<rparr>) = Some (r, receipt2, m2) \<Longrightarrow>
    rollback_tries plan receipt m receipt2 m2"

lemma tries_stay_near:
  assumes "rollback_tries plan receipt m receipt' m'" "reversible network_effect k (np_steps plan)"
    and "ar_completed_steps receipt \<le> length (np_steps plan)"
    and "near network_effect k (np_steps plan) (ar_completed_steps receipt) (mc_kernel m)"
  shows "ar_completed_steps receipt' \<le> length (np_steps plan)
    \<and> near network_effect k (np_steps plan) (ar_completed_steps receipt') (mc_kernel m')"
  using assms(1)
proof induction
  case no_try
  with assms show ?case by simp
next
  case (one_more_try receipt1 m1 ws r receipt2 m2)
  then show ?case
    using device.rollback_loop_returns [OF assms(2), of "ar_completed_steps receipt1" "m1\<lparr>mc_weather := ws\<rparr>"]
    by (auto simp: rollback_plan_def rollback_steps_def Let_def split: if_splits prod.splits)
qed

lemma tries_return:
  assumes "rollback_tries plan receipt m receipt' m'" "reversible network_effect k (np_steps plan)"
    and "ar_completed_steps receipt = length (np_steps plan)" "installed network_effect k (np_steps plan) = Some (mc_kernel m)"
    and "ar_completed_steps receipt' = 0"
  shows "mc_kernel m' = k"
  using tries_stay_near [OF assms(1,2)] assms(3-5) by (simp add: near_def)

text \<open>C2. A plan that fails leaves no trace. Take a plan that \<open>build_tproxy\<close> returns and a network on which none of
  its chains and routing entries exists, and let the commands fail, time out or lose their output in any way. If
  applying the plan reports that a step failed, the network is exactly as it was; if it reports a receipt, every step
  is installed, and once any sequence of rollback attempts has brought the receipt down to no step, the network
  is exactly as it was before the plan. The only other answer names a rollback that failed.\<close>

theorem failed_plan_leaves_no_trace:
  assumes "build_tproxy generation slot policy report = Some (Ok plan)"
    and "sound_kernel (mc_kernel m)" "unclaimed (mc_kernel m) (np_steps plan)"
    and "apply_plan kernel_execute plan m = (r, m')"
  shows "case r of
      Inr receipt \<Rightarrow>
        installed network_effect (mc_kernel m) (np_steps plan) = Some (mc_kernel m')
        \<and> (\<forall>receipt' m''. rollback_tries plan receipt m' receipt' m'' \<longrightarrow> ar_completed_steps receipt' = 0 \<longrightarrow>
             mc_kernel m'' = mc_kernel m)
    | Inl e \<Rightarrow> (\<exists>i. e = ApplyFailed i \<and> mc_kernel m' = mc_kernel m) \<or> (\<exists>i j. e = ApplyRollbackFailed i j \<and> j \<le> i)"
proof -
  note rev = tproxy_plan_reversible [OF assms(1-3)]
  have "apply_from kernel_execute (np_generation plan) (np_slot plan) (np_steps plan) 0 (np_steps plan) m = (r, m')"
    using assms(4) by (simp add: apply_plan_def apply_steps_def)
  from device.apply_from_outcome [OF rev _ _ _ this] show ?thesis
    by (auto split: sum.splits intro: tries_return [OF _ rev])
qed

definition example_machine :: "weather list \<Rightarrow> machine" where
  "example_machine ws =
     \<lparr>mc_kernel = \<lparr>k_tables = (\<lambda>_ _. blank builtin_chains), k_ip = []\<rparr>, mc_weather = ws\<rparr>"

lemma example_machine_ok:
  "sound_kernel (mc_kernel (example_machine ws))" "unclaimed (mc_kernel (example_machine ws)) (np_steps example_plan)"
proof -
  show "sound_kernel (mc_kernel (example_machine ws))"
    by (simp add: sound_kernel_def sound_def example_machine_def builtin_chains_def)
  show "unclaimed (mc_kernel (example_machine ws)) (np_steps example_plan)"
    by (simp add: unclaimed_def example_plan_def planned_steps policy_steps_claims example_machine_def builtin_chains_def)
qed


text \<open>On the example device, the output of the first command is lost after it took effect.\<close>

definition example_weather :: "weather list" where
  "example_weather = [Loses_Output True, Exits ''Bad rule'']"

lemma example_failure: "fst (apply_plan kernel_execute example_plan (example_machine example_weather)) = Err (ApplyFailed 0)"
proof -
  define m where "m = example_machine example_weather"
  obtain step rest where steps: "np_steps example_plan = step # rest"
    by (simp add: example_plan_def)
  have "reversible network_effect (mc_kernel m) (step # rest)"
    using tproxy_plan_reversible [OF example_build example_machine_ok, of example_weather] by (simp add: m_def steps)
  moreover have "mc_weather m = [Loses_Output True, Exits ''Bad rule'']"
    by (simp add: m_def example_machine_def example_weather_def)
  moreover have "exit_answer False ''Bad rule'' = Err Failure_Absent"
    by code_simp
  ultimately show ?thesis
    unfolding m_def [symmetric]
    by (auto simp: apply_plan_def apply_steps_def steps kernel_execute_def is_good_def Let_def rollback_range_def
        execute_rollback_def take_effect_def exit_answer_def split: option.splits)
qed

theorem failed_plan_leaves_no_trace_witness:
  "mc_kernel (snd (apply_plan kernel_execute example_plan (example_machine example_weather))) =
     mc_kernel (example_machine [])"
proof -
  define m where "m = example_machine example_weather"
  obtain r m' where a: "apply_plan kernel_execute example_plan m = (r, m')"
    by fastforce
  with example_failure have "r = Err (ApplyFailed 0)"
    by (simp add: m_def)
  with failed_plan_leaves_no_trace [OF example_build, of m r m'] example_machine_ok a show ?thesis
    by (simp add: m_def [symmetric]) (simp add: m_def example_machine_def)
qed

end
