(* ===== verification/Spec2Isabelle.thy ===== *)
theory Spec2Isabelle
  imports Lifecycle Runtime_State Capture Resource Composer Sources Scheduler Auto_Update Candidate_Pool Supervisor Journal
    Generation_Store Kernel_Network
begin

text \<open>
  \<^bold>\<open>The program.\<close> NetHop is an Android root module that runs a sing-box core behind a Rust daemon. The daemon turns a
  user configuration and subscription sources into a core configuration (\<open>nethop-core\<close>), publishes it as a
  numbered generation, keeps its schedules and supervises its worker (\<open>nethopd\<close>), and redirects the traffic of the
  device to the core with netfilter rules and policy routing (\<open>nethop-android\<close>). This development models the decision
  logic of these three crates and the parts of their state that survive failures.

  \<^bold>\<open>Conventions.\<close> A Rust string or byte vector is a \<^typ>\<open>string\<close> (its bytes), a fixed-width integer a word, a
  \<open>Duration\<close> its nanoseconds, a \<open>Result\<close> a sum whose left side is the error, a \<open>BTreeMap\<close> a sorted association list.
  Private fields make constructors the only source of a value: the predicates named \<open>_held\<close> are the values that
  constructors and builder calls give. Third-party code (SHA-256, serde_json, the validator of the core, the tools of the
  device) is an argument of the definitions that use it.

  \<^bold>\<open>Theories.\<close>
  \<^item> \<open>Prelude\<close>, \<open>Slices\<close>, \<open>Machines\<close>, \<open>Btree\<close>, \<open>Json\<close>, \<open>Texts\<close>: results, machine integers, slices and sorted lists
    (binary search, sort and dedup, the interface \<open>key_index\<close>), reachability of step functions, maps, JSON values and the
    functions of \<open>str\<close>.
  \<^item> \<open>Lifecycle\<close>, \<open>Runtime_State\<close> (\<open>nethop-core/src/lifecycle.rs\<close>, \<open>state.rs\<close>): the reducer of the daemon's axes and the
    state machine, with their invariants over all reachable states and the failures they can and cannot record.
  \<^item> \<open>Capture\<close> (\<open>capture.rs\<close>): capture policies; the constructor accepts exactly the consistent arguments and
    \<open>captures_uid\<close> decides the lists as given.
  \<^item> \<open>Resource\<close> (\<open>resource.rs\<close>, \<open>resource_policy.rs\<close>): order statistics of samples and the idle controller.
  \<^item> \<open>Composer\<close> (\<open>composer.rs\<close>): the core configuration; every reference in a composed document is declared in it.
  \<^item> \<open>Sources\<close> (\<open>source_config.rs\<close>): identities of sources, attribution, and the canonical text behind their digest.
  \<^item> \<open>Scheduler\<close>, \<open>Auto_Update\<close> (\<open>scheduler.rs\<close>, \<open>auto_update.rs\<close>): schedules, backoff, wake-up times and their restart.
  \<^item> \<open>Candidate_Pool\<close> (\<open>candidate_pool.rs\<close>): eligible nodes and the fair round robin between sources.
  \<^item> \<open>Supervisor\<close> (\<open>supervisor.rs\<close>, \<open>process.rs\<close>, \<open>application.rs\<close>): the worker's restarts, the supervisor loop and the test
    that a process identifier has not been reused.
  \<^item> \<open>Fs\<close>, \<open>Calm\<close>: the file system with links, modes, data that a crash loses unless it was synchronised, and calls that
    fail in part; \<open>Calm\<close> counts failures and says what a run without links keeps.
  \<^item> \<open>Atomic_File\<close>, \<open>Journal\<close> (\<open>worker_config.rs\<close>, \<open>subscription_transaction.rs\<close>): the atomic write and the commit journal
    with its recovery, under every failure and crash.
  \<^item> \<open>Generation\<close>, \<open>Generation_Store\<close> (\<open>generation.rs\<close>, \<open>diagnostics.rs\<close>): node registries, candidates, and the publication
    of a generation on the file system.
  \<^item> \<open>Capability\<close> (\<open>nethop-android/src/capability.rs\<close>): the probe of the device and the parsers of tool outputs; the test of
    routing rules for conflicts is exact.
  \<^item> \<open>Glob\<close>, \<open>Netfilter\<close>, \<open>Network_Plan\<close>, \<open>Forwarding\<close> (\<open>plan.rs\<close>, \<open>forwarding.rs\<close>): interface patterns, the lines of
    payloads with their text and their meaning for a packet, and the planners. The rules of a plan do what the capture
    policy says, and IPv6 is never left open.
  \<^item> \<open>Network_Executor\<close>, \<open>Kernel_Network\<close> (\<open>executor.rs\<close>): the execution of plans behind the interface
    \<open>network_backend\<close>, and the network of the device as an instance of it, on which a failed plan leaves no trace.

  \<^bold>\<open>How the parts meet.\<close> A capture policy and a capability report go into \<open>build_tproxy\<close>; the plan goes to the executor;
  the composer's document goes, with the node registry, into a candidate that the generation store publishes; the journal
  makes the change of configuration file and generation one transaction. The properties about plans, the network and
  the stores are stated over these compositions.

  \<^bold>\<open>Loops, bounds and fuel.\<close> Recursion is structural, or has a termination proof by a measure. The pattern
  matcher is a \<open>while_option\<close> whose return is proved; the supervisor loop takes the list of signals it receives. The
  traversal of netfilter rules is bounded by the depth of jumps: two are enough, because a hook jumps to a chain of the plan
  and that chain at most to one more. Clocks saturate and counters wrap as in the source.

  \<^bold>\<open>The environment.\<close> The file system, the netfilter tables, the routing entries and the meaning of rules for a packet are
  not code of the repository. They are models of documented behaviour, used to state what the modelled code achieves. The
  network model assumes that \<open>iptables-restore\<close> commits a payload as a whole and that a refused command changes
  nothing.

  \<^bold>\<open>Not modelled.\<close> The composition of the worker out of threads and channels (\<open>worker_application.rs\<close> and its services,
  activation and runtime), because its behaviour is that of the interleavings; child processes, sockets, netlink and HTTP,
  which only call the system; the subscription parsers and the wire protocol, which are thin layers over YAML, JSON, URL and
  serde libraries; generated territory tables; the web interface, the companion application and the module's shell scripts.
  Within modelled files the \<open>Debug\<close> and \<open>Display\<close> texts are left out, apart from the diagnostic codes.
\<close>

end
